(* ===== verification/Prelude.thy ===== *)
theory Prelude
  imports Complex_Main "HOL-Library.Word" "HOL-Library.Monad_Syntax"
    "HOL-Library.List_Lexorder" "HOL-Library.Product_Lexorder"
begin

text \<open>
  Shared ground of the development: the machine integer types of the Rust code, Rust's
  arithmetic operators with their two overflow behaviours (panic when overflow checks are
  compiled in, wrap-around otherwise), saturating and checked operations, and the standard
  library's ordered containers \<open>BTreeMap\<close> and \<open>BTreeSet\<close> as sorted lists, with the contract
  of an ordered map stated as a locale and interpreted on the model.

  A computation that may panic has type \<open>'a run\<close>: \<open>None\<close> is a panic. A Rust \<open>Result\<close> is a
  sum, \<open>Inl\<close> its error.
\<close>

section \<open>Types\<close>

type_synonym u8 = "8 word"
type_synonym u32 = "32 word"
type_synonym u64 = "64 word"
type_synonym u128 = "128 word"

type_synonym 'a run = "'a option"
type_synonym ('e, 'a) result = "'e + 'a"

named_theorems rust_arith \<open>how the Rust arithmetic operators read on natural numbers\<close>

section \<open>Integer arithmetic\<close>

text \<open>
  The first argument tells whether the build has overflow checks (debug and test profiles)
  or not (the release profile of the workspace, which sets none).
\<close>

definition rs_add :: "bool \<Rightarrow> 'w::len word \<Rightarrow> 'w word \<Rightarrow> 'w word run" where
  "rs_add checks a b =
     (if checks \<and> 2 ^ LENGTH('w) \<le> unat a + unat b then None else Some (a + b))"

definition rs_sub :: "bool \<Rightarrow> 'w::len word \<Rightarrow> 'w word \<Rightarrow> 'w word run" where
  "rs_sub checks a b = (if checks \<and> a < b then None else Some (a - b))"

definition rs_mul :: "bool \<Rightarrow> 'w::len word \<Rightarrow> 'w word \<Rightarrow> 'w word run" where
  "rs_mul checks a b =
     (if checks \<and> 2 ^ LENGTH('w) \<le> unat a * unat b then None else Some (a * b))"

definition rs_pow :: "bool \<Rightarrow> 'w::len word \<Rightarrow> u32 \<Rightarrow> 'w word run" where
  "rs_pow checks a n =
     (if checks \<and> 2 ^ LENGTH('w) \<le> unat a ^ unat n then None else Some (a ^ unat n))"

text \<open>Division panics on a zero divisor in every build.\<close>

definition rs_div :: "'w::len word \<Rightarrow> 'w word \<Rightarrow> 'w word run" where
  "rs_div a b = (if b = 0 then None else Some (a div b))"

definition saturating_sub :: "'w::len word \<Rightarrow> 'w word \<Rightarrow> 'w word" where
  "saturating_sub a b = (if a < b then 0 else a - b)"

definition saturating_add :: "'w::len word \<Rightarrow> 'w word \<Rightarrow> 'w word" where
  "saturating_add a b =
     (if 2 ^ LENGTH('w) \<le> unat a + unat b then - 1 else a + b)"

definition saturating_mul :: "'w::len word \<Rightarrow> 'w word \<Rightarrow> 'w word" where
  "saturating_mul a b =
     (if 2 ^ LENGTH('w) \<le> unat a * unat b then - 1 else a * b)"

definition checked_add :: "'w::len word \<Rightarrow> 'w word \<Rightarrow> 'w word option" where
  "checked_add a b = (if 2 ^ LENGTH('w) \<le> unat a + unat b then None else Some (a + b))"

lemma unat_add_fits [rust_arith]:
  fixes a b :: "'w::len word"
  shows "unat a + unat b < 2 ^ LENGTH('w) \<Longrightarrow> unat (a + b) = unat a + unat b"
  by (simp add: unat_word_ariths)

lemma unat_mul_fits [rust_arith]:
  fixes a b :: "'w::len word"
  shows "unat a * unat b < 2 ^ LENGTH('w) \<Longrightarrow> unat (a * b) = unat a * unat b"
  by (simp add: unat_word_ariths)

lemma unat_pow_fits [rust_arith]:
  fixes a :: "'w::len word"
  assumes "unat a ^ n < 2 ^ LENGTH('w)"
  shows "unat (a ^ n) = unat a ^ n"
proof -
  have "unat (a ^ n) = unat a ^ n mod 2 ^ LENGTH('w)"
    by (metis of_nat_power unat_of_nat of_nat_unat ucast_id)
  with assms show ?thesis by simp
qed

lemma rs_add_fits [rust_arith]:
  fixes a b :: "'w::len word"
  shows "unat a + unat b < 2 ^ LENGTH('w) \<Longrightarrow> rs_add checks a b = Some (a + b)"
  by (simp add: rs_add_def)

lemma rs_add_exact:
  fixes a b :: "'w::len word"
  shows "rs_add checks a b = Some c \<Longrightarrow> unat a + unat b < 2 ^ LENGTH('w) \<Longrightarrow> unat c = unat a + unat b"
  by (auto simp: rs_add_def unat_add_fits)

lemma rs_mul_fits [rust_arith]:
  fixes a b :: "'w::len word"
  shows "unat a * unat b < 2 ^ LENGTH('w) \<Longrightarrow> rs_mul checks a b = Some (a * b)"
  by (simp add: rs_mul_def)

lemma rs_pow_fits [rust_arith]:
  fixes a :: "'w::len word"
  shows "unat a ^ unat n < 2 ^ LENGTH('w) \<Longrightarrow> rs_pow checks a n = Some (a ^ unat n)"
  by (simp add: rs_pow_def)

lemma rs_add_unchecked [simp]: "rs_add False a b = Some (a + b)"
  by (simp add: rs_add_def)

lemma rs_mul_unchecked [simp]: "rs_mul False a b = Some (a * b)"
  by (simp add: rs_mul_def)

lemma unat_saturating_mul:
  fixes a b :: "'w::len word"
  shows "unat (saturating_mul a b) = min (unat a * unat b) (2 ^ LENGTH('w) - 1)"
proof (cases "2 ^ LENGTH('w) \<le> unat a * unat b")
  case True
  moreover have "unat (- 1 :: 'w word) = 2 ^ LENGTH('w) - 1"
    by (simp add: unsigned_minus_1_eq_mask mask_eq_exp_minus_1)
  ultimately show ?thesis by (simp add: saturating_mul_def)
next
  case False
  then show ?thesis by (simp add: saturating_mul_def unat_mul_fits)
qed

lemma unat_saturating_add:
  fixes a b :: "'w::len word"
  shows "unat (saturating_add a b) = min (unat a + unat b) (2 ^ LENGTH('w) - 1)"
proof (cases "2 ^ LENGTH('w) \<le> unat a + unat b")
  case True
  moreover have "unat (- 1 :: 'w word) = 2 ^ LENGTH('w) - 1"
    by (simp add: unsigned_minus_1_eq_mask mask_eq_exp_minus_1)
  ultimately show ?thesis by (simp add: saturating_add_def)
next
  case False
  then show ?thesis by (simp add: saturating_add_def unat_add_fits)
qed

lemma unat_saturating_sub: "unat (saturating_sub a b) = unat a - unat b"
  by (simp add: saturating_sub_def word_less_nat_alt unat_sub_if')

lemma unat_ucast_wider:
  fixes x :: "'a::len word"
  assumes "LENGTH('a) \<le> LENGTH('b::len)"
  shows "unat (ucast x :: 'b word) = unat x"
proof -
  have "unat x < 2 ^ LENGTH('a)" by (rule unsigned_less)
  also have "\<dots> \<le> (2 :: nat) ^ LENGTH('b)" using assms by (simp add: power_increasing)
  finally show ?thesis by (simp add: unsigned_ucast_eq take_bit_nat_eq_self)
qed

section \<open>Iteration\<close>

text \<open>Mapping a function that may panic over an iterator: the first panic ends it.\<close>

primrec run_map :: "('a \<Rightarrow> 'b run) \<Rightarrow> 'a list \<Rightarrow> 'b list run" where
  "run_map f [] = Some []"
| "run_map f (x # xs) = do { y \<leftarrow> f x; ys \<leftarrow> run_map f xs; Some (y # ys) }"

lemma run_map_total: "(\<And>x. x \<in> set xs \<Longrightarrow> f x = Some (g x)) \<Longrightarrow> run_map f xs = Some (map g xs)"
  by (induction xs) auto

lemma run_map_SomeD:
  "run_map f xs = Some ys \<Longrightarrow> list_all2 (\<lambda>x y. f x = Some y) xs ys"
  by (induction xs arbitrary: ys) (auto split: Option.bind_splits)

lemma run_map_member: "run_map f xs = Some ys \<Longrightarrow> y \<in> set ys \<Longrightarrow> \<exists>x \<in> set xs. f x = Some y"
  by (induction xs arbitrary: ys) (auto split: Option.bind_splits)

text \<open>Two nested loops over the same list visit the cells of its square, row by row.\<close>

lemma fold_square:
  "fold (\<lambda>i. fold (\<lambda>j. f i j) ys) xs s = fold (\<lambda>(i, j). f i j) (List.product xs ys) s"
  by (induction xs arbitrary: s) (auto simp: fold_map comp_def)

section \<open>Ordered maps and sets\<close>

text \<open>
  A \<open>BTreeMap\<close> is the list of its entries in ascending key order, which is also the order
  its iterators visit. \<open>insert\<close> replaces the entry of a key that is present.
\<close>

type_synonym ('k, 'v) bmap = "('k \<times> 'v) list"

definition bm_insert :: "'k::linorder \<Rightarrow> 'v \<Rightarrow> ('k, 'v) bmap \<Rightarrow> ('k, 'v) bmap" where
  "bm_insert k v m =
     takeWhile (\<lambda>e. fst e < k) m @ (k, v) # dropWhile (\<lambda>e. fst e \<le> k) m"

definition bm_get :: "('k, 'v) bmap \<Rightarrow> 'k \<Rightarrow> 'v option" where
  "bm_get m k = map_of m k"

definition bm_wf :: "('k::linorder, 'v) bmap \<Rightarrow> bool" where
  "bm_wf m \<longleftrightarrow> sorted_wrt (<) (map fst m)"

definition bm_collect :: "('k::linorder \<times> 'v) list \<Rightarrow> ('k, 'v) bmap" where
  "bm_collect kvs = fold (\<lambda>e. bm_insert (fst e) (snd e)) kvs []"

lemma bm_insert_Nil [simp]: "bm_insert k v [] = [(k, v)]"
  by (simp add: bm_insert_def)

lemma bm_insert_Cons:
  "bm_wf (e # m) \<Longrightarrow> bm_insert k v (e # m) =
     (if fst e < k then e # bm_insert k v m
      else if fst e = k then (k, v) # m else (k, v) # e # m)"
proof (induction m)
  case Nil
  then show ?case by (auto simp: bm_insert_def)
next
  case (Cons e' m)
  then show ?case by (auto simp: bm_insert_def bm_wf_def)
qed

lemma bm_wf_Nil [simp]: "bm_wf []"
  by (simp add: bm_wf_def)

lemma bm_wf_Cons: "bm_wf (e # m) \<longleftrightarrow> (\<forall>k \<in> fst ` set m. fst e < k) \<and> bm_wf m"
  by (auto simp: bm_wf_def)

lemma bm_keys_insert: "bm_wf m \<Longrightarrow> fst ` set (bm_insert k v m) = insert k (fst ` set m)"
  by (induction m) (auto simp: bm_insert_Cons bm_wf_Cons)

lemma bm_wf_insert: "bm_wf m \<Longrightarrow> bm_wf (bm_insert k v m)"
  by (induction m) (auto simp: bm_insert_Cons bm_wf_Cons bm_keys_insert)

lemma bm_get_insert:
  "bm_wf m \<Longrightarrow> bm_get (bm_insert k v m) k' = (if k' = k then Some v else bm_get m k')"
proof (induction m)
  case (Cons e m)
  have "e = (fst e, snd e)" by simp
  with Cons show ?case
    by (cases e) (auto simp: bm_insert_Cons bm_wf_Cons bm_get_def map_of_eq_None_iff)
qed (simp add: bm_get_def)

lemma bm_entries_iff: "bm_wf m \<Longrightarrow> (k, v) \<in> set m \<longleftrightarrow> bm_get m k = Some v"
proof -
  assume "bm_wf m"
  then have "distinct (map fst m)"
    by (auto simp: bm_wf_def strict_sorted_iff)
  then show ?thesis by (simp add: bm_get_def)
qed

text \<open>A map is its keys in order with their entries.\<close>

lemma bm_eqI:
  assumes "bm_wf m" "sorted_wrt (<) (map fst kvs)" "fst ` set m \<subseteq> fst ` set kvs"
    and "\<forall>(k, v) \<in> set kvs. bm_get m k = Some v"
  shows "m = kvs"
proof -
  have wf: "bm_wf kvs" using assms(2) by (simp add: bm_wf_def)
  have sub: "set kvs \<subseteq> set m" using assms(4) bm_entries_iff [OF assms(1)] by auto
  have "set m \<subseteq> set kvs"
  proof
    fix e
    assume e: "e \<in> set m"
    then have "fst e \<in> fst ` set kvs" using assms(3) by blast
    then obtain v where v: "(fst e, v) \<in> set kvs" by force
    moreover have "bm_get m (fst e) = Some (snd e)" using e bm_entries_iff [OF assms(1), of "fst e" "snd e"] by simp
    ultimately have "snd e = v" using assms(4) by auto
    with v show "e \<in> set kvs" by (metis prod.collapse)
  qed
  with sub have eq: "set m = set kvs" by blast
  have "map fst m = map fst kvs"
    using assms(1,2) eq by (intro strict_sorted_equal) (simp_all add: bm_wf_def)
  moreover have distinct: "distinct (map fst m)" "distinct (map fst kvs)"
    using assms(1) wf by (auto simp: bm_wf_def strict_sorted_iff)
  have "map_of m = map_of kvs" using map_of_inject_set [OF distinct] eq by simp
  moreover have "es = map (\<lambda>k. (k, the (map_of es k))) (map fst es)" if "distinct (map fst es)" for es :: "('a, 'b) bmap"
  proof -
    have "map (\<lambda>e. (fst e, the (map_of es (fst e)))) es = es" using that by (intro map_idI) (force simp: prod_eq_iff)
    then show ?thesis by (simp add: comp_def)
  qed
  ultimately show ?thesis using distinct by metis
qed

text \<open>
  The contract of an ordered map, and what a client may conclude from it about building a
  map from a list of entries (Rust's \<open>collect\<close>): the last entry of a key wins.
\<close>

locale ordered_map =
  fixes empty :: "'m"
    and ins :: "'k::linorder \<Rightarrow> 'v \<Rightarrow> 'm \<Rightarrow> 'm"
    and get :: "'m \<Rightarrow> 'k \<Rightarrow> 'v option"
    and entries :: "'m \<Rightarrow> ('k \<times> 'v) list"
    and wf :: "'m \<Rightarrow> bool"
  assumes get_empty: "get empty k = None"
    and get_ins: "wf m \<Longrightarrow> get (ins k v m) k' = (if k' = k then Some v else get m k')"
    and wf_empty: "wf empty"
    and wf_ins: "wf m \<Longrightarrow> wf (ins k v m)"
    and entries_iff: "wf m \<Longrightarrow> (k, v) \<in> set (entries m) \<longleftrightarrow> get m k = Some v"
    and entries_sorted: "wf m \<Longrightarrow> sorted_wrt (<) (map fst (entries m))"
begin

definition collect :: "('k \<times> 'v) list \<Rightarrow> 'm \<Rightarrow> 'm" where
  "collect kvs m = fold (\<lambda>e. ins (fst e) (snd e)) kvs m"

lemma wf_collect: "wf m \<Longrightarrow> wf (collect kvs m)"
  unfolding collect_def by (induction kvs arbitrary: m) (auto intro: wf_ins)

lemma get_collect:
  "wf m \<Longrightarrow> get (collect kvs m) k =
     (case map_of (rev kvs) k of Some v \<Rightarrow> Some v | None \<Rightarrow> get m k)"
  unfolding collect_def
proof (induction kvs arbitrary: m)
  case (Cons e kvs)
  then show ?case
    by (cases e) (auto simp: wf_ins get_ins map_add_def split: option.splits)
qed simp

lemma distinct_entries: "wf m \<Longrightarrow> distinct (map fst (entries m))"
  using entries_sorted strict_sorted_iff by blast

end

interpretation bm: ordered_map "[]" bm_insert bm_get "\<lambda>m. m" bm_wf
proof unfold_locales
  show "bm_get [] k = None" for k :: 'a
    by (simp add: bm_get_def)
  show "bm_get (bm_insert k v m) k' = (if k' = k then Some v else bm_get m k')"
    if "bm_wf m" for m :: "('a, 'b) bmap" and k k' v
    using that by (rule bm_get_insert)
  show "(k, v) \<in> set m \<longleftrightarrow> bm_get m k = Some v"
    if "bm_wf m" for m :: "('a, 'b) bmap" and k v
    using that by (rule bm_entries_iff)
  show "bm_wf (bm_insert k v m)" if "bm_wf m" for m :: "('a, 'b) bmap" and k v
    using that by (rule bm_wf_insert)
qed (simp_all add: bm_wf_def)

lemma bm_collect_eq: "bm_collect kvs = bm.collect kvs []"
  by (simp add: bm_collect_def bm.collect_def)

lemma bm_wf_collect [simp]: "bm_wf (bm_collect kvs)"
  by (simp add: bm_collect_eq bm.wf_collect)

lemma bm_get_collect: "bm_get (bm_collect kvs) k = map_of (rev kvs) k"
  by (simp add: bm_collect_eq bm.get_collect bm.get_empty split: option.splits)

text \<open>A \<open>BTreeSet\<close> is the ascending list of its members; \<open>insert\<close> tells whether the member is new.\<close>

definition bs_insert :: "'a::linorder \<Rightarrow> 'a list \<Rightarrow> bool \<times> 'a list" where
  "bs_insert x s = (x \<notin> set s, insort_insert x s)"

definition bs_collect :: "'a::linorder list \<Rightarrow> 'a list" where
  "bs_collect xs = fold insort_insert xs []"

lemma bs_fold_props:
  fixes s :: "'a::linorder list"
  assumes "sorted s" "distinct s"
  shows "set (fold insort_insert xs s) = set s \<union> set xs
     \<and> sorted (fold insort_insert xs s) \<and> distinct (fold insort_insert xs s)"
  using assms
  by (induction xs arbitrary: s)
    (auto simp: set_insort_insert sorted_insort_insert distinct_insort_insert)

lemma set_bs_collect [simp]: "set (bs_collect xs) = set xs"
  and sorted_bs_collect [simp]: "sorted (bs_collect xs)"
  and distinct_bs_collect [simp]: "distinct (bs_collect xs)"
  using bs_fold_props [of "[]" xs] by (simp_all add: bs_collect_def)

end
