(* ===== verification/Btree_Heap.thy ===== *)
theory Btree_Heap
  imports Prelude
begin

text \<open>
  \<open>pallets/aggregator/src/heap.rs\<close>: a priority queue on top of a \<open>BTreeSet\<close>. \<open>pop\<close> takes
  the greatest member, \<open>push\<close> tells whether the member was new. The trait \<open>Heap\<close> is the
  locale \<open>heap\<close>; \<open>BTreeSetHeap\<close> is interpreted as one.
\<close>

type_synonym 'e btree_set_heap = "'e list"

definition heap_new :: "'e btree_set_heap" where
  "heap_new = []"

definition heap_pop :: "'e::linorder btree_set_heap \<Rightarrow> 'e option \<times> 'e btree_set_heap" where
  "heap_pop h =
     (if h = [] then (None, h) else let m = last h in (Some m, remove1 m h))"

definition heap_push :: "'e::linorder \<Rightarrow> 'e btree_set_heap \<Rightarrow> bool \<times> 'e btree_set_heap" where
  "heap_push e h = bs_insert e h"

definition heap_wf :: "'e::linorder btree_set_heap \<Rightarrow> bool" where
  "heap_wf h \<longleftrightarrow> sorted h \<and> distinct h"

text \<open>A user of a heap: push a list of items, then pop \<open>n\<close> times.\<close>

definition push_all ::
  "('e \<Rightarrow> 'h \<Rightarrow> bool \<times> 'h) \<Rightarrow> 'e list \<Rightarrow> 'h \<Rightarrow> 'h" where
  "push_all push es h = fold (\<lambda>e g. snd (push e g)) es h"

fun pop_times :: "('h \<Rightarrow> 'e option \<times> 'h) \<Rightarrow> nat \<Rightarrow> 'h \<Rightarrow> 'e list" where
  "pop_times pop 0 h = []"
| "pop_times pop (Suc n) h =
     (case pop h of (None, _) \<Rightarrow> [] | (Some e, h') \<Rightarrow> e # pop_times pop n h')"

section \<open>The contract of a heap\<close>

locale heap =
  fixes new :: 'h
    and pop :: "'h \<Rightarrow> 'e::linorder option \<times> 'h"
    and push :: "'e \<Rightarrow> 'h \<Rightarrow> bool \<times> 'h"
    and contents :: "'h \<Rightarrow> 'e set"
    and inv :: "'h \<Rightarrow> bool"
  assumes inv_new: "inv new"
    and contents_new: "contents new = {}"
    and finite_contents: "inv h \<Longrightarrow> finite (contents h)"
    and pop_empty: "inv h \<Longrightarrow> contents h = {} \<Longrightarrow> pop h = (None, h)"
    and pop_max: "inv h \<Longrightarrow> contents h \<noteq> {} \<Longrightarrow>
      \<exists>h'. pop h = (Some (Max (contents h)), h') \<and> inv h' \<and>
        contents h' = contents h - {Max (contents h)}"
    and push_fresh: "inv h \<Longrightarrow> fst (push e h) \<longleftrightarrow> e \<notin> contents h"
    and push_contents: "inv h \<Longrightarrow> contents (snd (push e h)) = insert e (contents h)"
    and push_inv: "inv h \<Longrightarrow> inv (snd (push e h))"
begin

lemma push_all_contents:
  "inv h \<Longrightarrow> inv (push_all push es h) \<and> contents (push_all push es h) = contents h \<union> set es"
  unfolding push_all_def
  by (induction es arbitrary: h) (auto simp: push_contents push_inv)

lemma pop_times_desc:
  "inv h \<Longrightarrow> card (contents h) \<le> n \<Longrightarrow>
     set (pop_times pop n h) = contents h \<and> sorted_wrt (>) (pop_times pop n h)"
proof (induction n arbitrary: h)
  case 0
  then show ?case using finite_contents by simp
next
  case (Suc n)
  show ?case
  proof (cases "contents h = {}")
    case True
    with Suc.prems show ?thesis by (simp add: pop_empty)
  next
    case False
    let ?m = "Max (contents h)"
    have fin: "finite (contents h)" using Suc.prems(1) by (rule finite_contents)
    from pop_max [OF Suc.prems(1) False] obtain h' where
      h': "pop h = (Some ?m, h')" "inv h'" "contents h' = contents h - {?m}" by blast
    have m: "?m \<in> contents h" using fin False by (rule Max_in)
    then have "card (contents h') \<le> n" using Suc.prems(2) fin by (simp add: h'(3))
    from Suc.IH [OF h'(2) this] h'(3) m fin show ?thesis
      by (auto simp: h'(1) less_le)
  qed
qed

lemma push_then_pop:
  "set (pop_times pop (length es) (push_all push es new)) = set es \<and>
   sorted_wrt (>) (pop_times pop (length es) (push_all push es new))"
  using pop_times_desc [of "push_all push es new" "length es"]
    push_all_contents [OF inv_new, of es] card_length [of es]
  by (simp add: contents_new)

end

section \<open>BTreeSetHeap is a heap\<close>

lemma last_is_Max: "heap_wf h \<Longrightarrow> h \<noteq> [] \<Longrightarrow> last h = Max (set h)"
proof -
  assume a: "heap_wf h" "h \<noteq> []"
  have "x \<le> last h" if x: "x \<in> set h" for x
  proof -
    obtain i where i: "i < length h" "h ! i = x" using x by (auto simp: in_set_conv_nth)
    with a show ?thesis by (auto simp: heap_wf_def last_conv_nth intro: sorted_nth_mono)
  qed
  with a(2) show ?thesis by (intro Max_eqI [symmetric]) auto
qed

interpretation btree_heap: heap heap_new heap_pop heap_push set heap_wf
proof unfold_locales
  show "heap_wf heap_new" and "set heap_new = {}"
    by (simp_all add: heap_wf_def heap_new_def)
  fix h :: "'a btree_set_heap" and e :: 'a
  assume wf: "heap_wf h"
  show "finite (set h)" by simp
  show "heap_pop h = (None, h)" if "set h = {}"
    using that by (simp add: heap_pop_def)
  show "\<exists>h'. heap_pop h = (Some (Max (set h)), h') \<and> heap_wf h' \<and> set h' = set h - {Max (set h)}"
    if "set h \<noteq> {}"
    using that wf last_is_Max [OF wf]
    by (auto simp: heap_pop_def heap_wf_def sorted_remove1 Let_def)
  show "fst (heap_push e h) \<longleftrightarrow> e \<notin> set h"
    by (simp add: heap_push_def bs_insert_def)
  show "set (snd (heap_push e h)) = insert e (set h)"
    by (simp add: heap_push_def bs_insert_def set_insort_insert)
  show "heap_wf (snd (heap_push e h))"
    using wf by (simp add: heap_push_def bs_insert_def heap_wf_def
        sorted_insort_insert distinct_insort_insert)
qed

text \<open>C39: Pushing any items into an empty heap and popping gives every item once, the greatest
  first, and a pop of the empty heap gives nothing and leaves it alone.\<close>

theorem heap_pops_descending:
  "set (pop_times heap_pop (length es) (push_all heap_push es heap_new)) = set es \<and>
   sorted_wrt (>) (pop_times heap_pop (length es) (push_all heap_push es heap_new)) \<and>
   heap_pop (heap_new :: 'e::linorder btree_set_heap) = (None, heap_new)"
  using btree_heap.push_then_pop by (simp add: heap_pop_def heap_new_def)

end
