(* ===== verification/F64.thy ===== *)
theory F64
  imports Prelude
begin

text \<open>
  Rust's \<open>f64\<close>: IEEE 754 binary64 with round-to-nearest, ties to even. A finite value is the
  real number it denotes; \<open>rnd\<close> rounds an exact result to 53 significant bits (gradual
  underflow at \<open>2 powi (- 1074)\<close>, overflow to an infinity), and every operation below is the
  exact operation followed by \<open>rnd\<close>. The two zeros are one value: nothing the modelled code
  does with a zero (\<open>+\<close>, \<open>*\<close>, comparison, \<open>as u128\<close>, division by a positive constant,
  \<open>log2\<close>) tells them apart.

  The theory proves what the graph algorithm relies on: rounding is monotone, leaves
  representable values alone, adding a small value to \<open>f64::MAX\<close> gives \<open>f64::MAX\<close> again, and
  addition is exact on integers up to \<open>2 ^ 53\<close>.
\<close>

section \<open>Rounding\<close>

fun nbits :: "nat \<Rightarrow> nat" where
  "nbits n = (if n = 0 then 0 else Suc (nbits (n div 2)))"

declare nbits.simps [simp del]

text \<open>The binary exponent of a positive real: \<open>2 powi expo x \<le> x < 2 powi (expo x + 1)\<close>.\<close>

definition expo :: "real \<Rightarrow> int" where
  "expo x = (if 1 \<le> x then int (nbits (nat \<lfloor>x\<rfloor>)) - 1
             else - int (nbits (nat (\<lceil>1 / x\<rceil> - 1))))"

text \<open>Nearest integer, ties to even.\<close>

definition rne :: "real \<Rightarrow> int" where
  "rne x = (let f = \<lfloor>x\<rfloor>; d = x - of_int f in
     if d < 1 / 2 then f else if 1 / 2 < d then f + 1 else if even f then f else f + 1)"

definition ulp_exp :: "real \<Rightarrow> int" where
  "ulp_exp x = max (expo \<bar>x\<bar> - 52) (- 1074)"

definition rnd_real :: "real \<Rightarrow> real" where
  "rnd_real x = (if x = 0 then 0
     else of_int (rne (x / 2 powi ulp_exp x)) * 2 powi ulp_exp x)"

datatype f64 = NaN | NInf | Fin real | PInf

definition rnd :: "real \<Rightarrow> f64" where
  "rnd x = (let r = rnd_real x in
     if 2 ^ 1024 \<le> r then PInf else if r \<le> - (2 ^ 1024) then NInf else Fin r)"

subsection \<open>The exponent\<close>

lemma nbits_bounds: "n < 2 ^ nbits n \<and> (0 < n \<longrightarrow> 2 ^ (nbits n - 1) \<le> n)"
proof (induction n rule: nbits.induct)
  case (1 n)
  show ?case
  proof (cases "n = 0")
    case True
    then show ?thesis by (simp add: nbits.simps)
  next
    case False
    with 1 have IH: "n div 2 < 2 ^ nbits (n div 2)"
      "0 < n div 2 \<longrightarrow> 2 ^ (nbits (n div 2) - 1) \<le> n div 2" by auto
    have eq: "nbits n = Suc (nbits (n div 2))"
      using False by (subst nbits.simps) simp
    have "2 ^ nbits (n div 2) \<le> n"
    proof (cases "n div 2 = 0")
      case True
      with False show ?thesis by (simp add: nbits.simps)
    next
      case nz: False
      then have "nbits (n div 2) = Suc (nbits (n div 2) - 1)"
        by (simp add: nbits.simps [of "n div 2"])
      with IH(2) nz have "2 ^ nbits (n div 2) \<le> 2 * (n div 2)"
        by (metis bot_nat_0.not_eq_extremum mult_le_mono2 power_Suc)
      then show ?thesis by simp
    qed
    with eq IH(1) show ?thesis by simp
  qed
qed

lemma nbits_real_bounds:
  assumes "0 < n"
  shows "(2::real) ^ (nbits n - 1) \<le> real n" "1 + real n \<le> 2 ^ nbits n"
proof -
  have "real (2 ^ (nbits n - 1)) \<le> real n" "real (Suc n) \<le> real (2 ^ nbits n)"
    using nbits_bounds [of n] assms by (simp_all only: of_nat_le_iff Suc_le_eq)
  then show "(2::real) ^ (nbits n - 1) \<le> real n" "1 + real n \<le> 2 ^ nbits n"
    by (simp_all only: of_nat_power of_nat_numeral of_nat_Suc)
qed

lemma powi_less_iff [simp]: "(2::real) powi a < 2 powi b \<longleftrightarrow> a < b"
  by (metis linorder_neqE_linordered_idom one_less_numeral_iff order_less_asym
      power_int_strict_increasing semiring_norm(76) order_less_irrefl)

lemma powi_le_iff [simp]: "(2::real) powi a \<le> 2 powi b \<longleftrightarrow> a \<le> b"
  by (meson linorder_not_less powi_less_iff)

lemma powi_pos [simp]: "0 < (2::real) powi e"
  by simp

lemma powi_nz [simp]: "(2::real) powi e \<noteq> 0"
  by simp

lemma expo_bounds:
  assumes "0 < x"
  shows "2 powi expo x \<le> x \<and> x < 2 powi (expo x + 1)"
proof (cases "1 \<le> x")
  case True
  define n where "n = nat \<lfloor>x\<rfloor>"
  have n: "0 < n" "real n \<le> x" "x < real n + 1"
    using True by (auto simp: n_def)
  have e: "expo x = int (nbits n - 1)" "expo x + 1 = int (nbits n)"
    using True n(1) nbits_bounds [of n] by (auto simp: expo_def n_def nbits.simps [of "nat \<lfloor>x\<rfloor>"])
  have "(2::real) powi expo x = 2 ^ (nbits n - 1)" by (subst e(1)) simp
  moreover have "(2::real) powi (expo x + 1) = 2 ^ nbits n" by (subst e(2)) simp
  ultimately have "2 powi expo x \<le> real n" "1 + real n \<le> 2 powi (expo x + 1)"
    using nbits_real_bounds [OF n(1)] by simp_all
  with n(2,3) show ?thesis by (intro conjI) linarith+
next
  case False
  define c where "c = nat (\<lceil>1 / x\<rceil> - 1)"
  have inv: "1 < 1 / x" using False assms by simp
  then have c: "0 < c" "real c < 1 / x" "1 / x \<le> real c + 1"
    by (auto simp: c_def) linarith+
  then have b: "2 ^ (nbits c - 1) < 1 / x" "1 / x \<le> 2 ^ nbits c"
    using nbits_real_bounds [OF c(1)] by linarith+
  have e: "expo x = - int (nbits c)" "expo x + 1 = - int (nbits c - 1)"
    using False c(1) by (auto simp: expo_def c_def nbits.simps [of "nat (\<lceil>1 / x\<rceil> - 1)"])
  have "1 / 2 ^ nbits c \<le> x" using b(2) assms by (simp add: field_simps)
  moreover have "x < 1 / 2 ^ (nbits c - 1)" using b(1) assms by (simp add: field_simps)
  moreover have "(2::real) powi expo x = 1 / 2 ^ nbits c"
    by (subst e(1)) (simp add: power_int_minus inverse_eq_divide)
  moreover have "(2::real) powi (expo x + 1) = 1 / 2 ^ (nbits c - 1)"
    by (subst e(2)) (simp only: power_int_minus inverse_eq_divide power_int_of_nat)
  ultimately show ?thesis by simp
qed

lemma expo_eqI: "2 powi e \<le> x \<Longrightarrow> x < 2 powi (e + 1) \<Longrightarrow> expo x = e"
proof -
  assume a: "2 powi e \<le> x" "x < 2 powi (e + 1)"
  then have "0 < x" using powi_pos [of e] by linarith
  from expo_bounds [OF this] a have "(2::real) powi expo x < 2 powi (e + 1)"
    "(2::real) powi e < 2 powi (expo x + 1)" by linarith+
  then show ?thesis by simp
qed

lemma expo_mono: "0 < x \<Longrightarrow> x \<le> y \<Longrightarrow> expo x \<le> expo y"
proof -
  assume a: "0 < x" "x \<le> y"
  from expo_bounds [of x] expo_bounds [of y] a
  have "(2::real) powi expo x < 2 powi (expo y + 1)" by linarith
  then show ?thesis by simp
qed

lemma expo_le: "0 < x \<Longrightarrow> x < 2 powi (e + 1) \<Longrightarrow> expo x \<le> e"
proof -
  assume a: "0 < x" "x < 2 powi (e + 1)"
  from expo_bounds [OF a(1)] a(2) have "(2::real) powi expo x < 2 powi (e + 1)" by linarith
  then show ?thesis by simp
qed


subsection \<open>Nearest integer\<close>

lemma rne_of_int [simp]: "rne (of_int n) = n"
  by (simp add: rne_def)

lemma rne_error: "\<bar>of_int (rne x) - x\<bar> \<le> 1 / 2"
proof -
  have "of_int \<lfloor>x\<rfloor> \<le> x" "x < of_int \<lfloor>x\<rfloor> + 1" by linarith+
  then show ?thesis unfolding rne_def Let_def by (auto simp: abs_le_iff)
qed

lemma rne_mono: "x \<le> y \<Longrightarrow> rne x \<le> rne y"
proof -
  assume le: "x \<le> y"
  have fl: "\<lfloor>x\<rfloor> \<le> \<lfloor>y\<rfloor>" using le by (rule floor_mono)
  show ?thesis
  proof (cases "\<lfloor>x\<rfloor> = \<lfloor>y\<rfloor>")
    case True
    with le show ?thesis by (auto simp: rne_def Let_def)
  next
    case False
    with fl have "rne x \<le> \<lfloor>x\<rfloor> + 1" "\<lfloor>y\<rfloor> \<le> rne y" "\<lfloor>x\<rfloor> + 1 \<le> \<lfloor>y\<rfloor>"
      by (auto simp: rne_def Let_def)
    then show ?thesis by linarith
  qed
qed

lemma rne_le_int: "x \<le> of_int n \<Longrightarrow> rne x \<le> n"
  using rne_mono [of x "of_int n"] by simp

lemma rne_ge_int: "of_int n \<le> x \<Longrightarrow> n \<le> rne x"
  using rne_mono [of "of_int n" x] by simp

lemma rne_eqI: "\<bar>x - of_int n\<bar> < 1 / 2 \<Longrightarrow> rne x = n"
proof -
  assume a: "\<bar>x - of_int n\<bar> < 1 / 2"
  from rne_error [of x] a have "\<bar>of_int (rne x) - of_int n\<bar> < (1::real)" by linarith
  then show ?thesis by linarith
qed

lemma rne_uminus: "rne (- x) = - rne x"
proof (cases "x = of_int \<lfloor>x\<rfloor>")
  case True
  then show ?thesis by (metis of_int_minus rne_of_int)
next
  case False
  then have "\<lceil>x\<rceil> = \<lfloor>x\<rfloor> + 1" using ceiling_altdef by metis
  then have "\<lfloor>- x\<rfloor> = - \<lfloor>x\<rfloor> - 1" by (simp add: floor_minus)
  then show ?thesis by (auto simp: rne_def Let_def)
qed

subsection \<open>Rounding to 53 bits\<close>

lemma ulp_exp_uminus [simp]: "ulp_exp (- x) = ulp_exp x"
  by (simp add: ulp_exp_def)

lemma rnd_real_0 [simp]: "rnd_real 0 = 0"
  by (simp add: rnd_real_def)

lemma rnd_real_uminus: "rnd_real (- x) = - rnd_real x"
  by (simp add: rnd_real_def rne_uminus)

lemma powi_mult_int: "k \<le> j \<Longrightarrow> (2::real) powi j = of_int (2 ^ nat (j - k)) * 2 powi k"
  using power_int_add [of "2::real" "j - k" k]
  by (simp add: power_int_def split: if_splits)

lemma rnd_real_le_powi: "0 < x \<Longrightarrow> x \<le> 2 powi k \<Longrightarrow> ulp_exp x \<le> k \<Longrightarrow> rnd_real x \<le> 2 powi k"
proof -
  assume a: "0 < x" "x \<le> 2 powi k" "ulp_exp x \<le> k"
  have k: "(2::real) powi k = of_int (2 ^ nat (k - ulp_exp x)) * 2 powi ulp_exp x"
    using a(3) by (rule powi_mult_int)
  with a(2) have "x / 2 powi ulp_exp x \<le> of_int (2 ^ nat (k - ulp_exp x))"
    by (simp add: divide_le_eq)
  then have "rne (x / 2 powi ulp_exp x) \<le> 2 ^ nat (k - ulp_exp x)" by (rule rne_le_int)
  then have "(of_int (rne (x / 2 powi ulp_exp x))::real) \<le> of_int (2 ^ nat (k - ulp_exp x))"
    by (rule of_int_le_iff [THEN iffD2])
  then show ?thesis unfolding k using a(1) by (simp add: rnd_real_def)
qed

lemma rnd_real_ge_powi: "2 powi k \<le> x \<Longrightarrow> ulp_exp x \<le> k \<Longrightarrow> 2 powi k \<le> rnd_real x"
proof -
  assume a: "2 powi k \<le> x" "ulp_exp x \<le> k"
  have k: "(2::real) powi k = of_int (2 ^ nat (k - ulp_exp x)) * 2 powi ulp_exp x"
    using a(2) by (rule powi_mult_int)
  with a(1) have "of_int (2 ^ nat (k - ulp_exp x)) \<le> x / 2 powi ulp_exp x"
    by (simp add: le_divide_eq)
  then have "2 ^ nat (k - ulp_exp x) \<le> rne (x / 2 powi ulp_exp x)" by (rule rne_ge_int)
  then have "of_int (2 ^ nat (k - ulp_exp x)) \<le> (of_int (rne (x / 2 powi ulp_exp x))::real)"
    by (rule of_int_le_iff [THEN iffD2])
  moreover have "0 < x" using a(1) powi_pos [of k] by linarith
  ultimately show ?thesis unfolding k by (simp add: rnd_real_def)
qed

lemma rnd_real_nonneg: "0 \<le> x \<Longrightarrow> 0 \<le> rnd_real x"
proof -
  assume "0 \<le> x"
  then have "0 \<le> rne (x / 2 powi ulp_exp x)" by (intro rne_ge_int) simp
  then show ?thesis by (simp add: rnd_real_def)
qed

lemma rnd_real_mono_pos:
  assumes "0 < x" "x \<le> y"
  shows "rnd_real x \<le> rnd_real y"
proof (cases "ulp_exp x = ulp_exp y")
  case True
  have "rne (x / 2 powi ulp_exp y) \<le> rne (y / 2 powi ulp_exp y)"
    using assms by (intro rne_mono divide_right_mono) simp_all
  with True assms show ?thesis by (simp add: rnd_real_def)
next
  case False
  have "expo x \<le> expo y" using assms by (rule expo_mono)
  with False assms have u: "ulp_exp y = expo y - 52" "ulp_exp x < expo y" "expo x + 1 \<le> expo y"
    by (auto simp: ulp_exp_def)
  have "(2::real) powi (expo x + 1) \<le> 2 powi expo y"
    using u(3) by (simp del: powi_le_iff add: powi_le_iff)
  then have "x \<le> 2 powi expo y" using expo_bounds [of x] assms by linarith
  then have "rnd_real x \<le> 2 powi expo y"
    using assms(1) u(2) by (intro rnd_real_le_powi) simp_all
  also have "\<dots> \<le> rnd_real y"
    using expo_bounds [of y] assms u(1) by (intro rnd_real_ge_powi) simp_all
  finally show ?thesis .
qed

lemma rnd_real_mono: "x \<le> y \<Longrightarrow> rnd_real x \<le> rnd_real y"
proof -
  assume le: "x \<le> y"
  consider "0 < x" | "x \<le> 0" "0 \<le> y" | "y < 0" by linarith
  then show ?thesis
  proof cases
    case 1
    then show ?thesis using le by (rule rnd_real_mono_pos)
  next
    case 2
    then have "0 \<le> rnd_real (- x)" "0 \<le> rnd_real y" by (auto intro: rnd_real_nonneg)
    then show ?thesis by (simp add: rnd_real_uminus)
  next
    case 3
    with le have "rnd_real (- y) \<le> rnd_real (- x)" by (intro rnd_real_mono_pos) simp_all
    then show ?thesis by (simp add: rnd_real_uminus)
  qed
qed

text \<open>Representable numbers: at most 53 significant bits and no bit below \<open>2 powi (- 1074)\<close>.\<close>

lemma rnd_real_int_multiple:
  assumes "\<bar>m\<bar> < 2 ^ 53" "- 1074 \<le> k"
  shows "rnd_real (of_int m * 2 powi k) = of_int m * 2 powi k" (is "rnd_real ?x = ?x")
proof (cases "m = 0")
  case False
  have "real_of_int \<bar>m\<bar> < 2 ^ 53"
    using assms(1) by (metis of_int_less_iff of_int_numeral of_int_power)
  then have "\<bar>?x\<bar> < 2 ^ 53 * 2 powi k" by (simp add: abs_mult)
  also have "(2::real) ^ 53 * 2 powi k = 2 powi (k + 52 + 1)"
    using power_int_add [of "2::real" 53 k] by (simp add: add.commute)
  finally have "expo \<bar>?x\<bar> \<le> k + 52" using False by (intro expo_le) simp_all
  then have "ulp_exp ?x \<le> k" using assms(2) by (simp add: ulp_exp_def)
  then have "?x / 2 powi ulp_exp ?x = of_int (m * 2 ^ nat (k - ulp_exp ?x))"
    using powi_mult_int [of "ulp_exp ?x" k] by (simp add: field_simps)
  then have "of_int (rne (?x / 2 powi ulp_exp ?x)) = ?x / 2 powi ulp_exp ?x"
    by (metis rne_of_int)
  then show ?thesis using False by (simp add: rnd_real_def)
qed simp

lemma rnd_real_of_int: "\<bar>m\<bar> < 2 ^ 53 \<Longrightarrow> rnd_real (of_int m) = of_int m"
  using rnd_real_int_multiple [of m 0] by simp

lemma rnd_real_powi: "- 1074 \<le> k \<Longrightarrow> rnd_real (2 powi k) = 2 powi k"
  using rnd_real_int_multiple [of 1 k] by simp

lemma rnd_real_representable: "rnd_real (rnd_real x) = rnd_real x"
proof (cases "x = 0")
  case False
  let ?e = "ulp_exp x" and ?m = "rne (x / 2 powi ulp_exp x)"
  have lo: "- 1074 \<le> ?e" by (simp add: ulp_exp_def)
  have x: "rnd_real x = of_int ?m * 2 powi ?e" using False by (simp add: rnd_real_def)
  have "\<bar>x\<bar> < 2 powi (expo \<bar>x\<bar> + 1)" using False expo_bounds [of "\<bar>x\<bar>"] by simp
  also have "\<dots> \<le> 2 powi (53 + ?e)" unfolding powi_le_iff by (simp add: ulp_exp_def)
  also have "\<dots> = 2 ^ 53 * 2 powi ?e" using power_int_add [of "2::real" 53 ?e] by simp
  finally have "\<bar>x / 2 powi ?e\<bar> \<le> of_int (2 ^ 53)" by (simp add: field_simps)
  then have "x / 2 powi ?e \<le> of_int (2 ^ 53)" "of_int (- (2 ^ 53)) \<le> x / 2 powi ?e" by linarith+
  then have "?m \<le> 2 ^ 53" "- (2 ^ 53) \<le> ?m" using rne_le_int rne_ge_int by blast+
  then consider "\<bar>?m\<bar> < 2 ^ 53" | "?m = 2 ^ 53" | "?m = - (2 ^ 53)" by linarith
  then show ?thesis
  proof cases
    case 1
    from rnd_real_int_multiple [OF this lo] show ?thesis by (simp only: x)
  next
    case 2
    have "(2::real) ^ 53 * 2 powi ?e = 2 powi (53 + ?e)" using power_int_add [of "2::real" 53 ?e] by simp
    with 2 lo rnd_real_powi [of "53 + ?e"] show ?thesis by (simp add: x)
  next
    case 3
    have "(2::real) ^ 53 * 2 powi ?e = 2 powi (53 + ?e)" using power_int_add [of "2::real" 53 ?e] by simp
    with 3 lo rnd_real_powi [of "53 + ?e"] show ?thesis by (simp add: x rnd_real_uminus)
  qed
qed simp

lemma rnd_real_pow2: "rnd_real (2 ^ k) = 2 ^ k"
  using rnd_real_powi [of "int k"] by simp

lemma rnd_real_abs_le_pow2: "\<bar>x\<bar> \<le> 2 ^ k \<Longrightarrow> \<bar>rnd_real x\<bar> \<le> 2 ^ k"
proof -
  assume "\<bar>x\<bar> \<le> 2 ^ k"
  then have "x \<le> 2 ^ k" "- (2 ^ k) \<le> x" by linarith+
  then have "rnd_real x \<le> rnd_real (2 ^ k)" "rnd_real (- (2 ^ k)) \<le> rnd_real x"
    by (simp_all only: rnd_real_mono)
  then show ?thesis by (simp add: rnd_real_pow2 rnd_real_uminus abs_le_iff)
qed

section \<open>Operations\<close>

datatype ordering = Less | Equal | Greater

fun f64_sgn :: "f64 \<Rightarrow> real" where
  "f64_sgn NaN = 0"
| "f64_sgn NInf = - 1"
| "f64_sgn PInf = 1"
| "f64_sgn (Fin x) = sgn x"

definition inf_of_sgn :: "real \<Rightarrow> f64" where
  "inf_of_sgn s = (if 0 < s then PInf else if s < 0 then NInf else NaN)"

fun f64_add :: "f64 \<Rightarrow> f64 \<Rightarrow> f64" where
  "f64_add (Fin x) (Fin y) = rnd (x + y)"
| "f64_add NaN b = NaN"
| "f64_add a NaN = NaN"
| "f64_add PInf b = (if b = NInf then NaN else PInf)"
| "f64_add NInf b = (if b = PInf then NaN else NInf)"
| "f64_add a b = b"

fun f64_mul :: "f64 \<Rightarrow> f64 \<Rightarrow> f64" where
  "f64_mul (Fin x) (Fin y) = rnd (x * y)"
| "f64_mul a b = inf_of_sgn (f64_sgn a * f64_sgn b)"

text \<open>A zero divisor counts as positive zero; the code only divides by a positive constant.\<close>

fun f64_div :: "f64 \<Rightarrow> f64 \<Rightarrow> f64" where
  "f64_div (Fin x) (Fin y) = (if y = 0 then inf_of_sgn (sgn x) else rnd (x / y))"
| "f64_div NaN b = NaN"
| "f64_div a NaN = NaN"
| "f64_div (Fin x) b = Fin 0"
| "f64_div a (Fin y) = inf_of_sgn (f64_sgn a * (if y < 0 then - 1 else 1))"
| "f64_div a b = NaN"

fun f64_neg :: "f64 \<Rightarrow> f64" where
  "f64_neg (Fin x) = Fin (- x)"
| "f64_neg PInf = NInf"
| "f64_neg NInf = PInf"
| "f64_neg NaN = NaN"

fun f64_lt :: "f64 \<Rightarrow> f64 \<Rightarrow> bool" where
  "f64_lt (Fin x) (Fin y) = (x < y)"
| "f64_lt NaN b = False"
| "f64_lt a NaN = False"
| "f64_lt NInf b = (b \<noteq> NInf)"
| "f64_lt a PInf = (a \<noteq> PInf)"
| "f64_lt a b = False"

text \<open>Comparison operators of the language: every comparison with \<open>NaN\<close> is false.\<close>

instantiation f64 :: "{zero, one, plus, uminus, times, divide, ord}"
begin

definition zero_f64 :: f64 where "0 = Fin 0"

definition one_f64 :: f64 where "1 = Fin 1"

definition plus_f64 :: "f64 \<Rightarrow> f64 \<Rightarrow> f64" where "a + b = f64_add a b"

definition times_f64 :: "f64 \<Rightarrow> f64 \<Rightarrow> f64" where "a * b = f64_mul a b"

definition divide_f64 :: "f64 \<Rightarrow> f64 \<Rightarrow> f64" where "a div b = f64_div a b"

definition uminus_f64 :: "f64 \<Rightarrow> f64" where "- a = f64_neg a"

definition less_f64 :: "f64 \<Rightarrow> f64 \<Rightarrow> bool" where "a < b \<longleftrightarrow> f64_lt a b"

definition less_eq_f64 :: "f64 \<Rightarrow> f64 \<Rightarrow> bool" where
  "a \<le> b \<longleftrightarrow> f64_lt a b \<or> a = b \<and> a \<noteq> NaN"

instance ..

end

definition f64_eq :: "f64 \<Rightarrow> f64 \<Rightarrow> bool" where
  "f64_eq a b \<longleftrightarrow> a = b \<and> a \<noteq> NaN"

definition partial_cmp :: "f64 \<Rightarrow> f64 \<Rightarrow> ordering option" where
  "partial_cmp a b =
     (if a = NaN \<or> b = NaN then None
      else Some (if a < b then Less else if a = b then Equal else Greater))"

text \<open>\<open>f64::MAX\<close>, the casts \<open>u128 as f64\<close> and \<open>f64 as u128\<close> (saturating, truncating).\<close>

definition f64_MAX :: f64 where
  "f64_MAX = Fin ((2 ^ 53 - 1) * 2 ^ 971)"

definition f64_of_u128 :: "u128 \<Rightarrow> f64" where
  "f64_of_u128 x = rnd (real (unat x))"

fun f64_to_u128 :: "f64 \<Rightarrow> u128" where
  "f64_to_u128 (Fin x) =
     (if x \<le> 0 then 0 else if 2 ^ 128 \<le> x then - 1 else word_of_int \<lfloor>x\<rfloor>)"
| "f64_to_u128 PInf = - 1"
| "f64_to_u128 NInf = 0"
| "f64_to_u128 NaN = 0"

lemmas f64_ops = zero_f64_def one_f64_def plus_f64_def times_f64_def divide_f64_def
  uminus_f64_def less_f64_def less_eq_f64_def

subsection \<open>The order on values other than NaN\<close>

lemma f64_less_Fin [simp]: "Fin x < Fin y \<longleftrightarrow> x < y"
  by (simp add: f64_ops)

lemma f64_le_Fin [simp]: "Fin x \<le> Fin y \<longleftrightarrow> x \<le> y"
  by (auto simp: f64_ops)

lemma f64_le_PInf [simp]: "a \<le> PInf \<longleftrightarrow> a \<noteq> NaN"
  by (cases a) (auto simp: f64_ops)

lemma f64_PInf_le [simp]: "PInf \<le> a \<longleftrightarrow> a = PInf"
  by (cases a) (auto simp: f64_ops)

lemma f64_PInf_less [simp]: "\<not> PInf < a"
  by (cases a) (auto simp: f64_ops)

lemma f64_less_PInf [simp]: "a < PInf \<longleftrightarrow> a \<noteq> NaN \<and> a \<noteq> PInf"
  by (cases a) (auto simp: f64_ops)

lemma f64_NaN_cmp [simp]: "\<not> NaN \<le> a" "\<not> a \<le> NaN" "\<not> NaN < a" "\<not> a < NaN"
  by (cases a; auto simp: f64_ops)+

lemma f64_NInf_cmp [simp]: "NInf \<le> a \<longleftrightarrow> a \<noteq> NaN" "a \<le> NInf \<longleftrightarrow> a = NInf" "\<not> a < NInf"
  by (cases a; auto simp: f64_ops)+

lemma f64_le_refl [simp]: "a \<le> a \<longleftrightarrow> a \<noteq> NaN" for a :: f64
  by (cases a) (auto simp: f64_ops)

lemma f64_le_trans [trans]: "a \<le> b \<Longrightarrow> b \<le> c \<Longrightarrow> a \<le> c" for a :: f64
  by (cases a; cases b; cases c) (auto simp: f64_ops)

lemma f64_less_irrefl: "\<not> a < a" for a :: f64
  by (cases a) (auto simp: f64_ops)

lemma f64_less_le: "a < b \<Longrightarrow> a \<le> b" for a :: f64
  by (simp add: f64_ops)

lemma f64_le_less_trans: "a \<le> b \<Longrightarrow> b < c \<Longrightarrow> a < c" for a :: f64
  by (cases a; cases b; cases c) (auto simp: f64_ops)

lemma f64_not_less: "a \<noteq> NaN \<Longrightarrow> b \<noteq> NaN \<Longrightarrow> \<not> a < b \<longleftrightarrow> b \<le> a"
  by (cases a; cases b) (auto simp: f64_ops)

lemma f64_antisym: "a \<le> b \<Longrightarrow> b \<le> a \<Longrightarrow> a = b" for a :: f64
  by (cases a; cases b) (auto simp: f64_ops)

lemma f64_add_commute: "a + b = b + a" for a :: f64
  by (cases a; cases b) (auto simp: f64_ops add.commute)

lemma f64_neg_neg [simp]: "- (- a) = a" for a :: f64
  by (cases a) (auto simp: f64_ops)

subsection \<open>Rounded results\<close>

lemma rnd_not_NaN [simp]: "rnd x \<noteq> NaN"
  by (simp add: rnd_def Let_def)

lemma rnd_mono: "x \<le> y \<Longrightarrow> rnd x \<le> rnd y"
proof -
  assume "x \<le> y"
  then have "rnd_real x \<le> rnd_real y" by (rule rnd_real_mono)
  then show ?thesis by (auto simp: rnd_def Let_def f64_ops)
qed

lemma rnd_Fin:
  assumes "\<bar>x\<bar> \<le> 2 ^ k" "k < 1024"
  shows "rnd x = Fin (rnd_real x)" "\<bar>rnd_real x\<bar> \<le> 2 ^ k"
proof -
  show le: "\<bar>rnd_real x\<bar> \<le> 2 ^ k" using assms(1) by (rule rnd_real_abs_le_pow2)
  have "(2::real) ^ k < 2 ^ 1024" using assms(2) by (intro power_strict_increasing) simp_all
  with le have "\<not> 2 ^ 1024 \<le> rnd_real x" "\<not> rnd_real x \<le> - (2 ^ 1024)" by linarith+
  then show "rnd x = Fin (rnd_real x)" by (simp add: rnd_def)
qed

lemma rnd_of_int:
  assumes "\<bar>m\<bar> < 2 ^ 53"
  shows "rnd (of_int m) = Fin (of_int m)"
proof -
  have "real_of_int \<bar>m\<bar> \<le> 2 ^ 53"
    using assms by (metis of_int_le_iff of_int_numeral of_int_power order_less_imp_le)
  then have "rnd (of_int m) = Fin (rnd_real (of_int m))" by (intro rnd_Fin(1) [of _ 53]) simp_all
  with assms show ?thesis by (simp add: rnd_real_of_int)
qed

lemma Fin_add_of_int: "\<bar>a + b\<bar> < 2 ^ 53 \<Longrightarrow> Fin (of_int a) + Fin (of_int b) = Fin (of_int (a + b))"
  using rnd_of_int [of "a + b"] by (simp add: f64_ops)

text \<open>
  The magnitudes a cost can have: \<open>+\<infinity>\<close> or a finite number of at most \<open>2 ^ b\<close>. One addition
  at most doubles the bound, and within it addition is monotone.
\<close>

fun cost_in :: "nat \<Rightarrow> f64 \<Rightarrow> bool" where
  "cost_in b (Fin r) = (\<bar>r\<bar> \<le> 2 ^ b)"
| "cost_in b PInf = True"
| "cost_in b NInf = False"
| "cost_in b NaN = False"

lemma cost_in_not_NaN: "cost_in b x \<Longrightarrow> x \<noteq> NaN"
  by (cases x) auto

lemma cost_in_not_NInf: "cost_in b x \<Longrightarrow> x \<noteq> NInf"
  by (cases x) auto

lemma cost_in_mono: "cost_in b x \<Longrightarrow> b \<le> c \<Longrightarrow> cost_in c x"
  by (cases x) (auto intro: order_trans power_increasing)

lemma cost_in_0 [simp]: "cost_in b 0"
  by (simp add: zero_f64_def)

lemma cost_in_add: "cost_in b x \<Longrightarrow> cost_in b y \<Longrightarrow> b < 1023 \<Longrightarrow> cost_in (Suc b) (x + y)"
proof (cases x; cases y)
  fix r q
  assume a: "cost_in b x" "cost_in b y" "b < 1023" "x = Fin r" "y = Fin q"
  then have "\<bar>r + q\<bar> \<le> 2 ^ Suc b" by auto
  from rnd_Fin [OF this] a show ?thesis by (simp add: f64_ops)
qed (auto simp: f64_ops)

lemma f64_add_mono:
  assumes "x \<le> x'" "y \<le> y'" "x \<noteq> NInf" "y \<noteq> NInf"
  shows "x + y \<le> x' + y'"
  using assms by (cases x; cases x'; cases y; cases y') (auto simp: plus_f64_def intro: rnd_mono)

lemma f64_MAX_value:
  "rnd_real ((2 ^ 53 - 1) * 2 ^ 971) = (2 ^ 53 - 1) * 2 ^ 971"
  using rnd_real_int_multiple [of "2 ^ 53 - 1" 971] by simp

text \<open>Adding a moderate number to \<open>f64::MAX\<close> is absorbed by rounding.\<close>

lemma f64_MAX_absorbs:
  assumes "\<bar>r\<bar> \<le> 2 ^ 969"
  shows "f64_MAX + Fin r = f64_MAX"
proof -
  let ?M = "(2 ^ 53 - 1) * 2 ^ 971 :: real"
  have s: "(2::real) ^ 971 = 4 * 2 ^ 969" "(2::real) ^ 1023 = 2 ^ 52 * 2 ^ 971"
    "(2::real) ^ 1024 = 2 ^ 53 * 2 ^ 971"
    by (simp_all flip: power_add)
  have pos: "(0::real) < 2 ^ 969" by simp
  have lo: "2 ^ 1023 \<le> ?M + r" and hi: "?M + r < 2 ^ 1024"
    using assms pos unfolding s by (simp_all add: algebra_simps abs_le_iff)
  have gt0: "0 < ?M + r" using lo by (rule order_less_le_trans [rotated]) simp
  have "expo \<bar>?M + r\<bar> = 1023"
    using lo hi gt0 by (intro expo_eqI) simp_all
  then have u: "ulp_exp (?M + r) = 971" by (simp add: ulp_exp_def)
  have split: "(?M + r) / 2 ^ 971 - of_int (2 ^ 53 - 1) = r / 2 ^ 971"
    by (subst add_divide_distrib) simp
  have "\<bar>r\<bar> < 2 * 2 ^ 969" using assms by (rule order_le_less_trans) simp
  then have "\<bar>r / 2 ^ 971\<bar> < 1 / 2" by (simp add: field_simps)
  then have "rne ((?M + r) / 2 ^ 971) = 2 ^ 53 - 1"
    by (intro rne_eqI) (simp only: split)
  then have "rnd_real (?M + r) = ?M"
    using gt0 u by (simp add: rnd_real_def)
  moreover have "?M < 2 ^ 1024" unfolding s(3) by simp
  moreover have "- (2 ^ 1024) < ?M" unfolding s(3) by simp
  ultimately show ?thesis
    by (simp add: f64_MAX_def plus_f64_def rnd_def Let_def)
qed

lemma f64_MAX_double: "f64_MAX + f64_MAX = PInf"
proof -
  let ?M = "(2 ^ 53 - 1) * 2 ^ 971 :: real"
  have "rnd_real (?M + ?M) = ?M + ?M"
    using rnd_real_int_multiple [of "2 ^ 53 - 1" 972] by simp
  moreover have "2 ^ 1024 \<le> ?M + ?M" by simp
  ultimately show ?thesis by (simp add: f64_MAX_def plus_f64_def rnd_def)
qed

lemma cost_in_less_MAX: "cost_in 969 x \<Longrightarrow> x \<noteq> PInf \<Longrightarrow> x < f64_MAX"
proof (cases x)
  case (Fin r)
  assume "cost_in 969 x"
  with Fin have "r \<le> 2 ^ 969" by simp
  also have "(2::real) ^ 969 < (2 ^ 53 - 1) * 2 ^ 971" by simp
  finally show ?thesis using Fin by (simp add: f64_MAX_def)
qed auto

lemma cost_in_not_MAX: "cost_in 969 x \<Longrightarrow> x \<noteq> f64_MAX"
proof
  assume "cost_in 969 x" "x = f64_MAX"
  moreover from this have "x \<noteq> PInf" by (simp add: f64_MAX_def)
  ultimately have "x < x" using cost_in_less_MAX by blast
  then show False by (cases x) (auto simp: f64_ops)
qed


text \<open>The relative error of rounding, away from the subnormal range.\<close>

lemma rnd_real_error:
  assumes "2 powi - 1022 \<le> x"
  shows "\<bar>rnd_real x - x\<bar> \<le> x * 2 powi - 53"
proof -
  let ?u = "2 powi ulp_exp x :: real"
  have pos: "0 < x" using powi_pos [of "- 1022"] assms by linarith
  then have e: "2 powi expo x \<le> x" "x < 2 powi (expo x + 1)" using expo_bounds by blast+
  have "(2::real) powi - 1022 < 2 powi (expo x + 1)" using assms e(2) by linarith
  then have "- 1022 < expo x + 1" unfolding powi_less_iff .
  then have "ulp_exp x = expo x - 52" using pos by (simp add: ulp_exp_def)
  then have u: "?u = 2 powi expo x * 2 powi - 52" 
    using power_int_add [of "2::real" "expo x" "- 52"] by simp
  have "rnd_real x - x = (of_int (rne (x / ?u)) - x / ?u) * ?u"
    using pos by (simp add: rnd_real_def algebra_simps)
  then have "\<bar>rnd_real x - x\<bar> = \<bar>of_int (rne (x / ?u)) - x / ?u\<bar> * ?u" by (simp add: abs_mult)
  also have "\<dots> \<le> 1 / 2 * ?u" by (intro mult_right_mono rne_error) simp
  also have "\<dots> \<le> 1 / 2 * (x * 2 powi - 52)" unfolding u using e(1) by (intro mult_left_mono mult_right_mono) simp_all
  also have "\<dots> = x * 2 powi - 53" by simp
  finally show ?thesis .
qed

subsection \<open>Evaluation on small integers\<close>

lemma f64_add_numeral:
  "(numeral (a + b) :: int) < 2 ^ 53 \<Longrightarrow> Fin (numeral a) + Fin (numeral b) = Fin (numeral (a + b))"
  "(numeral a :: int) < 2 ^ 53 \<Longrightarrow> 0 + Fin (numeral a) = Fin (numeral a)"
  "(numeral a :: int) < 2 ^ 53 \<Longrightarrow> Fin (numeral a) + 0 = Fin (numeral a)"
  "(0 :: f64) + 0 = 0"
  using Fin_add_of_int [of "numeral a" "numeral b"] Fin_add_of_int [of "numeral a" 0]
    Fin_add_of_int [of 0 "numeral a"] Fin_add_of_int [of 0 0]
  by (simp_all add: zero_f64_def)

lemma f64_MAX_cmp:
  "r \<le> 2 ^ 969 \<Longrightarrow> Fin r < f64_MAX" "r \<le> 2 ^ 969 \<Longrightarrow> \<not> f64_MAX < Fin r"
  "r \<le> 2 ^ 969 \<Longrightarrow> Fin r \<noteq> f64_MAX" "f64_MAX \<noteq> PInf" "f64_MAX \<noteq> NaN"
  "0 < f64_MAX" "\<not> f64_MAX < 0" "0 \<noteq> f64_MAX"
  unfolding f64_MAX_def zero_f64_def by simp_all

lemma f64_MAX_add_numeral:
  "(numeral a :: real) \<le> 2 ^ 969 \<Longrightarrow> f64_MAX + Fin (numeral a) = f64_MAX"
  "(numeral a :: real) \<le> 2 ^ 969 \<Longrightarrow> Fin (numeral a) + f64_MAX = f64_MAX"
  "f64_MAX + 0 = f64_MAX" "0 + f64_MAX = f64_MAX"
  using f64_MAX_absorbs [of "numeral a"] f64_MAX_absorbs [of 0]
  by (simp_all add: zero_f64_def f64_add_commute)

lemma zero_less_Fin: "0 < Fin r \<longleftrightarrow> 0 < r" "Fin r < 0 \<longleftrightarrow> r < 0" "\<not> (0 :: f64) < 0"
  "0 = Fin r \<longleftrightarrow> 0 = r" "Fin r = 0 \<longleftrightarrow> r = 0" "0 \<noteq> PInf" "0 \<noteq> NaN"
  by (auto simp: zero_f64_def)

lemmas f64_eval = f64_add_numeral f64_MAX_cmp f64_MAX_add_numeral f64_MAX_double zero_less_Fin f64_eq_def

end
