(* ===== verification/Agg_Types.thy ===== *)
theory Agg_Types
  imports Prelude
begin

text \<open>
  The data of the aggregator pallet (\<open>pallets/aggregator/src/types.rs\<close>): currencies are byte
  strings (\<open>Vec<u8>\<close>, the runtime's choice for \<open>Config::Currency\<close>) where a type is used on
  chain, and a type variable where the code is generic. The derived \<open>Ord\<close> of \<open>Pair\<close> and
  \<open>ProviderPair\<close> is the lexicographic order of their fields, given as instances of
  \<open>linorder\<close> so that they can be keys of the ordered maps of the prelude.
\<close>

type_synonym currency = "u8 list"
type_synonym amount = u128

datatype provider = CRYPTOCOMPARE

datatype 'c pair = Pair (source: 'c) (target: 'c)

datatype 'c provider_pair = ProviderPair (pp_pair: "'c pair") (pp_provider: provider)

datatype operation = Add | Del

record 'c provider_pair_operation =
  provider_pair :: "'c provider_pair"
  operation :: operation

record ('c, 'a) path_step =
  step_pair :: "'c pair"
  step_provider :: provider
  step_cost :: 'a

record ('c, 'a) price_path =
  total_cost :: 'a
  steps :: "('c, 'a) path_step list"

datatype calculator_error = NegativeCyclesError | ConversionError

section \<open>The derived orders\<close>

instantiation provider :: linorder
begin

definition less_eq_provider :: "provider \<Rightarrow> provider \<Rightarrow> bool" where
  "p \<le> q \<longleftrightarrow> (case p of CRYPTOCOMPARE \<Rightarrow> (case q of CRYPTOCOMPARE \<Rightarrow> True))"

definition less_provider :: "provider \<Rightarrow> provider \<Rightarrow> bool" where
  "p < q \<longleftrightarrow> (case p of CRYPTOCOMPARE \<Rightarrow> (case q of CRYPTOCOMPARE \<Rightarrow> False))"

instance
  by standard (auto simp: less_eq_provider_def less_provider_def split: provider.splits)

end

instantiation pair :: (linorder) linorder
begin

definition less_eq_pair :: "'a pair \<Rightarrow> 'a pair \<Rightarrow> bool" where
  "p \<le> q \<longleftrightarrow> source p < source q \<or> source p = source q \<and> target p \<le> target q"

definition less_pair :: "'a pair \<Rightarrow> 'a pair \<Rightarrow> bool" where
  "p < q \<longleftrightarrow> source p < source q \<or> source p = source q \<and> target p < target q"

instance
  by standard (auto simp: less_eq_pair_def less_pair_def intro: pair.expand)

end

instantiation provider_pair :: (linorder) linorder
begin

definition less_eq_provider_pair :: "'a provider_pair \<Rightarrow> 'a provider_pair \<Rightarrow> bool" where
  "p \<le> q \<longleftrightarrow> pp_pair p < pp_pair q \<or> pp_pair p = pp_pair q \<and> pp_provider p \<le> pp_provider q"

definition less_provider_pair :: "'a provider_pair \<Rightarrow> 'a provider_pair \<Rightarrow> bool" where
  "p < q \<longleftrightarrow> pp_pair p < pp_pair q \<or> pp_pair p = pp_pair q \<and> pp_provider p < pp_provider q"

instance
  by standard (auto simp: less_eq_provider_pair_def less_provider_pair_def intro: provider_pair.expand)

end

lemma provider_eq [simp]: "(p :: provider) = q"
  by (cases p; cases q) simp

section \<open>Conversions\<close>

text \<open>
  \<open>str::from_utf8\<close> accepts exactly the well-formed UTF-8 byte sequences: no overlong
  forms, no surrogates, nothing above U+10FFFF. \<open>to_str\<close> unwraps it, so it panics on any
  other bytes.
\<close>

definition utf8_cont :: "u8 \<Rightarrow> bool" where
  "utf8_cont b \<longleftrightarrow> 0x80 \<le> b \<and> b \<le> 0xBF"

fun utf8_second :: "u8 \<Rightarrow> u8 \<Rightarrow> bool" where
  "utf8_second b c =
     (if b = 0xE0 then 0xA0 \<le> c \<and> c \<le> 0xBF
      else if b = 0xED then 0x80 \<le> c \<and> c \<le> 0x9F
      else if b = 0xF0 then 0x90 \<le> c \<and> c \<le> 0xBF
      else if b = 0xF4 then 0x80 \<le> c \<and> c \<le> 0x8F
      else utf8_cont c)"

fun utf8_valid :: "u8 list \<Rightarrow> bool" where
  "utf8_valid [] = True"
| "utf8_valid (b # bs) =
     (if b < 0x80 then utf8_valid bs
      else if b < 0xC2 \<or> 0xF4 < b then False
      else case bs of
        [] \<Rightarrow> False
      | c # cs \<Rightarrow>
          utf8_second b c \<and>
          (if b \<le> 0xDF then utf8_valid cs
           else case cs of
             [] \<Rightarrow> False
           | d # ds \<Rightarrow>
               utf8_cont d \<and>
               (if b \<le> 0xEF then utf8_valid ds
                else case ds of [] \<Rightarrow> False | e # es \<Rightarrow> utf8_cont e \<and> utf8_valid es)))"

definition to_str :: "currency \<Rightarrow> u8 list run" where
  "to_str c = (if utf8_valid c then Some c else None)"

definition from_vecu8 :: "u8 list \<Rightarrow> currency" where
  "from_vecu8 v = v"

lemma utf8_valid_ascii: "\<forall>b \<in> set c. b < 0x80 \<Longrightarrow> utf8_valid c"
  by (induction c) auto

text \<open>
  A log macro formats its arguments only when its level is enabled; the currencies of the
  message are then converted with \<open>to_str\<close>.
\<close>

definition log_currencies :: "bool \<Rightarrow> currency list \<Rightarrow> unit run" where
  "log_currencies enabled cs = (if enabled \<and> list_ex (\<lambda>c. to_str c = None) cs then None else Some ())"

lemma log_currencies_utf8 [simp]:
  "\<forall>c \<in> set cs. utf8_valid c \<Longrightarrow> log_currencies enabled cs = Some ()"
  by (auto simp: log_currencies_def to_str_def list_ex_iff)

end
