(* ===== verification/Algo.thy ===== *)
theory Algo
  imports F64 Agg_Types
begin

text \<open>
  \<open>best_path_calculator/floyd_warshall/algo.rs\<close>: all-pairs shortest paths over indexed
  vertices, and the best-exchange-rate search built on it by taking logarithms. \<open>log2\<close> is a
  parameter: its value is platform dependent (the \<open>libm\<close> crate in the Wasm build).
\<close>

section \<open>Data\<close>

text \<open>\<open>algo::Pair\<close> has the shape and the order of \<open>types::Pair\<close>, over vertex indices.\<close>

type_synonym vpair = "nat pair"

record edge =
  e_pair :: vpair
  e_provider :: nat
  e_cost :: f64

definition edge_eq :: "edge \<Rightarrow> edge \<Rightarrow> bool" where
  "edge_eq e f \<longleftrightarrow> e_pair e = e_pair f \<and> e_provider e = e_provider f \<and> f64_eq (e_cost e) (e_cost f)"

definition ord_cmp :: "'a::linorder \<Rightarrow> 'a \<Rightarrow> ordering" where
  "ord_cmp a b = (if a < b then Less else if a = b then Equal else Greater)"

text \<open>\<open>partial_cmp(..).unwrap()\<close> panics on a NaN cost, but only when it is reached.\<close>

definition edge_cmp :: "edge \<Rightarrow> edge \<Rightarrow> ordering run" where
  "edge_cmp e f =
     (case ord_cmp (e_pair e) (e_pair f) of
        Equal \<Rightarrow>
          (case ord_cmp (e_provider e) (e_provider f) of
             Equal \<Rightarrow> partial_cmp (e_cost e) (e_cost f)
           | r \<Rightarrow> Some r)
      | r \<Rightarrow> Some r)"

definition edge_partial_cmp :: "edge \<Rightarrow> edge \<Rightarrow> ordering option run" where
  "edge_partial_cmp e f = map_option Some (edge_cmp e f)"

record path =
  p_cost :: f64
  p_edges :: "edge list"

definition path_eq :: "path \<Rightarrow> path \<Rightarrow> bool" where
  "path_eq p q \<longleftrightarrow> f64_eq (p_cost p) (p_cost q) \<and> list_all2 edge_eq (p_edges p) (p_edges q)"

text \<open>The order of edges agrees with their equality, and both relations the code declares as \<open>Eq\<close> are
  reflexive exactly away from NaN.\<close>

lemma edge_cmp_Equal: "edge_cmp e f = Some Equal \<longleftrightarrow> edge_eq e f"
  by (auto simp: edge_cmp_def edge_eq_def ord_cmp_def partial_cmp_def f64_eq_def f64_less_irrefl split: ordering.splits if_splits)

lemma edge_eq_refl: "edge_eq e e \<longleftrightarrow> e_cost e \<noteq> NaN"
  by (simp add: edge_eq_def f64_eq_def)

lemma path_eq_refl: "path_eq p p \<longleftrightarrow> p_cost p \<noteq> NaN \<and> (\<forall>e \<in> set (p_edges p). e_cost e \<noteq> NaN)"
  by (simp add: path_eq_def f64_eq_def list_all2_same edge_eq_refl)

definition path_add :: "path \<Rightarrow> edge \<Rightarrow> path" where
  "path_add p e = p\<lparr>p_cost := p_cost p + e_cost e, p_edges := p_edges p @ [e]\<rparr>"

datatype path_calculation_error = NegativeCycles

type_synonym matrix = "(vpair, path) bmap"

section \<open>One edge per pair\<close>

text \<open>
  The entry of a pair is replaced when the old cost compares to the new one as \<open>ordering\<close>
  says.
\<close>

fun unique_edges_loop ::
  "ordering \<Rightarrow> edge list \<Rightarrow> (nat \<times> nat, edge) bmap \<Rightarrow> (nat \<times> nat, edge) bmap run" where
  "unique_edges_loop ord [] m = Some m"
| "unique_edges_loop ord (e # es) m =
     (let k = (source (e_pair e), target (e_pair e)) in
      case bm_get m k of
        None \<Rightarrow> unique_edges_loop ord es (bm_insert k e m)
      | Some old_costed \<Rightarrow>
          (case partial_cmp (e_cost old_costed) (e_cost e) of
             None \<Rightarrow> None
           | Some c \<Rightarrow> unique_edges_loop ord es (if c = ord then bm_insert k e m else m)))"

definition unique_cheapest_edges :: "edge list \<Rightarrow> ordering \<Rightarrow> edge list run" where
  "unique_cheapest_edges edges ord = map_option (map snd) (unique_edges_loop ord edges [])"

section \<open>Floyd-Warshall\<close>

text \<open>
  The first pass over the edges; of its three results the code goes on with the vertex set
  only.
\<close>

definition fw_scan_edge ::
  "edge \<Rightarrow> nat list \<times> (vpair, edge) bmap \<times> matrix \<Rightarrow> nat list \<times> (vpair, edge) bmap \<times> matrix" where
  "fw_scan_edge e = (\<lambda>(vertices, edges_by_pair, paths_by_pair).
     (snd (bs_insert (target (e_pair e)) (snd (bs_insert (source (e_pair e)) vertices))),
      bm_insert (Pair (source (e_pair e)) (target (e_pair e))) e edges_by_pair,
      let k = Pair (source (e_pair e)) (target (e_pair e));
          old = (case bm_get paths_by_pair k of Some p \<Rightarrow> p | None \<Rightarrow> \<lparr>p_cost = 0, p_edges = []\<rparr>)
      in bm_insert k (path_add old e) paths_by_pair))"

definition fw_scan :: "edge list \<Rightarrow> nat list \<times> (vpair, edge) bmap \<times> matrix" where
  "fw_scan edges = fold fw_scan_edge edges ([], [], [])"

definition fw_init :: "nat list \<Rightarrow> edge list \<Rightarrow> matrix" where
  "fw_init vertices edges =
     fold (\<lambda>e. bm_insert (Pair (source (e_pair e)) (target (e_pair e)))
                 \<lparr>p_cost = e_cost e, p_edges = [e]\<rparr>) edges
       (fold (\<lambda>v. bm_insert (Pair v v) \<lparr>p_cost = 0, p_edges = []\<rparr>) vertices [])"

definition fw_relax :: "nat \<Rightarrow> nat \<Rightarrow> nat \<Rightarrow> matrix \<Rightarrow> matrix" where
  "fw_relax k i j matrix =
     (let ij_cost = (case bm_get matrix (Pair i j) of Some ij \<Rightarrow> p_cost ij | None \<Rightarrow> f64_MAX);
          (ik_cost, ik_edges) =
            (case bm_get matrix (Pair i k) of Some ik \<Rightarrow> (p_cost ik, p_edges ik) | None \<Rightarrow> (f64_MAX, []));
          (kj_cost, kj_edges) =
            (case bm_get matrix (Pair k j) of Some kj \<Rightarrow> (p_cost kj, p_edges kj) | None \<Rightarrow> (f64_MAX, []))
      in if \<not> f64_eq (ik_cost + kj_cost) f64_MAX \<and> ik_cost + kj_cost < ij_cost
         then bm_insert (Pair i j) \<lparr>p_cost = ik_cost + kj_cost, p_edges = ik_edges @ kj_edges\<rparr> matrix
         else matrix)"

definition fw_loops :: "nat list \<Rightarrow> matrix \<Rightarrow> matrix" where
  "fw_loops vertices =
     fold (\<lambda>k. fold (\<lambda>i. fold (\<lambda>j. fw_relax k i j) vertices) vertices) vertices"

fun fw_check :: "nat list \<Rightarrow> matrix \<Rightarrow> (path_calculation_error, matrix) result run" where
  "fw_check [] matrix = Some (Inr matrix)"
| "fw_check (i # vertices) matrix =
     (case bm_get matrix (Pair i i) of
        None \<Rightarrow> None
      | Some p \<Rightarrow> if p_cost p < 0 then Some (Inl NegativeCycles) else fw_check vertices matrix)"

definition floyd_warshall_shortest_paths ::
  "edge list \<Rightarrow> (path_calculation_error, matrix) result run" where
  "floyd_warshall_shortest_paths edges =
     (let (vertices, _, _) = fw_scan edges
      in fw_check vertices (fw_loops vertices (fw_init vertices edges)))"

definition shortest_paths :: "edge list \<Rightarrow> (path_calculation_error, matrix) result run" where
  "shortest_paths edges = do {
     es \<leftarrow> unique_cheapest_edges edges Less;
     floyd_warshall_shortest_paths es
   }"

section \<open>Best products by logarithms\<close>

definition restore_weights ::
  "(vpair \<times> nat, f64) bmap \<Rightarrow> vpair \<times> path \<Rightarrow> (vpair \<times> path) run" where
  "restore_weights weight_map = (\<lambda>(pair, path). do {
     es \<leftarrow> run_map (\<lambda>e. map_option (\<lambda>c. e\<lparr>e_cost := c\<rparr>) (bm_get weight_map (e_pair e, e_provider e)))
            (p_edges path);
     Some (pair, \<lparr>p_cost = foldl (\<lambda>acc e. acc * e_cost e) 1 es, p_edges = es\<rparr>)
   })"

definition longest_paths_mult ::
  "(f64 \<Rightarrow> f64) \<Rightarrow> edge list \<Rightarrow> (path_calculation_error, matrix) result run" where
  "longest_paths_mult log2 edges0 = do {
     edges \<leftarrow> unique_cheapest_edges edges0 Greater;
     let weight_map = bm_collect (map (\<lambda>e. ((e_pair e, e_provider e), e_cost e)) edges);
     let edges_with_log_weights = map (\<lambda>e. e\<lparr>e_cost := - log2 (e_cost e)\<rparr>) edges;
     res \<leftarrow> shortest_paths edges_with_log_weights;
     case res of
       Inl err \<Rightarrow> Some (Inl err)
     | Inr res_map \<Rightarrow>
         map_option (\<lambda>kvs. Inr (bm_collect kvs)) (run_map (restore_weights weight_map) res_map)
   }"

end
