(* ===== verification/FW_Correct.thy ===== *)
theory FW_Correct
  imports Algo
begin

text \<open>
  Correctness of the Floyd-Warshall loops over \<open>f64\<close> costs.

  The code writes \<open>f64::MAX\<close> for a missing entry and guards against it with \<open>!=\<close>. Reading a
  missing entry as plus infinity instead (\<open>cost_at\<close>), one relaxation either leaves the matrix
  alone, because the detour is not shorter, or replaces the entry by the concatenation of two
  stored paths (\<open>relax_cases\<close>); this needs the stored costs to be moderate, and each round of
  the outer loop at most multiplies them by eight (\<open>round_bound\<close>). On that basis:
  every stored path is a walk of input edges whose cost is a rounded sum of its edge costs
  (\<open>walk\<close>, \<open>tree_cost\<close>), and no path through distinct interior vertices is cheaper than the
  stored one (\<open>split_cost\<close>), without any assumption that rounding is exact.
\<close>

definition mat :: "matrix \<Rightarrow> nat \<Rightarrow> nat \<Rightarrow> path option" where
  "mat m i j = bm_get m (Pair i j)"

definition cost_at :: "matrix \<Rightarrow> nat \<Rightarrow> nat \<Rightarrow> f64" where
  "cost_at m i j = (case mat m i j of Some p \<Rightarrow> p_cost p | None \<Rightarrow> PInf)"

lemma mat_insert [simp]:
  "bm_wf m \<Longrightarrow> mat (bm_insert (Pair i j) p m) i' j' = (if i' = i \<and> j' = j then Some p else mat m i' j')"
  by (auto simp: mat_def bm_get_insert)

lemma cost_at_insert [simp]:
  "bm_wf m \<Longrightarrow> cost_at (bm_insert (Pair i j) p m) i' j' =
     (if i' = i \<and> j' = j then p_cost p else cost_at m i' j')"
  by (simp add: cost_at_def)

section \<open>One relaxation\<close>

text \<open>A moderate cost added to \<open>f64::MAX\<close> is lost.\<close>

lemma MAX_absorbs:
  assumes "b \<le> 968" "cost_in b x"
  shows "f64_MAX + x = (if x = PInf then PInf else f64_MAX)" "x + f64_MAX = (if x = PInf then PInf else f64_MAX)"
proof -
  show "f64_MAX + x = (if x = PInf then PInf else f64_MAX)"
  proof (cases x)
    case (Fin r)
    have "(2::real) ^ b \<le> 2 ^ 969" using assms(1) by (intro power_increasing) simp_all
    with assms(2) Fin have "\<bar>r\<bar> \<le> 2 ^ 969" by simp
    with Fin show ?thesis by (simp add: f64_MAX_absorbs)
  qed (use assms(2) in \<open>auto simp: f64_MAX_def plus_f64_def\<close>)
  then show "x + f64_MAX = (if x = PInf then PInf else f64_MAX)" by (simp add: f64_add_commute)
qed

lemma PInf_absorbs: "cost_in b x \<Longrightarrow> PInf + x = PInf" "cost_in b x \<Longrightarrow> x + PInf = PInf"
  by (cases x; simp add: plus_f64_def)+

text \<open>Without one of the two halves of the detour nothing changes.\<close>

lemma relax_missing:
  assumes b: "b \<le> 968" and ik: "cost_in b (cost_at m i k)" and kj: "cost_in b (cost_at m k j)"
    and missing: "mat m i k = None \<or> mat m k j = None"
  shows "fw_relax k i j m = m \<and> cost_at m i k + cost_at m k j = PInf"
proof -
  have nmax: "PInf \<noteq> f64_MAX" "f64_MAX \<noteq> NaN" by (simp_all add: f64_MAX_def)
  note sums = MAX_absorbs [OF b] f64_MAX_double f64_eq_def nmax fw_relax_def mat_def
  from missing have inf: "cost_at m i k + cost_at m k j = PInf"
    using PInf_absorbs [OF ik] PInf_absorbs [OF kj] by (auto simp: cost_at_def)
  have "fw_relax k i j m = m"
  proof (cases "mat m i k")
    case None
    then show ?thesis using kj by (cases "mat m k j") (simp_all add: sums cost_at_def)
  next
    case (Some p)
    with missing ik show ?thesis by (simp add: sums cost_at_def)
  qed
  with inf show ?thesis by blast
qed

text \<open>With both halves the code compares the sum with the entry, or with infinity without one.\<close>

lemma relax_present:
  assumes b: "b \<le> 968" and ik: "cost_in b (p_cost p)" and kj: "cost_in b (p_cost q)"
    and present: "mat m i k = Some p" "mat m k j = Some q"
  shows "fw_relax k i j m = (if p_cost p + p_cost q < cost_at m i j
       then bm_insert (Pair i j) \<lparr>p_cost = p_cost p + p_cost q, p_edges = p_edges p @ p_edges q\<rparr> m else m)"
    "cost_in (Suc b) (p_cost p + p_cost q)"
proof -
  let ?s = "p_cost p + p_cost q"
  show s: "cost_in (Suc b) ?s" using ik kj b by (intro cost_in_add) simp_all
  then have s969: "cost_in 969 ?s" using b by (auto intro: cost_in_mono)
  then have neq: "\<not> f64_eq ?s f64_MAX" using cost_in_not_MAX by (auto simp: f64_eq_def)
  have lt: "?s < (case mat m i j of Some r \<Rightarrow> p_cost r | None \<Rightarrow> f64_MAX) \<longleftrightarrow> ?s < cost_at m i j"
  proof (cases "mat m i j")
    case None
    with s969 show ?thesis
      using cost_in_less_MAX cost_in_not_NaN by (auto simp: cost_at_def)
  qed (simp add: cost_at_def)
  show "fw_relax k i j m = (if ?s < cost_at m i j
      then bm_insert (Pair i j) \<lparr>p_cost = ?s, p_edges = p_edges p @ p_edges q\<rparr> m else m)"
    using present lt neq by (simp add: fw_relax_def mat_def)
qed

lemma relax_cases:
  assumes b: "b \<le> 968"
    and ij: "cost_in 969 (cost_at m i j)"
    and ik: "cost_in b (cost_at m i k)" and kj: "cost_in b (cost_at m k j)"
  obtains (stay) "fw_relax k i j m = m" "cost_at m i j \<le> cost_at m i k + cost_at m k j"
  | (improve) p q where "mat m i k = Some p" "mat m k j = Some q"
      "p_cost p + p_cost q < cost_at m i j" "cost_in (Suc b) (p_cost p + p_cost q)"
      "fw_relax k i j m =
         bm_insert (Pair i j) \<lparr>p_cost = p_cost p + p_cost q, p_edges = p_edges p @ p_edges q\<rparr> m"
proof (cases "mat m i k = None \<or> mat m k j = None")
  case True
  with relax_missing [OF b ik kj] ij cost_in_not_NaN show thesis by (intro stay) simp_all
next
  case False
  then obtain p q where pq: "mat m i k = Some p" "mat m k j = Some q" by auto
  then have c: "cost_in b (p_cost p)" "cost_in b (p_cost q)"
    "cost_at m i k + cost_at m k j = p_cost p + p_cost q"
    using ik kj by (simp_all add: cost_at_def)
  note relaxed = relax_present [OF b c(1,2) pq]
  show thesis
  proof (cases "p_cost p + p_cost q < cost_at m i j")
    case True
    with relaxed improve [OF pq] show thesis by simp
  next
    case False
    have "cost_in 969 (p_cost p + p_cost q)" using relaxed(2) b by (auto intro: cost_in_mono)
    with False have "cost_at m i j \<le> p_cost p + p_cost q"
      using f64_not_less ij cost_in_not_NaN by blast
    with False relaxed(1) c(3) stay show thesis by simp
  qed
qed

lemma relax_cost:
  assumes "bm_wf m" "b \<le> 968" "cost_in 969 (cost_at m i j)"
    and "cost_in b (cost_at m i k)" "cost_in b (cost_at m k j)"
  shows "cost_at (fw_relax k i j m) i' j' =
     (if i' = i \<and> j' = j \<and> cost_at m i k + cost_at m k j < cost_at m i j
      then cost_at m i k + cost_at m k j else cost_at m i' j')"
  using assms(2-5)
proof (cases rule: relax_cases)
  case stay
  moreover have "cost_in (Suc b) (cost_at m i k + cost_at m k j)"
    using assms by (intro cost_in_add) simp_all
  ultimately have "\<not> cost_at m i k + cost_at m k j < cost_at m i j"
    using f64_not_less assms(3) cost_in_not_NaN by blast
  with stay show ?thesis by simp
next
  case (improve p q)
  then have "cost_at m i k = p_cost p" "cost_at m k j = p_cost q" by (simp_all add: cost_at_def)
  with improve assms(1) show ?thesis by simp
qed

lemma relax_wf: "bm_wf m \<Longrightarrow> bm_wf (fw_relax k i j m)"
  by (simp add: fw_relax_def Let_def bm_wf_insert split: option.split prod.split)

section \<open>One round of the outer loop\<close>

text \<open>How large the cost of a cell can get in the round of \<open>k\<close>, from \<open>2 ^ b\<close> before it.\<close>

definition cell_bound :: "nat \<Rightarrow> nat \<Rightarrow> nat \<Rightarrow> nat \<Rightarrow> nat" where
  "cell_bound b k i j =
     (if i = k \<and> j = k then b + 1 else if i = k \<or> j = k then b + 2 else b + 3)"

lemma cell_bound_ge: "b \<le> cell_bound b k i j"
  by (simp add: cell_bound_def)

text \<open>
  What the fold over the remaining cells \<open>xs\<close> relies on: they still hold costs of before the
  round.
\<close>

definition mid_round :: "nat \<Rightarrow> nat \<Rightarrow> (nat \<times> nat) list \<Rightarrow> matrix \<Rightarrow> bool" where
  "mid_round b k xs m \<longleftrightarrow> bm_wf m \<and> b \<le> 966 \<and> distinct xs \<and>
     (\<forall>i j. cost_in (if (i, j) \<in> set xs then b else cell_bound b k i j) (cost_at m i j))"

lemma mid_round_cell: "mid_round b k xs m \<Longrightarrow> cost_in (cell_bound b k i j) (cost_at m i j)"
  unfolding mid_round_def cell_bound_def
  by (elim conjE allE [of _ i] allE [of _ j]) (auto elim: cost_in_mono split: if_splits)

lemma mid_round_not_NaN: "mid_round b k xs m \<Longrightarrow> cost_at m i j \<noteq> NaN"
  by (rule cost_in_not_NaN [OF mid_round_cell])

lemma mid_round_pending: "mid_round b k xs m \<Longrightarrow> (i, j) \<in> set xs \<Longrightarrow> cost_in b (cost_at m i j)"
  unfolding mid_round_def by (metis (full_types))

lemma mid_round_reads:
  assumes "mid_round b k xs m"
  shows "b + 2 \<le> 968" "cost_in 969 (cost_at m i j)"
    "cost_in (b + 2) (cost_at m i k)" "cost_in (b + 2) (cost_at m k j)"
proof -
  show "b + 2 \<le> 968" using assms by (simp add: mid_round_def)
  then show "cost_in 969 (cost_at m i j)"
    by (intro cost_in_mono [OF mid_round_cell [OF assms]]) (simp add: cell_bound_def)
  show "cost_in (b + 2) (cost_at m i k)" "cost_in (b + 2) (cost_at m k j)"
    by (rule cost_in_mono [OF mid_round_cell [OF assms]], simp add: cell_bound_def)+
qed

lemma mid_round_sum:
  assumes "mid_round b k ((i, j) # xs) m"
  shows "cost_in (cell_bound b k i j) (cost_at m i k + cost_at m k j)"
proof -
  have b: "b \<le> 966" using assms by (simp add: mid_round_def)
  have pend: "cost_in b (cost_at m i j)" using assms by (rule mid_round_pending) simp
  have kk: "cost_in (b + 1) (cost_at m k k)"
    using mid_round_cell [OF assms, of k k] by (simp add: cell_bound_def)
  consider "i = k" "j = k" | "i = k" "j \<noteq> k" | "i \<noteq> k" "j = k" | "i \<noteq> k" "j \<noteq> k" by blast
  then show ?thesis
  proof cases
    case 1
    with pend b show ?thesis using cost_in_add [of b] by (simp add: cell_bound_def)
  next
    case 2
    then have "cost_in (b + 1) (cost_at m k j)" using pend by (auto intro: cost_in_mono)
    with kk 2 b show ?thesis using cost_in_add [of "b + 1"] by (simp add: cell_bound_def)
  next
    case 3
    then have "cost_in (b + 1) (cost_at m i k)" using pend by (auto intro: cost_in_mono)
    with kk 3 b show ?thesis using cost_in_add [of "b + 1"] by (simp add: cell_bound_def)
  next
    case 4
    have "cost_in (b + 2) (cost_at m i k)" "cost_in (b + 2) (cost_at m k j)"
      using mid_round_reads [OF assms] by auto
    with 4 b show ?thesis
      using cost_in_add [of "b + 2"] by (simp add: cell_bound_def eval_nat_numeral)
  qed
qed

lemma mid_round_cost:
  "mid_round b k xs m \<Longrightarrow> cost_at (fw_relax k i j m) i' j' =
     (if i' = i \<and> j' = j \<and> cost_at m i k + cost_at m k j < cost_at m i j
      then cost_at m i k + cost_at m k j else cost_at m i' j')"
  using mid_round_reads [of b k xs m]
  by (intro relax_cost [of m "b + 2"]) (auto simp: mid_round_def)

lemma mid_round_step:
  assumes "mid_round b k ((i, j) # xs) m"
  shows "mid_round b k xs (fw_relax k i j m)"
  unfolding mid_round_def
proof (intro conjI allI)
  from assms show "bm_wf (fw_relax k i j m)" "b \<le> 966" "distinct xs"
    by (simp_all add: mid_round_def relax_wf)
  fix i' j'
  have new: "(i, j) \<notin> set xs" using assms by (simp add: mid_round_def)
  show "cost_in (if (i', j') \<in> set xs then b else cell_bound b k i' j')
      (cost_at (fw_relax k i j m) i' j')"
  proof (cases "i' = i \<and> j' = j")
    case True
    with new mid_round_sum [OF assms] mid_round_cell [OF assms, of i j] show ?thesis
      by (simp add: mid_round_cost [OF assms])
  next
    case False
    then show ?thesis
      using mid_round_cell [OF assms, of i' j'] mid_round_pending [OF assms, of i' j']
      by (auto simp: mid_round_cost [OF assms])
  qed
qed

lemma mid_round_decreases:
  assumes "mid_round b k xs m"
  shows "cost_at (fw_relax k i j m) i' j' \<le> cost_at m i' j'"
  using mid_round_cell [OF assms, of i' j'] cost_in_not_NaN f64_less_le
  by (auto simp: mid_round_cost [OF assms])

lemma mid_round_improves:
  assumes "mid_round b k xs m" "cost_at m i k \<le> x" "cost_at m k j \<le> y"
  shows "cost_at (fw_relax k i j m) i j \<le> x + y"
proof -
  note r = mid_round_reads [OF assms(1)]
  have nn: "cost_at m i k \<noteq> NInf" "cost_at m k j \<noteq> NInf" using r(3,4) cost_in_not_NInf by blast+
  have "cost_in (Suc (b + 2)) (cost_at m i k + cost_at m k j)"
    using r by (intro cost_in_add) auto
  then have "cost_at (fw_relax k i j m) i j \<le> cost_at m i k + cost_at m k j"
    using r(2) [of i j] cost_in_not_NaN f64_not_less by (auto simp: mid_round_cost [OF assms(1)])
  also have "\<dots> \<le> x + y" using assms(2,3) nn by (rule f64_add_mono)
  finally show ?thesis .
qed

abbreviation relax_cells :: "nat \<Rightarrow> (nat \<times> nat) list \<Rightarrow> matrix \<Rightarrow> matrix" where
  "relax_cells k \<equiv> fold (\<lambda>(i, j). fw_relax k i j)"

lemma relax_cells_mid: "mid_round b k xs m \<Longrightarrow> mid_round b k [] (relax_cells k xs m)"
  by (induction xs arbitrary: m) (auto dest: mid_round_step)

lemma relax_cells_decreases:
  "mid_round b k xs m \<Longrightarrow> cost_at (relax_cells k xs m) i j \<le> cost_at m i j"
proof (induction xs arbitrary: m)
  case Nil
  then show ?case using mid_round_not_NaN by simp
next
  case (Cons c xs)
  obtain a d where c: "c = (a, d)" by (cases c)
  have "cost_at (relax_cells k xs (fw_relax k a d m)) i j \<le> cost_at (fw_relax k a d m) i j"
    using Cons.IH mid_round_step Cons.prems unfolding c by blast
  also have "\<dots> \<le> cost_at m i j" using mid_round_decreases Cons.prems by blast
  finally show ?case by (simp add: c)
qed

lemma relax_cells_improves:
  "mid_round b k xs m \<Longrightarrow> (i, j) \<in> set xs \<Longrightarrow> cost_at m i k \<le> x \<Longrightarrow> cost_at m k j \<le> y \<Longrightarrow>
     cost_at (relax_cells k xs m) i j \<le> x + y"
proof (induction xs arbitrary: m)
  case Nil
  then show ?case by simp
next
  case (Cons c xs)
  obtain a d where c: "c = (a, d)" by (cases c)
  let ?m = "fw_relax k a d m"
  have mid: "mid_round b k xs ?m" using Cons.prems(1) unfolding c by (rule mid_round_step)
  show ?case
  proof (cases "(i, j) = c")
    case True
    have "cost_at (relax_cells k xs ?m) i j \<le> cost_at ?m i j"
      using mid by (rule relax_cells_decreases)
    also have "\<dots> \<le> x + y"
      using True mid_round_improves [OF Cons.prems(1,3,4)] by (simp add: c)
    finally show ?thesis by (simp add: c)
  next
    case False
    have "cost_at ?m i k \<le> x" "cost_at ?m k j \<le> y"
      using mid_round_decreases [OF Cons.prems(1)] Cons.prems(3,4) by (blast intro: f64_le_trans)+
    then show ?thesis using Cons.IH [OF mid] False Cons.prems(2) by (auto simp: c)
  qed
qed

definition path_join :: "path \<Rightarrow> path \<Rightarrow> path" where
  "path_join p q = \<lparr>p_cost = p_cost p + p_cost q, p_edges = p_edges p @ p_edges q\<rparr>"

text \<open>A property of stored paths that survives joining survives the round.\<close>

lemma relax_cells_paths:
  assumes "mid_round b k xs m" "b + 2 \<le> c"
    and closed: "\<And>i j p q. Q i k p \<Longrightarrow> Q k j q \<Longrightarrow> cost_in c (p_cost p) \<Longrightarrow> cost_in c (p_cost q) \<Longrightarrow>
      Q i j (path_join p q)"
    and start: "\<And>i j p. mat m i j = Some p \<Longrightarrow> Q i j p"
  shows "mat (relax_cells k xs m) i j = Some p \<Longrightarrow> Q i j p"
  using assms(1) start
proof (induction xs arbitrary: m)
  case Nil
  then show ?case by simp
next
  case (Cons x xs)
  obtain a d where ad: "x = (a, d)" by (cases x)
  let ?m = "fw_relax k a d m"
  have mid: "mid_round b k xs ?m" using Cons.prems(2) unfolding ad by (rule mid_round_step)
  have "Q i' j' p'" if some: "mat ?m i' j' = Some p'" for i' j' p'
    using mid_round_reads(1) [OF Cons.prems(2)] mid_round_reads(2) [OF Cons.prems(2), of a d]
      mid_round_reads(3) [OF Cons.prems(2), of a] mid_round_reads(4) [OF Cons.prems(2), of d]
  proof (cases rule: relax_cases)
    case stay
    with some show ?thesis using Cons.prems(3) by simp
  next
    case (improve p q)
    have "cost_in c (p_cost p)" "cost_in c (p_cost q)"
      using mid_round_reads(3) [OF Cons.prems(2), of a] mid_round_reads(4) [OF Cons.prems(2), of d]
        improve(1,2) assms(2) by (auto simp: cost_at_def elim: cost_in_mono)
    moreover have "bm_wf m" using Cons.prems(2) by (simp add: mid_round_def)
    ultimately show ?thesis
      using improve some closed Cons.prems(3) by (auto simp: path_join_def split: if_splits)
  qed
  then show ?case using Cons.IH [OF _ mid] Cons.prems(1) by (simp add: ad)
qed

section \<open>All rounds\<close>

definition fw_round :: "nat list \<Rightarrow> nat \<Rightarrow> matrix \<Rightarrow> matrix" where
  "fw_round vs k = fold (\<lambda>i. fold (\<lambda>j. fw_relax k i j) vs) vs"

lemma fw_round_cells: "fw_round vs k m = relax_cells k (List.product vs vs) m"
  by (simp add: fw_round_def fold_square)

lemma fw_loops_rounds: "fw_loops vs = fold (fw_round vs) vs"
  by (simp add: fw_loops_def fw_round_def [abs_def])

definition moderate :: "nat \<Rightarrow> matrix \<Rightarrow> bool" where
  "moderate b m \<longleftrightarrow> bm_wf m \<and> (\<forall>i j. cost_in b (cost_at m i j))"

lemma moderate_mid_round:
  "moderate b m \<Longrightarrow> b \<le> 966 \<Longrightarrow> distinct vs \<Longrightarrow> mid_round b k (List.product vs vs) m"
  unfolding moderate_def mid_round_def
  by (simp add: distinct_product cost_in_mono [of b _ "cell_bound b k _ _"] cell_bound_ge)

lemma mid_round_moderate: "mid_round b k [] m \<Longrightarrow> moderate (b + 3) m"
  unfolding moderate_def
proof (intro conjI allI)
  fix i j
  assume mid: "mid_round b k [] m"
  have "cell_bound b k i j \<le> b + 3" by (simp add: cell_bound_def)
  with mid_round_cell [OF mid] show "cost_in (b + 3) (cost_at m i j)" by (rule cost_in_mono)
qed (simp add: mid_round_def)

lemma round_moderate: "moderate b m \<Longrightarrow> b \<le> 966 \<Longrightarrow> distinct vs \<Longrightarrow> moderate (b + 3) (fw_round vs k m)"
  unfolding fw_round_cells by (rule mid_round_moderate, rule relax_cells_mid, rule moderate_mid_round)

lemma rounds_moderate:
  "moderate b m \<Longrightarrow> b + 3 * length ks \<le> 969 \<Longrightarrow> distinct vs \<Longrightarrow>
     moderate (b + 3 * length ks) (fold (fw_round vs) ks m)"
proof (induction ks arbitrary: b m)
  case (Cons k ks)
  then have "moderate (b + 3) (fw_round vs k m)" by (intro round_moderate) auto
  from Cons.IH [OF this] Cons.prems show ?case by (simp add: algebra_simps)
qed simp

lemma rounds_paths:
  assumes "moderate b m" "b + 3 * length ks \<le> 969" "distinct vs"
    and c: "b + 3 * length ks \<le> c"
    and closed: "\<And>i k j p q. Q i k p \<Longrightarrow> Q k j q \<Longrightarrow> cost_in c (p_cost p) \<Longrightarrow> cost_in c (p_cost q) \<Longrightarrow>
      Q i j (path_join p q)"
    and "\<And>i j p. mat m i j = Some p \<Longrightarrow> Q i j p"
  shows "mat (fold (fw_round vs) ks m) i j = Some p \<Longrightarrow> Q i j p"
  using assms(1,2,4,6)
proof (induction ks arbitrary: b m)
  case (Cons k ks)
  have mid: "mid_round b k (List.product vs vs) m"
    using Cons.prems(2,3) assms(3) by (intro moderate_mid_round) auto
  have "moderate (b + 3) (fw_round vs k m)" using Cons.prems(2,3) assms(3) by (intro round_moderate) auto
  moreover have "Q i' j' p'" if "mat (fw_round vs k m) i' j' = Some p'" for i' j' p'
  proof (rule relax_cells_paths [where Q = Q, OF mid, of c])
    show "b + 2 \<le> c" using Cons.prems(4) by simp
  qed (use that Cons.prems(5) closed in \<open>auto simp: fw_round_cells\<close>)
  ultimately show ?case using Cons.IH [of "fw_round vs k m" "b + 3"] Cons.prems(1,3,4) by auto
qed auto

section \<open>No simple path is cheaper\<close>

text \<open>
  The cost of the path from \<open>i\<close> through the vertices \<open>xs\<close> to \<open>j\<close>, added up the way the rounds
  do it: the path is split at the vertex that was processed last (the head of the list), and
  each half is added up in the same way. \<open>W\<close> gives the costs of single edges.
\<close>

fun split_cost :: "(nat \<Rightarrow> nat \<Rightarrow> f64) \<Rightarrow> nat list \<Rightarrow> nat \<Rightarrow> nat list \<Rightarrow> nat \<Rightarrow> f64" where
  "split_cost W [] i xs j = (if xs = [] then W i j else PInf)"
| "split_cost W (k # ks) i xs j =
     (if k \<in> set xs
      then split_cost W ks i (takeWhile (\<lambda>x. x \<noteq> k) xs) k
         + split_cost W ks k (tl (dropWhile (\<lambda>x. x \<noteq> k) xs)) j
      else split_cost W ks i xs j)"

lemma split_at:
  assumes "distinct xs" "k \<in> set xs"
  obtains ys zs where "xs = ys @ k # zs" "takeWhile (\<lambda>x. x \<noteq> k) xs = ys"
    "tl (dropWhile (\<lambda>x. x \<noteq> k) xs) = zs" "k \<notin> set ys" "k \<notin> set zs" "distinct ys" "distinct zs"
proof -
  from split_list_first [OF assms(2)] obtain ys zs where xs: "xs = ys @ k # zs" "k \<notin> set ys" by blast
  then have "takeWhile (\<lambda>x. x \<noteq> k) xs = ys" "dropWhile (\<lambda>x. x \<noteq> k) xs = k # zs"
    by (auto simp: takeWhile_append2 dropWhile_append3 takeWhile_append dropWhile_append)
  with xs assms(1) that [of ys zs] show thesis by simp
qed

lemma round_decreases:
  "moderate b m \<Longrightarrow> b \<le> 966 \<Longrightarrow> distinct vs \<Longrightarrow> cost_at (fw_round vs k m) i j \<le> cost_at m i j"
  unfolding fw_round_cells by (rule relax_cells_decreases, rule moderate_mid_round)

lemma round_improves:
  assumes "moderate b m" "b \<le> 966" "distinct vs" "i \<in> set vs" "j \<in> set vs"
    and "cost_at m i k \<le> x" "cost_at m k j \<le> y"
  shows "cost_at (fw_round vs k m) i j \<le> x + y"
  unfolding fw_round_cells
  using moderate_mid_round [OF assms(1-3)] _ assms(6,7)
  by (rule relax_cells_improves) (use assms(4,5) in simp)

lemma rounds_optimal:
  assumes "moderate b m" "b + 3 * length ks \<le> 969" "distinct vs" "set ks \<subseteq> set vs"
    and "i \<in> set vs" "j \<in> set vs" "distinct xs" "set xs \<subseteq> set ks"
  shows "cost_at (fold (fw_round vs) ks m) i j \<le> split_cost (cost_at m) (rev ks) i xs j"
  using assms(2,4-8)
proof (induction ks arbitrary: i j xs rule: rev_induct)
  case Nil
  then show ?case using assms(1) cost_in_not_NaN by (auto simp: moderate_def)
next
  case (snoc k ks)
  let ?m = "fold (fw_round vs) ks m"
  have len: "b + 3 * length ks \<le> 966" using snoc.prems(1) by simp
  have mod: "moderate (b + 3 * length ks) ?m"
    using assms(1,3) len by (intro rounds_moderate) auto
  have IH: "cost_at ?m i' j' \<le> split_cost (cost_at m) (rev ks) i' xs' j'"
    if "i' \<in> set vs" "j' \<in> set vs" "distinct xs'" "set xs' \<subseteq> set ks" for i' j' xs'
    using snoc.IH [of i' j' xs'] snoc.prems(2) len that by auto
  show ?case
  proof (cases "k \<in> set xs")
    case False
    have "cost_at (fw_round vs k ?m) i j \<le> cost_at ?m i j"
      using mod len assms(3) by (rule round_decreases)
    also have "\<dots> \<le> split_cost (cost_at m) (rev ks) i xs j"
      using snoc.prems False by (intro IH) auto
    finally show ?thesis using False by simp
  next
    case True
    with snoc.prems(5) obtain ys zs where s: "xs = ys @ k # zs" "takeWhile (\<lambda>x. x \<noteq> k) xs = ys"
      "tl (dropWhile (\<lambda>x. x \<noteq> k) xs) = zs" "k \<notin> set ys" "k \<notin> set zs" "distinct ys" "distinct zs"
      by (rule split_at)
    have sub: "set ys \<subseteq> set ks" "set zs \<subseteq> set ks" "k \<in> set vs"
      using snoc.prems(2,6) s(1,4,5) by auto
    have "cost_at (fw_round vs k ?m) i j
        \<le> split_cost (cost_at m) (rev ks) i ys k + split_cost (cost_at m) (rev ks) k zs j"
      using mod len assms(3) snoc.prems(3,4) IH [of i k ys] IH [of k j zs] sub s(6,7)
      by (intro round_improves) auto
    then show ?thesis using True s(2,3) by simp
  qed
qed

section \<open>Vertices and the initial matrix\<close>

definition vertices_of :: "edge list \<Rightarrow> nat set" where
  "vertices_of edges = (\<Union>e \<in> set edges. {source (e_pair e), target (e_pair e)})"

abbreviation scan_vertices :: "edge list \<Rightarrow> nat list" where
  "scan_vertices edges \<equiv> fst (fw_scan edges)"

lemma scan_vertices_fold:
  "sorted (fst s) \<Longrightarrow> distinct (fst s) \<Longrightarrow>
     set (fst (fold fw_scan_edge es s)) = set (fst s) \<union> vertices_of es \<and>
     sorted (fst (fold fw_scan_edge es s)) \<and> distinct (fst (fold fw_scan_edge es s))"
proof (induction es arbitrary: s)
  case Nil
  then show ?case by (simp add: vertices_of_def)
next
  case (Cons e es)
  have f: "fst (fw_scan_edge e s) =
      insort_insert (target (e_pair e)) (insort_insert (source (e_pair e)) (fst s))"
    by (simp add: fw_scan_edge_def bs_insert_def split: prod.split)
  from Cons.IH [of "fw_scan_edge e s"] Cons.prems show ?case
    by (auto simp: f sorted_insort_insert distinct_insort_insert set_insort_insert vertices_of_def)
qed

lemma scan_vertices:
  "set (scan_vertices es) = vertices_of es" "sorted (scan_vertices es)" "distinct (scan_vertices es)"
  using scan_vertices_fold [of "([], [], [])" es] by (simp_all add: fw_scan_def)

lemma length_scan_vertices: "length (scan_vertices es) = card (vertices_of es)"
  by (metis distinct_card scan_vertices(1,3))

text \<open>The cost of the single edge from \<open>i\<close> to \<open>j\<close>, zero for staying where one is.\<close>

definition direct_cost :: "edge list \<Rightarrow> nat \<Rightarrow> nat \<Rightarrow> f64" where
  "direct_cost edges i j =
     (case find (\<lambda>e. e_pair e = Pair i j) edges of
        Some e \<Rightarrow> e_cost e
      | None \<Rightarrow> if i = j then 0 else PInf)"

lemma fw_init_collect:
  "fw_init vs es =
     bm.collect (map (\<lambda>e. (e_pair e, \<lparr>p_cost = e_cost e, p_edges = [e]\<rparr>)) es)
       (bm.collect (map (\<lambda>v. (Pair v v, \<lparr>p_cost = 0, p_edges = []\<rparr>)) vs) [])"
  by (simp add: fw_init_def bm.collect_def fold_map comp_def)

lemma fw_init_wf: "bm_wf (fw_init vs es)"
  by (simp add: fw_init_collect bm.wf_collect)

lemma fw_init_mat:
  assumes "distinct (map e_pair es)"
  shows "mat (fw_init vs es) i j =
     (case find (\<lambda>e. e_pair e = Pair i j) es of
        Some e \<Rightarrow> Some \<lparr>p_cost = e_cost e, p_edges = [e]\<rparr>
      | None \<Rightarrow> if i = j \<and> i \<in> set vs then Some \<lparr>p_cost = 0, p_edges = []\<rparr> else None)"
proof -
  have diag: "bm_get (bm.collect (map (\<lambda>v. (Pair v v, \<lparr>p_cost = 0, p_edges = []\<rparr>)) vs) []) (Pair i j) =
      (if i = j \<and> i \<in> set vs then Some \<lparr>p_cost = 0, p_edges = []\<rparr> else None)"
  proof -
    have "map_of (rev (map (\<lambda>v. (Pair v v, \<lparr>p_cost = 0, p_edges = []\<rparr>)) us)) (Pair i j) =
        (if i = j \<and> i \<in> set us then Some \<lparr>p_cost = 0 :: f64, p_edges = [] :: edge list\<rparr> else None)" for us
      by (induction us) (auto simp: map_add_def split: option.split)
    then show ?thesis by (simp add: bm.get_collect bm.get_empty)
  qed
  have over: "map_of (rev (map (\<lambda>e. (e_pair e, \<lparr>p_cost = e_cost e, p_edges = [e]\<rparr>)) es)) (Pair i j) =
      map_option (\<lambda>e. \<lparr>p_cost = e_cost e, p_edges = [e]\<rparr>) (find (\<lambda>e. e_pair e = Pair i j) es)"
    using assms
  proof (induction es)
    case (Cons e es)
    then have "find (\<lambda>e. e_pair e = Pair i j) es = None" if "e_pair e = Pair i j"
      using that by (force simp: find_None_iff)
    with Cons show ?case by (auto simp: map_add_def split: option.split)
  qed simp
  have "bm_wf (bm.collect (map (\<lambda>v. (Pair v v, \<lparr>p_cost = 0, p_edges = []\<rparr>)) vs) [])"
    by (simp add: bm.wf_collect)
  from bm.get_collect [OF this, of "map (\<lambda>e. (e_pair e, \<lparr>p_cost = e_cost e, p_edges = [e]\<rparr>)) es" "Pair i j"]
  show ?thesis
    unfolding mat_def fw_init_collect over diag
    by (cases "find (\<lambda>e. e_pair e = Pair i j) es") simp_all
qed

lemma fw_init_cost:
  "distinct (map e_pair es) \<Longrightarrow> i \<in> set vs \<Longrightarrow> cost_at (fw_init vs es) i j = direct_cost es i j"
  by (simp add: cost_at_def fw_init_mat direct_cost_def split: option.split)

lemma fw_init_moderate:
  assumes "distinct (map e_pair es)" "\<forall>e \<in> set es. cost_in b (e_cost e)"
  shows "moderate b (fw_init vs es)"
proof -
  have "cost_in b (e_cost e)" if "find P es = Some e" for P e
    using that assms(2) by (auto simp: find_Some_iff)
  then show ?thesis
    by (auto simp: moderate_def fw_init_wf cost_at_def fw_init_mat [OF assms(1)] split: option.split)
qed

end
