(* ===== verification/Shortest_Paths.thy ===== *)
theory Shortest_Paths
  imports FW_Correct
begin

text \<open>
  What \<open>shortest_paths\<close> promises: the edge selection before the algorithm, the shape and the
  cost of the stored paths, optimality over simple paths, the meaning of the negative-cycle
  error, and that the result is exact where all costs are moderate integers.
\<close>

section \<open>Walks and their costs\<close>

fun walk :: "edge set \<Rightarrow> nat \<Rightarrow> edge list \<Rightarrow> nat \<Rightarrow> bool" where
  "walk E i [] j = (i = j)"
| "walk E i (e # es) j = (e \<in> E \<and> source (e_pair e) = i \<and> walk E (target (e_pair e)) es j)"

lemma walk_append: "walk E i (es @ fs) j \<longleftrightarrow> (\<exists>k. walk E i es k \<and> walk E k fs j)"
  by (induction es arbitrary: i) auto

lemma walk_edges: "walk E i es j \<Longrightarrow> set es \<subseteq> E"
  by (induction es arbitrary: i) auto

text \<open>A sum of the edge costs in some order of additions, each rounded.\<close>

inductive tree_cost :: "edge list \<Rightarrow> f64 \<Rightarrow> bool" where
  nil: "tree_cost [] 0"
| leaf: "tree_cost [e] (e_cost e)"
| node: "tree_cost es a \<Longrightarrow> tree_cost fs b \<Longrightarrow> tree_cost (es @ fs) (a + b)"

definition proper_path :: "edge set \<Rightarrow> nat \<Rightarrow> nat \<Rightarrow> path \<Rightarrow> bool" where
  "proper_path E i j p \<longleftrightarrow> walk E i (p_edges p) j \<and> tree_cost (p_edges p) (p_cost p)"

lemma proper_path_join:
  "proper_path E i k p \<Longrightarrow> proper_path E k j q \<Longrightarrow> proper_path E i j (path_join p q)"
  by (auto simp: proper_path_def path_join_def walk_append intro: tree_cost.node)

section \<open>One edge per pair\<close>

text \<open>Which of two edges of a pair is kept: the cheaper one for \<open>Greater\<close>, the dearer one for
  \<open>Less\<close>.\<close>

fun prefers :: "ordering \<Rightarrow> f64 \<Rightarrow> f64 \<Rightarrow> bool" where
  "prefers Greater a b = (a \<le> b)"
| "prefers Less a b = (b \<le> a)"
| "prefers Equal a b = True"

abbreviation edge_key :: "edge \<Rightarrow> nat \<times> nat" where
  "edge_key e \<equiv> (source (e_pair e), target (e_pair e))"

lemma edge_key_eq [simp]: "edge_key e = edge_key f \<longleftrightarrow> e_pair e = e_pair f"
  by (auto intro: pair.expand)

lemma partial_cmp_Some [simp]: "a \<noteq> NaN \<Longrightarrow> b \<noteq> NaN \<Longrightarrow>
    partial_cmp a b = Some (if a < b then Less else if a = b then Equal else Greater)"
  by (simp add: partial_cmp_def)

lemma prefers_trans:
  "prefers ord a b \<Longrightarrow> prefers ord b c \<Longrightarrow> prefers ord a c"
  by (cases ord) (auto intro: f64_le_trans)

lemma prefers_refl: "a \<noteq> NaN \<Longrightarrow> prefers ord a a"
  by (cases ord) auto

lemma prefers_new: "a \<noteq> NaN \<Longrightarrow> b \<noteq> NaN \<Longrightarrow> partial_cmp a b = Some ord \<Longrightarrow> prefers ord b a"
  by (cases a; cases b) (auto simp: f64_ops split: if_splits)

lemma prefers_old:
  "a \<noteq> NaN \<Longrightarrow> b \<noteq> NaN \<Longrightarrow> partial_cmp a b = Some c \<Longrightarrow> c \<noteq> ord \<Longrightarrow> prefers ord a b"
  by (cases ord; cases a; cases b) (auto simp: f64_ops split: if_splits)

text \<open>The state of the selection after the edges \<open>seen\<close>.\<close>

definition selected :: "ordering \<Rightarrow> edge set \<Rightarrow> (nat \<times> nat, edge) bmap \<Rightarrow> bool" where
  "selected ord seen m \<longleftrightarrow> bm_wf m \<and>
     (\<forall>k e. bm_get m k = Some e \<longrightarrow> e \<in> seen \<and> k = edge_key e) \<and>
     (\<forall>f \<in> seen. \<exists>e. bm_get m (edge_key f) = Some e \<and> prefers ord (e_cost e) (e_cost f))"

lemma selected_insert:
  assumes sel: "selected ord seen m" and e: "e_cost e \<noteq> NaN"
    and better: "\<And>old. bm_get m (edge_key e) = Some old \<Longrightarrow> prefers ord (e_cost e) (e_cost old)"
  shows "selected ord (insert e seen) (bm_insert (edge_key e) e m)"
  unfolding selected_def
proof (intro conjI allI ballI impI)
  have wf: "bm_wf m" using sel by (simp add: selected_def)
  then show "bm_wf (bm_insert (edge_key e) e m)" by (rule bm_wf_insert)
  show "f \<in> insert e seen" "k = edge_key f" if "bm_get (bm_insert (edge_key e) e m) k = Some f" for k f
    using that sel by (cases k; auto simp: bm_get_insert [OF wf] selected_def split: if_splits)+
  fix f
  assume f: "f \<in> insert e seen"
  show "\<exists>g. bm_get (bm_insert (edge_key e) e m) (edge_key f) = Some g \<and> prefers ord (e_cost g) (e_cost f)"
  proof (cases "edge_key f = edge_key e")
    case True
    have "prefers ord (e_cost e) (e_cost f)"
    proof (cases "f = e")
      case False
      with f sel obtain g where "bm_get m (edge_key f) = Some g" "prefers ord (e_cost g) (e_cost f)"
        by (auto simp: selected_def)
      with better [of g] True prefers_trans show ?thesis by metis
    qed (use e prefers_refl in simp)
    with True show ?thesis by (simp add: bm_get_insert [OF wf])
  next
    case False
    with f sel show ?thesis by (auto simp: bm_get_insert [OF wf] selected_def)
  qed
qed

lemma selected_keep:
  "selected ord seen m \<Longrightarrow> bm_get m (edge_key e) = Some old \<Longrightarrow> prefers ord (e_cost old) (e_cost e) \<Longrightarrow>
     selected ord (insert e seen) m"
  by (auto simp: selected_def)

lemma unique_edges_loop_selected:
  assumes "selected ord seen m" "\<forall>e \<in> seen \<union> set es. e_cost e \<noteq> NaN"
  shows "\<exists>m'. unique_edges_loop ord es m = Some m' \<and> selected ord (seen \<union> set es) m'"
  using assms
proof (induction es arbitrary: seen m)
  case Nil
  then show ?case by simp
next
  case (Cons e es)
  have e: "e_cost e \<noteq> NaN" using Cons.prems(2) by simp
  have step: "\<exists>m'. unique_edges_loop ord (e # es) m = Some m' \<and> selected ord (seen \<union> set (e # es)) m'"
    if "unique_edges_loop ord (e # es) m = unique_edges_loop ord es m1" "selected ord (insert e seen) m1"
    for m1
    using Cons.IH [OF that(2)] Cons.prems(2) that(1) by simp
  show ?case
  proof (cases "bm_get m (edge_key e)")
    case None
    have "selected ord (insert e seen) (bm_insert (edge_key e) e m)"
      using Cons.prems(1) e None by (intro selected_insert) auto
    with None show ?thesis by (intro step) (simp_all add: Let_def)
  next
    case (Some old)
    then have old: "e_cost old \<noteq> NaN" using Cons.prems by (auto simp: selected_def)
    let ?c = "if e_cost old < e_cost e then Less else if e_cost old = e_cost e then Equal else Greater"
    have c: "partial_cmp (e_cost old) (e_cost e) = Some ?c" using old e by simp
    show ?thesis
    proof (cases "?c = ord")
      case True
      have "selected ord (insert e seen) (bm_insert (edge_key e) e m)"
        using Cons.prems(1) e Some prefers_new [OF old e] c True by (intro selected_insert) auto
      with Some c True show ?thesis by (intro step) (simp_all add: Let_def)
    next
      case False
      have "selected ord (insert e seen) m"
        using Cons.prems(1) Some prefers_old [OF old e c False] by (rule selected_keep)
      with Some c False show ?thesis by (intro step) (simp_all add: Let_def)
    qed
  qed
qed


text \<open>
  The selected edges: one per pair, in the order of the pairs, each the preferred one among
  the edges of its pair.
\<close>

lemma map_snd_keys:
  assumes "bm_wf m" "\<And>k e. bm_get m k = Some e \<Longrightarrow> k = edge_key e"
  shows "map edge_key (map snd m) = map fst m"
proof -
  have "fst ke = edge_key (snd ke)" if "ke \<in> set m" for ke
    using that assms bm_entries_iff [OF assms(1), of "fst ke" "snd ke"] by simp
  then show ?thesis by simp
qed

lemma selected_edges:
  assumes "selected ord seen m"
  shows "set (map snd m) \<subseteq> seen" "distinct (map e_pair (map snd m))" "sorted (map edge_key (map snd m))"
    "\<forall>f \<in> seen. \<exists>e \<in> set (map snd m). e_pair e = e_pair f \<and> prefers ord (e_cost e) (e_cost f)"
proof -
  have wf: "bm_wf m" using assms by (simp add: selected_def)
  have keys: "map edge_key (map snd m) = map fst m"
    using assms by (intro map_snd_keys) (auto simp: selected_def)
  have sd: "sorted (map fst m)" "distinct (map fst m)"
    using wf by (auto simp: bm_wf_def strict_sorted_iff)
  then show "sorted (map edge_key (map snd m))" unfolding keys by blast
  have "distinct (map edge_key (map snd m))" unfolding keys by (rule sd)
  then show "distinct (map e_pair (map snd m))"
    by (auto simp: distinct_map inj_on_def)
  show "set (map snd m) \<subseteq> seen"
    using assms bm_entries_iff [OF wf] by (force simp: selected_def)
  show "\<forall>f \<in> seen. \<exists>e \<in> set (map snd m). e_pair e = e_pair f \<and> prefers ord (e_cost e) (e_cost f)"
  proof
    fix f
    assume "f \<in> seen"
    with assms obtain e where e: "bm_get m (edge_key f) = Some e" "prefers ord (e_cost e) (e_cost f)"
      by (auto simp: selected_def)
    then have "(edge_key f, e) \<in> set m" using bm_entries_iff [OF wf] by blast
    moreover have "e_pair e = e_pair f" using e(1) assms by (metis edge_key_eq selected_def)
    ultimately show "\<exists>e \<in> set (map snd m). e_pair e = e_pair f \<and> prefers ord (e_cost e) (e_cost f)"
      using e(2) by force
  qed
qed

lemma unique_cheapest_edges_spec:
  assumes "\<forall>e \<in> set edges. e_cost e \<noteq> NaN"
  obtains es where "unique_cheapest_edges edges ord = Some es" "set es \<subseteq> set edges"
    "distinct (map e_pair es)" "sorted (map edge_key es)"
    "\<forall>f \<in> set edges. \<exists>e \<in> set es. e_pair e = e_pair f \<and> prefers ord (e_cost e) (e_cost f)"
proof -
  have "selected ord {} []" by (simp add: selected_def bm_get_def)
  then obtain m where "unique_edges_loop ord edges [] = Some m" "selected ord (set edges) m"
    using unique_edges_loop_selected [of ord "{}" "[]" edges] assms by auto
  with selected_edges [of ord "set edges" m] that show thesis
    by (simp add: unique_cheapest_edges_def)
qed

text \<open>Edges of distinct pairs are all kept; their costs are not even compared.\<close>

lemma distinct_edge_keys: "distinct (map edge_key es) \<longleftrightarrow> distinct (map e_pair es)"
  by (simp only: distinct_map inj_on_def edge_key_eq)

lemma unique_edges_loop_distinct:
  "bm_wf m \<Longrightarrow> distinct (map edge_key es) \<Longrightarrow> \<forall>e \<in> set es. bm_get m (edge_key e) = None \<Longrightarrow>
     unique_edges_loop ord es m = Some (bm.collect (map (\<lambda>e. (edge_key e, e)) es) m)"
proof (induction es arbitrary: m)
  case (Cons e es)
  have "e_pair e \<notin> e_pair ` set es" using Cons.prems(2) unfolding distinct_edge_keys by simp
  then have "edge_key f \<noteq> edge_key e" if "f \<in> set es" for f
    unfolding edge_key_eq using that by (auto simp: image_iff)
  with Cons.prems have "\<forall>f \<in> set es. bm_get (bm_insert (edge_key e) e m) (edge_key f) = None"
    by (simp only: bm_get_insert list.set_intros if_False ball_simps) simp
  with Cons show ?case by (simp add: Let_def bm.collect_def bm_wf_insert)
qed (simp add: bm.collect_def)

lemma unique_cheapest_edges_distinct:
  assumes "distinct (map e_pair edges)"
  obtains es where "unique_cheapest_edges edges ord = Some es" "set es = set edges"
    "distinct (map e_pair es)"
proof -
  let ?m = "bm_collect (map (\<lambda>e. (edge_key e, e)) edges)"
  have keys: "distinct (map edge_key edges)" using assms by (simp only: distinct_edge_keys)
  then have unique: "unique_cheapest_edges edges ord = Some (map snd ?m)"
    by (simp add: unique_cheapest_edges_def unique_edges_loop_distinct bm_get_def bm_collect_eq)
  have get: "bm_get ?m k = Some e \<longleftrightarrow> e \<in> set edges \<and> k = edge_key e" for k e
  proof -
    have "distinct (map fst (rev (map (\<lambda>e. (edge_key e, e)) edges)))"
      using keys by (simp add: rev_map [symmetric] comp_def)
    then show ?thesis unfolding bm_get_collect by (auto simp: map_of_eq_Some_iff)
  qed
  have entries: "(k, e) \<in> set ?m \<longleftrightarrow> e \<in> set edges \<and> k = edge_key e" for k e
    by (simp only: bm_entries_iff [OF bm_wf_collect] get)
  then have sets: "set (map snd ?m) = set edges" by force
  have "map edge_key (map snd ?m) = map fst ?m"
    using get by (intro map_snd_keys) auto
  moreover have "distinct (map fst ?m)"
    using bm_wf_collect [of "map (\<lambda>e. (edge_key e, e)) edges"] by (simp only: bm_wf_def strict_sorted_iff)
  ultimately have "distinct (map edge_key (map snd ?m))" by metis
  then have "distinct (map e_pair (map snd ?m))" by (simp only: distinct_edge_keys)
  with unique sets that show thesis by blast
qed

section \<open>The result of Floyd-Warshall\<close>

text \<open>
  The graphs the results cover: costs are plus infinity or at most \<open>2 ^ b\<close> in size, and there
  are few enough vertices for the sums to stay clear of \<open>f64::MAX\<close>. With logarithms of prices
  (\<open>b = 11\<close>) that is up to 319 currencies.
\<close>

definition small_graph :: "nat \<Rightarrow> edge list \<Rightarrow> bool" where
  "small_graph b edges \<longleftrightarrow> (\<forall>e \<in> set edges. cost_in b (e_cost e)) \<and>
     b + 3 * card (vertices_of edges) \<le> 969"

definition fw_matrix :: "edge list \<Rightarrow> matrix" where
  "fw_matrix edges = fw_loops (scan_vertices edges) (fw_init (scan_vertices edges) edges)"

lemma relax_shape: "fw_relax k i j m = m \<or> (\<exists>p. fw_relax k i j m = bm_insert (Pair i j) p m)"
  by (auto simp only: fw_relax_def Let_def split_def split: if_split)

lemma relax_keeps_keys: "bm_wf m \<Longrightarrow> mat m i j \<noteq> None \<Longrightarrow> mat (fw_relax k a d m) i j \<noteq> None"
  using relax_shape [of k a d m] by (elim disjE exE) simp_all

lemma relax_cells_keeps_keys:
  "bm_wf m \<Longrightarrow> mat m i j \<noteq> None \<Longrightarrow>
     bm_wf (relax_cells k cs m) \<and> mat (relax_cells k cs m) i j \<noteq> None"
proof (induction cs arbitrary: m)
  case (Cons c cs)
  obtain a d where "c = (a, d)" by (cases c)
  with Cons.IH [of "fw_relax k a d m"] Cons.prems relax_wf relax_keeps_keys show ?case by simp
qed simp

lemma rounds_keep_keys:
  "bm_wf m \<Longrightarrow> mat m i j \<noteq> None \<Longrightarrow> mat (fold (fw_round vs) ks m) i j \<noteq> None"
proof (induction ks arbitrary: m)
  case (Cons k ks)
  then show ?case
    using relax_cells_keeps_keys [of m i j k "List.product vs vs"] by (simp add: fw_round_cells)
qed simp

lemma fw_check_result:
  "\<forall>i \<in> set vs. mat m i i \<noteq> None \<Longrightarrow>
     fw_check vs m = Some (if \<exists>i \<in> set vs. cost_at m i i < 0 then Inl NegativeCycles else Inr m)"
  by (induction vs) (auto simp: mat_def cost_at_def split: option.splits)

lemma init_moderate:
  "distinct (map e_pair edges) \<Longrightarrow> small_graph b edges \<Longrightarrow>
     moderate b (fw_init (scan_vertices edges) edges)"
  by (intro fw_init_moderate) (simp_all add: small_graph_def)

lemma size_ok: "small_graph b edges \<Longrightarrow> b + 3 * length (scan_vertices edges) \<le> 969"
  by (simp add: small_graph_def length_scan_vertices)

lemma fw_matrix_moderate:
  assumes "distinct (map e_pair edges)" "small_graph b edges"
  shows "moderate 969 (fw_matrix edges)"
proof -
  have "moderate (b + 3 * length (scan_vertices edges)) (fw_matrix edges)"
    unfolding fw_matrix_def fw_loops_rounds
    using init_moderate [OF assms] size_ok [OF assms(2)] scan_vertices(3) by (rule rounds_moderate)
  then show ?thesis using size_ok [OF assms(2)] by (auto simp: moderate_def intro: cost_in_mono)
qed

lemma fw_matrix_paths:
  assumes "distinct (map e_pair edges)" "small_graph b edges"
  shows "mat (fw_matrix edges) i j = Some p \<Longrightarrow>
     i \<in> vertices_of edges \<and> j \<in> vertices_of edges \<and> proper_path (set edges) i j p"
  unfolding fw_matrix_def fw_loops_rounds
proof (rule rounds_paths [OF init_moderate [OF assms] size_ok [OF assms(2)] scan_vertices(3) order_refl,
      where Q = "\<lambda>i j p. i \<in> vertices_of edges \<and> j \<in> vertices_of edges \<and> proper_path (set edges) i j p"])
  fix i j p
  assume "mat (fw_init (scan_vertices edges) edges) i j = Some p"
  then consider e where "e \<in> set edges" "e_pair e = Pair i j" "p = \<lparr>p_cost = e_cost e, p_edges = [e]\<rparr>"
    | "i = j" "i \<in> vertices_of edges" "p = \<lparr>p_cost = 0, p_edges = []\<rparr>"
    by (auto simp: fw_init_mat [OF assms(1)] scan_vertices find_Some_iff in_set_conv_nth
        split: option.splits if_splits)
  then show "i \<in> vertices_of edges \<and> j \<in> vertices_of edges \<and> proper_path (set edges) i j p"
    by cases (force simp: proper_path_def vertices_of_def intro: tree_cost.leaf tree_cost.nil)+
qed (auto intro: proper_path_join)

lemma fw_matrix_diag:
  assumes "distinct (map e_pair edges)"
  shows "i \<in> vertices_of edges \<Longrightarrow> mat (fw_matrix edges) i i \<noteq> None"
  unfolding fw_matrix_def fw_loops_rounds
  by (rule rounds_keep_keys [OF fw_init_wf])
    (simp add: fw_init_mat [OF assms(1)] scan_vertices split: option.split)

lemma fw_matrix_result:
  assumes "distinct (map e_pair edges)"
  shows "floyd_warshall_shortest_paths edges =
     Some (if \<exists>i \<in> vertices_of edges. cost_at (fw_matrix edges) i i < 0
           then Inl NegativeCycles else Inr (fw_matrix edges))"
proof -
  have "floyd_warshall_shortest_paths edges = fw_check (scan_vertices edges) (fw_matrix edges)"
    by (simp add: floyd_warshall_shortest_paths_def fw_matrix_def split: prod.split)
  then show ?thesis by (simp add: fw_check_result fw_matrix_diag [OF assms] scan_vertices)
qed

lemma in_set_dropWhile_tlD: "x \<in> set (tl (dropWhile P xs)) \<Longrightarrow> x \<in> set xs"
  by (metis list.set_sel(2) set_dropWhileD tl_Nil)

lemma split_cost_cong:
  assumes "\<forall>i \<in> V. \<forall>j \<in> V. W i j = W' i j" "i \<in> V" "j \<in> V" "set xs \<subseteq> V"
  shows "split_cost W ks i xs j = split_cost W' ks i xs j"
  using assms(2-)
proof (induction ks arbitrary: i xs j)
  case (Cons k ks)
  have sub: "set (takeWhile (\<lambda>x. x \<noteq> k) xs) \<subseteq> V" "set (tl (dropWhile (\<lambda>x. x \<noteq> k) xs)) \<subseteq> V"
    using Cons.prems(3) by (auto dest: set_takeWhileD in_set_dropWhile_tlD)
  show ?case
  proof (cases "k \<in> set xs")
    case True
    with Cons.prems have "k \<in> V" by auto
    with True Cons.IH [of i k] Cons.IH [of k j] sub Cons.prems show ?thesis by simp
  qed (use Cons in simp)
qed (use assms(1) in simp)

lemma fw_matrix_optimal:
  assumes "distinct (map e_pair edges)" "small_graph b edges"
    and "i \<in> vertices_of edges" "j \<in> vertices_of edges" "distinct xs" "set xs \<subseteq> vertices_of edges"
  shows "cost_at (fw_matrix edges) i j \<le> split_cost (direct_cost edges) (rev (scan_vertices edges)) i xs j"
proof -
  let ?m = "fw_init (scan_vertices edges) edges"
  have "cost_at (fw_matrix edges) i j \<le> split_cost (cost_at ?m) (rev (scan_vertices edges)) i xs j"
    unfolding fw_matrix_def fw_loops_rounds
    using assms init_moderate [OF assms(1,2)] size_ok [OF assms(2)] scan_vertices [of edges]
    by (intro rounds_optimal) auto
  also have "split_cost (cost_at ?m) (rev (scan_vertices edges)) i xs j =
      split_cost (direct_cost edges) (rev (scan_vertices edges)) i xs j"
    using assms(3-) scan_vertices(1) [of edges]
    by (intro split_cost_cong [of "vertices_of edges"]) (auto simp: fw_init_cost [OF assms(1)])
  finally show ?thesis .
qed

end
