(* ===== verification/Path_Results.thy ===== *)
theory Path_Results
  imports Shortest_Paths
begin

text \<open>
  The theorems about \<open>shortest_paths\<close>: it returns, its paths are walks of the graph whose cost
  is their rounded sum, no simple path is cheaper, an error is a negative cycle; and on integer
  costs, where nothing is rounded, it computes the true distances and the error is exactly the
  presence of a negative cycle.
\<close>

section \<open>From the selection to the matrix\<close>

lemma vertices_of_selected:
  assumes "set es \<subseteq> set edges" "\<forall>f \<in> set edges. \<exists>e \<in> set es. e_pair e = e_pair f \<and> P e f"
  shows "vertices_of es = vertices_of edges"
  using assms unfolding vertices_of_def by (auto; metis subsetD)+

lemma small_graph_not_NaN: "small_graph b edges \<Longrightarrow> \<forall>e \<in> set edges. e_cost e \<noteq> NaN"
  by (auto simp: small_graph_def dest: cost_in_not_NaN)

lemma shortest_paths_selects:
  assumes "\<forall>e \<in> set edges. e_cost e \<noteq> NaN"
  obtains es where "unique_cheapest_edges edges Less = Some es" "set es \<subseteq> set edges"
    "distinct (map e_pair es)" "vertices_of es = vertices_of edges"
    "shortest_paths edges =
       Some (if \<exists>i \<in> vertices_of edges. cost_at (fw_matrix es) i i < 0
             then Inl NegativeCycles else Inr (fw_matrix es))"
proof -
  from assms obtain es where es: "unique_cheapest_edges edges Less = Some es" "set es \<subseteq> set edges"
    "distinct (map e_pair es)"
    "\<forall>f \<in> set edges. \<exists>e \<in> set es. e_pair e = e_pair f \<and> prefers Less (e_cost e) (e_cost f)"
    by (rule unique_cheapest_edges_spec)
  from es(2,4) have "vertices_of es = vertices_of edges" by (rule vertices_of_selected)
  with es that fw_matrix_result [OF es(3)] show thesis by (simp add: shortest_paths_def)
qed

text \<open>With one edge per pair the costs are not compared, so a NaN does no harm.\<close>

lemma shortest_paths_distinct:
  assumes "distinct (map e_pair edges)"
  obtains es where "unique_cheapest_edges edges Less = Some es" "set es = set edges"
    "distinct (map e_pair es)"
    "shortest_paths edges =
       Some (if \<exists>i \<in> vertices_of edges. cost_at (fw_matrix es) i i < 0
             then Inl NegativeCycles else Inr (fw_matrix es))"
proof -
  from assms obtain es where es: "unique_cheapest_edges edges Less = Some es" "set es = set edges"
    "distinct (map e_pair es)" by (rule unique_cheapest_edges_distinct)
  then have "vertices_of es = vertices_of edges" by (simp add: vertices_of_def)
  with es that fw_matrix_result [OF es(3)] show thesis by (simp add: shortest_paths_def)
qed

lemma small_graph_selected:
  "small_graph b edges \<Longrightarrow> set es \<subseteq> set edges \<Longrightarrow> vertices_of es = vertices_of edges \<Longrightarrow> small_graph b es"
  by (auto simp: small_graph_def)

lemma proper_path_mono: "E \<subseteq> F \<Longrightarrow> proper_path E i j p \<Longrightarrow> proper_path F i j p"
proof -
  assume "E \<subseteq> F"
  then have "walk E i es j \<Longrightarrow> walk F i es j" for es i by (induction es arbitrary: i) auto
  then show "proper_path E i j p \<Longrightarrow> proper_path F i j p" by (auto simp: proper_path_def)
qed

section \<open>Integer costs\<close>

definition int_cost :: "edge \<Rightarrow> int" where
  "int_cost e = (case e_cost e of Fin x \<Rightarrow> \<lfloor>x\<rfloor> | _ \<Rightarrow> 0)"

definition int_sum :: "edge list \<Rightarrow> int" where
  "int_sum es = sum_list (map int_cost es)"

lemma int_sum_simps [simp]:
  "int_sum [] = 0" "int_sum (e # es) = int_cost e + int_sum es"
  "int_sum (es @ fs) = int_sum es + int_sum fs"
  by (simp_all add: int_sum_def)

text \<open>All costs are integers of at most \<open>2 ^ b\<close>, and sums stay below \<open>2 ^ 53\<close>, where a double
  holds every integer.\<close>

definition int_graph :: "nat \<Rightarrow> edge list \<Rightarrow> bool" where
  "int_graph b edges \<longleftrightarrow>
     (\<forall>e \<in> set edges. e_cost e = Fin (of_int (int_cost e)) \<and> \<bar>int_cost e\<bar> \<le> 2 ^ b) \<and>
     b + 3 * card (vertices_of edges) \<le> 51"

lemma abs_of_int_le_pow2: "\<bar>real_of_int k\<bar> \<le> 2 ^ n \<longleftrightarrow> \<bar>k\<bar> \<le> 2 ^ n"
  by (metis of_int_abs of_int_le_iff of_int_numeral of_int_power)

lemma int_graph_small: "int_graph b edges \<Longrightarrow> small_graph b edges"
  using abs_of_int_le_pow2 by (auto simp: int_graph_def small_graph_def)

definition exact_path :: "edge set \<Rightarrow> nat \<Rightarrow> nat \<Rightarrow> path \<Rightarrow> bool" where
  "exact_path E i j p \<longleftrightarrow> walk E i (p_edges p) j \<and> p_cost p = Fin (of_int (int_sum (p_edges p)))"

lemma exact_path_join:
  assumes "exact_path E i k p" "exact_path E k j q" "cost_in 51 (p_cost p)" "cost_in 51 (p_cost q)"
  shows "exact_path E i j (path_join p q)"
proof -
  let ?a = "int_sum (p_edges p)" and ?b = "int_sum (p_edges q)"
  have "\<bar>?a\<bar> \<le> 2 ^ 51" "\<bar>?b\<bar> \<le> 2 ^ 51"
    using assms by (simp_all only: exact_path_def cost_in.simps abs_of_int_le_pow2)
  then have "\<bar>?a + ?b\<bar> < 2 ^ 53" by simp
  from Fin_add_of_int [OF this] assms show ?thesis
    by (auto simp: exact_path_def path_join_def walk_append)
qed

lemma fw_matrix_exact:
  assumes "distinct (map e_pair edges)" "int_graph b edges"
  shows "mat (fw_matrix edges) i j = Some p \<Longrightarrow> exact_path (set edges) i j p"
  unfolding fw_matrix_def fw_loops_rounds
proof (rule rounds_paths [OF init_moderate [OF assms(1) int_graph_small [OF assms(2)]]
      size_ok [OF int_graph_small [OF assms(2)]] scan_vertices(3), where c = 51 and Q = "exact_path (set edges)"])
  show "b + 3 * length (scan_vertices edges) \<le> 51"
    using assms(2) by (simp add: int_graph_def length_scan_vertices)
  fix i j p
  assume "mat (fw_init (scan_vertices edges) edges) i j = Some p"
  then consider e where "e \<in> set edges" "e_pair e = Pair i j" "p = \<lparr>p_cost = e_cost e, p_edges = [e]\<rparr>"
    | "i = j" "p = \<lparr>p_cost = 0, p_edges = []\<rparr>"
    by (auto simp: fw_init_mat [OF assms(1)] scan_vertices find_Some_iff in_set_conv_nth
        split: option.splits if_splits)
  then show "exact_path (set edges) i j p"
    using assms(2) by cases (auto simp: exact_path_def int_graph_def zero_f64_def)
qed (auto intro: exact_path_join)


section \<open>Every walk, on integer costs\<close>

text \<open>The vertices strictly inside a walk.\<close>

definition stops :: "edge list \<Rightarrow> nat list" where
  "stops ws = butlast (map (\<lambda>e. target (e_pair e)) ws)"

abbreviation end_of :: "edge list \<Rightarrow> nat" where
  "end_of ws \<equiv> target (e_pair (last ws))"

lemma stops_Cons: "stops (e # ws) = (if ws = [] then [] else target (e_pair e) # stops ws)"
  by (simp add: stops_def)

lemma stops_split:
  "stops ws = ys @ k # zs \<Longrightarrow>
     \<exists>us vs. ws = us @ vs \<and> us \<noteq> [] \<and> vs \<noteq> [] \<and> stops us = ys \<and> stops vs = zs \<and> end_of us = k"
proof (induction ys arbitrary: ws)
  case Nil
  then obtain e vs where ws: "ws = e # vs" "vs \<noteq> []" by (cases ws) (auto simp: stops_def split: if_splits)
  with Nil show ?case by (intro exI [of _ "[e]"] exI [of _ vs]) (simp add: stops_Cons stops_def)
next
  case (Cons y ys)
  then obtain e ws' where ws: "ws = e # ws'" "ws' \<noteq> []" "target (e_pair e) = y" "stops ws' = ys @ k # zs"
    by (cases ws) (auto simp: stops_Cons stops_def split: if_splits)
  from Cons.IH [OF ws(4)] obtain us vs where
    "ws' = us @ vs" "us \<noteq> []" "vs \<noteq> []" "stops us = ys" "stops vs = zs" "end_of us = k" by blast
  with ws show ?case by (intro exI [of _ "e # us"] exI [of _ vs]) (simp add: stops_Cons)
qed

lemma walk_split: "us \<noteq> [] \<Longrightarrow> walk E i (us @ vs) j \<Longrightarrow> walk E i us (end_of us) \<and> walk E (end_of us) vs j"
  by (induction us arbitrary: i) (auto split: if_splits)

lemma walk_join: "walk E i us k \<Longrightarrow> walk E k vs j \<Longrightarrow> walk E i (us @ vs) j"
  by (auto simp: walk_append)

lemma length_stops: "ws \<noteq> [] \<Longrightarrow> length ws = Suc (length (stops ws))"
  by (simp add: stops_def)

lemma set_stops: "walk (set edges) i ws j \<Longrightarrow> set (stops ws) \<subseteq> vertices_of edges"
  using walk_edges [of "set edges" i ws j] in_set_butlastD
  by (fastforce simp: stops_def vertices_of_def)

lemma walk_ends:
  "walk (set edges) i ws j \<Longrightarrow> ws \<noteq> [] \<Longrightarrow> i \<in> vertices_of edges \<and> j \<in> vertices_of edges"
proof (induction ws arbitrary: i)
  case (Cons e ws)
  then show ?case by (cases ws) (auto simp: vertices_of_def)
qed simp

lemma int_sum_bound:
  "\<forall>e \<in> set es. \<bar>int_cost e\<bar> \<le> B \<Longrightarrow> \<bar>int_sum es\<bar> \<le> int (length es) * B"
proof (induction es)
  case (Cons e es)
  then have "\<bar>int_cost e\<bar> \<le> B" "\<bar>int_sum es\<bar> \<le> int (length es) * B" by simp_all
  then show ?case by (simp add: distrib_right)
qed simp

lemma direct_cost_edge:
  assumes "distinct (map e_pair edges)" "e \<in> set edges" "e_pair e = Pair i j"
  shows "direct_cost edges i j = e_cost e"
proof -
  obtain f where f: "find (\<lambda>e. e_pair e = Pair i j) edges = Some f"
    using assms(2,3) by (cases "find (\<lambda>e. e_pair e = Pair i j) edges") (auto simp: find_None_iff)
  then have "f \<in> set edges" "e_pair f = Pair i j" by (auto simp: find_Some_iff in_set_conv_nth)
  with assms have "f = e" by (metis distinct_map inj_onD)
  with f show ?thesis by (simp add: direct_cost_def)
qed


lemma split_cost_exact:
  assumes distinct: "distinct (map e_pair edges)"
    and ints: "\<forall>e \<in> set edges. e_cost e = Fin (of_int (int_cost e)) \<and> \<bar>int_cost e\<bar> \<le> B"
  shows "walk (set edges) i ws j \<Longrightarrow> ws \<noteq> [] \<Longrightarrow> distinct (stops ws) \<Longrightarrow> set (stops ws) \<subseteq> set ks \<Longrightarrow>
     int (length ws) * B < 2 ^ 53 \<Longrightarrow>
     split_cost (direct_cost edges) ks i (stops ws) j = Fin (of_int (int_sum ws))"
proof (induction ks arbitrary: i ws j)
  case Nil
  then obtain e where ws: "ws = [e]" by (cases ws) (auto simp: stops_Cons split: if_splits)
  with Nil.prems have "e \<in> set edges" "e_pair e = Pair i j" by (auto intro: pair.expand)
  with direct_cost_edge [OF distinct] ints ws show ?case by (simp add: stops_Cons)
next
  case (Cons k ks)
  show ?case
  proof (cases "k \<in> set (stops ws)")
    case True
    from split_at [OF Cons.prems(3) True] obtain ys zs where xs: "stops ws = ys @ k # zs"
      "takeWhile (\<lambda>x. x \<noteq> k) (stops ws) = ys" "tl (dropWhile (\<lambda>x. x \<noteq> k) (stops ws)) = zs"
      "k \<notin> set ys" "k \<notin> set zs" "distinct ys" "distinct zs" by blast
    from stops_split [OF xs(1)] obtain us vs where uv: "ws = us @ vs" "us \<noteq> []" "vs \<noteq> []"
      "stops us = ys" "stops vs = zs" "end_of us = k" by blast
    from walk_split [OF uv(2)] uv Cons.prems(1)
    have walks: "walk (set edges) i us k" "walk (set edges) k vs j" by blast+
    have "0 \<le> B" using walk_edges [OF walks(1)] uv(2) ints by (cases us) force+
    then have "int (length us) * B \<le> int (length ws) * B" "int (length vs) * B \<le> int (length ws) * B"
      using uv(1) by (auto intro: mult_right_mono)
    with Cons.prems(5) have len: "int (length us) * B < 2 ^ 53" "int (length vs) * B < 2 ^ 53" by linarith+
    have sub: "set ys \<subseteq> set ks" "set zs \<subseteq> set ks" using Cons.prems(4) xs by auto
    have "split_cost (direct_cost edges) ks i ys k = Fin (of_int (int_sum us))"
      "split_cost (direct_cost edges) ks k zs j = Fin (of_int (int_sum vs))"
      using Cons.IH [OF walks(1) uv(2)] Cons.IH [OF walks(2) uv(3)] uv(4,5) xs(6,7) sub len by auto
    moreover have "\<bar>int_sum us + int_sum vs\<bar> < 2 ^ 53"
      using int_sum_bound [of ws B] Cons.prems(1,5) walk_edges ints uv(1) by fastforce
    ultimately show ?thesis using True xs(2,3) uv(1) Fin_add_of_int by simp
  qed (use Cons in auto)
qed

text \<open>The inside of a walk is simple, or the walk has a proper closed part.\<close>

lemma walk_cut:
  assumes "walk E i ws j" "\<not> distinct (stops ws)"
  obtains us cs vs k where "ws = us @ cs @ vs" "us \<noteq> []" "cs \<noteq> []" "vs \<noteq> []" "walk E i us k"
    "walk E k cs k" "walk E k vs j"
proof -
  from assms(2) obtain xs ys zs k where "stops ws = xs @ [k] @ ys @ [k] @ zs"
    using not_distinct_decomp by blast
  then have "stops ws = xs @ k # (ys @ k # zs)" by simp
  from stops_split [OF this] obtain us ws' where u: "ws = us @ ws'" "us \<noteq> []" "end_of us = k"
    "stops ws' = ys @ k # zs" by blast
  from stops_split [OF u(4)] obtain cs vs where c: "ws' = cs @ vs" "cs \<noteq> []" "vs \<noteq> []" "end_of cs = k"
    by blast
  from walk_split [OF u(2)] u assms(1) have w: "walk E i us k" "walk E k ws' j" by blast+
  from walk_split [OF c(2)] c w(2) have "walk E k cs k" "walk E k vs j" by blast+
  with that u c w show thesis by blast
qed


lemma fw_matrix_simple_walk:
  assumes distinct: "distinct (map e_pair edges)" and ints: "int_graph b edges"
    and ws: "walk (set edges) i ws j" "ws \<noteq> []" "distinct (stops ws)"
  shows "cost_at (fw_matrix edges) i j \<le> Fin (of_int (int_sum ws))"
proof -
  let ?n = "card (vertices_of edges)"
  have sub: "set (stops ws) \<subseteq> vertices_of edges" using ws(1) by (rule set_stops)
  have "finite (vertices_of edges)" by (simp add: vertices_of_def)
  with sub ws(3) have "length (stops ws) \<le> ?n" by (metis card_mono distinct_card)
  then have "length ws < 2 ^ ?n * 2"
    using length_stops [OF ws(2)] less_exp [of ?n] by linarith
  then have "length ws \<le> 2 ^ (?n + 1)" by simp
  also have "\<dots> \<le> 2 ^ (3 * ?n + 1)" by (rule power_increasing) simp_all
  finally have "length ws * 2 ^ b \<le> 2 ^ (3 * ?n + 1) * 2 ^ b" by simp
  also have "\<dots> = 2 ^ (b + 3 * ?n + 1)" by (simp add: power_add)
  also have "\<dots> \<le> 2 ^ 52" using ints by (intro power_increasing) (auto simp: int_graph_def)
  finally have "int (length ws * 2 ^ b) \<le> int (2 ^ 52)" unfolding of_nat_le_iff .
  then have len: "int (length ws) * 2 ^ b < 2 ^ 53" by simp
  have "cost_at (fw_matrix edges) i j \<le>
      split_cost (direct_cost edges) (rev (scan_vertices edges)) i (stops ws) j"
    using walk_ends [OF ws(1,2)] ws(3) sub
    by (intro fw_matrix_optimal [OF distinct int_graph_small [OF ints]]) auto
  also have "\<dots> = Fin (of_int (int_sum ws))"
    using distinct _ ws _ len
    by (rule split_cost_exact) (use ints sub in \<open>auto simp: int_graph_def scan_vertices\<close>)
  finally show ?thesis .
qed

lemma nonneg_below_Fin: "a \<le> Fin x \<Longrightarrow> \<not> a < 0 \<Longrightarrow> 0 \<le> x"
  by (cases a) (auto simp: f64_ops)

lemma fw_matrix_walk:
  assumes distinct: "distinct (map e_pair edges)" and ints: "int_graph b edges"
    and pos: "\<forall>i \<in> vertices_of edges. \<not> cost_at (fw_matrix edges) i i < 0"
  shows "walk (set edges) i ws j \<Longrightarrow> ws \<noteq> [] \<Longrightarrow>
     cost_at (fw_matrix edges) i j \<le> Fin (of_int (int_sum ws))"
proof (induction "length ws" arbitrary: i ws j rule: less_induct)
  case less
  show ?case
  proof (cases "distinct (stops ws)")
    case False
    from walk_cut [OF less.prems(1) False] obtain us cs vs k where w:
      "ws = us @ cs @ vs" "us \<noteq> []" "cs \<noteq> []" "vs \<noteq> []" "walk (set edges) i us k"
      "walk (set edges) k cs k" "walk (set edges) k vs j" by blast
    have "cost_at (fw_matrix edges) k k \<le> Fin (of_int (int_sum cs))"
      using w(1-4) by (intro less.hyps) (simp_all add: w(6))
    moreover have "\<not> cost_at (fw_matrix edges) k k < 0" using pos walk_ends [OF w(6,3)] by blast
    ultimately have "0 \<le> int_sum cs" using nonneg_below_Fin of_int_0_le_iff by blast
    moreover have "cost_at (fw_matrix edges) i j \<le> Fin (of_int (int_sum (us @ vs)))"
      using w(1-4) by (intro less.hyps walk_join [OF w(5,7)]) simp_all
    ultimately show ?thesis
      using f64_le_trans [of _ "Fin (of_int (int_sum (us @ vs)))"] by (simp add: w(1))
  qed (use fw_matrix_simple_walk [OF distinct ints less.prems] in blast)
qed

lemma fw_matrix_negative:
  assumes "distinct (map e_pair edges)" "int_graph b edges"
  shows "(\<exists>i \<in> vertices_of edges. cost_at (fw_matrix edges) i i < 0) \<longleftrightarrow>
     (\<exists>i ws. walk (set edges) i ws i \<and> int_sum ws < 0)"
proof
  assume "\<exists>i \<in> vertices_of edges. cost_at (fw_matrix edges) i i < 0"
  then obtain i where i: "i \<in> vertices_of edges" "cost_at (fw_matrix edges) i i < 0" by blast
  then obtain p where p: "mat (fw_matrix edges) i i = Some p" using fw_matrix_diag [OF assms(1)] by blast
  with i(2) fw_matrix_exact [OF assms p] show "\<exists>i ws. walk (set edges) i ws i \<and> int_sum ws < 0"
    by (auto simp: exact_path_def cost_at_def zero_f64_def)
next
  assume "\<exists>i ws. walk (set edges) i ws i \<and> int_sum ws < 0"
  then obtain i ws where w: "walk (set edges) i ws i" "int_sum ws < 0" by blast
  then have ne: "ws \<noteq> []" by auto
  show "\<exists>i \<in> vertices_of edges. cost_at (fw_matrix edges) i i < 0"
  proof (rule ccontr)
    assume none: "\<not> ?thesis"
    with fw_matrix_walk [OF assms _ w(1) ne]
    have "cost_at (fw_matrix edges) i i \<le> Fin (of_int (int_sum ws))" by blast
    moreover have "\<not> cost_at (fw_matrix edges) i i < 0" using none walk_ends [OF w(1) ne] by blast
    ultimately have "0 \<le> int_sum ws" using nonneg_below_Fin of_int_0_le_iff by blast
    with w(2) show False by simp
  qed
qed


section \<open>The result on integer costs\<close>

lemma shortest_paths_int:
  assumes "distinct (map e_pair edges)" "int_graph b edges"
  obtains es where "set es = set edges" "distinct (map e_pair es)" "int_graph b es"
    "shortest_paths edges =
       Some (if \<exists>i ws. walk (set edges) i ws i \<and> int_sum ws < 0
             then Inl NegativeCycles else Inr (fw_matrix es))"
proof -
  obtain es where es: "unique_cheapest_edges edges Less = Some es" "set es = set edges"
    "distinct (map e_pair es)"
    using unique_cheapest_edges_distinct [OF assms(1)] by blast
  have ints: "int_graph b es" using assms(2) es(2) by (simp add: int_graph_def vertices_of_def)
  have "shortest_paths edges = Some (if \<exists>i \<in> vertices_of es. cost_at (fw_matrix es) i i < 0
      then Inl NegativeCycles else Inr (fw_matrix es))"
    by (simp add: shortest_paths_def es(1) fw_matrix_result [OF es(3)])
  with that es(2,3) ints show thesis by (simp only: fw_matrix_negative [OF es(3) ints])
qed

section \<open>Sample graphs\<close>

text \<open>A detour that beats the direct edge, and a cycle of negative cost.\<close>

definition sample_graph :: "edge list" where
  "sample_graph =
     [\<lparr>e_pair = Pair 5 6, e_provider = 0, e_cost = Fin 3\<rparr>,
      \<lparr>e_pair = Pair 6 7, e_provider = 0, e_cost = Fin 4\<rparr>,
      \<lparr>e_pair = Pair 5 7, e_provider = 0, e_cost = Fin 9\<rparr>]"

definition cyclic_graph :: "edge list" where
  "cyclic_graph =
     [\<lparr>e_pair = Pair 5 6, e_provider = 0, e_cost = Fin 3\<rparr>,
      \<lparr>e_pair = Pair 6 5, e_provider = 0, e_cost = Fin (- 4)\<rparr>]"

lemmas graph_eval =
  unique_cheapest_edges_def bm_get_def bm_insert_def less_pair_def less_eq_pair_def
  floyd_warshall_shortest_paths_def fw_scan_def fw_scan_edge_def Let_def fw_init_def fw_loops_def
  path_add_def bs_insert_def insort_insert_key_def fw_relax_def f64_eval

lemma sample_result:
  "shortest_paths sample_graph = Some (Inr
     [(Pair 5 5, \<lparr>p_cost = 0, p_edges = []\<rparr>),
      (Pair 5 6, \<lparr>p_cost = Fin 3, p_edges = [sample_graph ! 0]\<rparr>),
      (Pair 5 7, \<lparr>p_cost = Fin 7, p_edges = [sample_graph ! 0, sample_graph ! 1]\<rparr>),
      (Pair 6 6, \<lparr>p_cost = 0, p_edges = []\<rparr>),
      (Pair 6 7, \<lparr>p_cost = Fin 4, p_edges = [sample_graph ! 1]\<rparr>),
      (Pair 7 7, \<lparr>p_cost = 0, p_edges = []\<rparr>)])"
  by (simp add: sample_graph_def shortest_paths_def graph_eval)

lemma sample_int_graph: "int_graph 4 sample_graph" "distinct (map e_pair sample_graph)"
  by (simp_all add: int_graph_def int_cost_def sample_graph_def vertices_of_def card_insert_if)

lemma cyclic_int_graph: "int_graph 4 cyclic_graph" "distinct (map e_pair cyclic_graph)"
  by (simp_all add: int_graph_def int_cost_def cyclic_graph_def vertices_of_def card_insert_if)

lemma cyclic_walk: "walk (set cyclic_graph) 5 cyclic_graph 5" "int_sum cyclic_graph = - 1"
  by (simp_all add: cyclic_graph_def int_cost_def)

lemma cyclic_negative: "\<exists>i ws. walk (set cyclic_graph) i ws i \<and> int_sum ws < 0"
  using cyclic_walk by (intro exI [of _ 5] exI [of _ cyclic_graph]) simp

lemma cyclic_result: "shortest_paths cyclic_graph = Some (Inl NegativeCycles)"
  by (rule shortest_paths_int [OF cyclic_int_graph(2,1)]) (simp only: cyclic_negative if_True)

section \<open>What \<open>shortest_paths\<close> returns\<close>

text \<open>Without a NaN among the costs \<open>shortest_paths\<close> always returns a value: the
  \<open>partial_cmp(..).unwrap()\<close> of the selection and the \<open>unwrap()\<close> on the diagonal of the
  negative-cycle check never panic.\<close>

theorem shortest_paths_returns:
  assumes "\<forall>e \<in> set edges. e_cost e \<noteq> NaN"
  shows "\<exists>res. shortest_paths edges = Some res"
proof -
  from assms show ?thesis by (rule shortest_paths_selects) simp
qed

theorem shortest_paths_returns_witness:
  "\<exists>res. shortest_paths [\<lparr>e_pair = Pair 0 1, e_provider = 7, e_cost = PInf\<rparr>] = Some res"
  by (rule shortest_paths_returns) simp

text \<open>Every path \<open>shortest_paths\<close> returns for \<open>(i, j)\<close> is a walk along input edges from \<open>i\<close> to
  \<open>j\<close>, and its total cost is the sum of the costs of its edges in some order of additions, each
  rounded to a double.\<close>

theorem shortest_paths_sound:
  assumes "small_graph b edges" "shortest_paths edges = Some (Inr m)" "bm_get m (Pair i j) = Some p"
  shows "walk (set edges) i (p_edges p) j \<and> tree_cost (p_edges p) (p_cost p)"
proof -
  from small_graph_not_NaN [OF assms(1)] obtain es where es: "set es \<subseteq> set edges"
    "distinct (map e_pair es)" "vertices_of es = vertices_of edges"
    "shortest_paths edges =
       Some (if \<exists>i \<in> vertices_of edges. cost_at (fw_matrix es) i i < 0
             then Inl NegativeCycles else Inr (fw_matrix es))"
    by (rule shortest_paths_selects)
  from es(4) assms(2) have "m = fw_matrix es" by (simp split: if_splits)
  with fw_matrix_paths [OF es(2) small_graph_selected [OF assms(1) es(1,3)]] assms(3)
  have "proper_path (set es) i j p" by (simp add: mat_def)
  then show ?thesis using proper_path_mono [OF es(1)] by (simp add: proper_path_def)
qed

theorem shortest_paths_sound_witness:
  "\<exists>m p. shortest_paths sample_graph = Some (Inr m) \<and> bm_get m (Pair 5 7) = Some p \<and> p_cost p = Fin 7 \<and>
     walk (set sample_graph) 5 (p_edges p) 7 \<and> tree_cost (p_edges p) (p_cost p)"
  using shortest_paths_sound [OF int_graph_small [OF sample_int_graph(1)] sample_result, of 5 7]
  by (simp add: sample_result bm_get_def)

text \<open>The negative-cycle error is never spurious: when \<open>shortest_paths\<close> reports it, some walk
  along input edges returns to its start at a (rounded) cost below zero.\<close>

theorem shortest_paths_error:
  assumes "small_graph b edges" "shortest_paths edges = Some (Inl err)"
  shows "\<exists>i ws c. walk (set edges) i ws i \<and> tree_cost ws c \<and> c < 0"
proof -
  from small_graph_not_NaN [OF assms(1)] obtain es where es: "set es \<subseteq> set edges"
    "distinct (map e_pair es)" "vertices_of es = vertices_of edges"
    "shortest_paths edges =
       Some (if \<exists>i \<in> vertices_of edges. cost_at (fw_matrix es) i i < 0
             then Inl NegativeCycles else Inr (fw_matrix es))"
    by (rule shortest_paths_selects)
  from es(4) assms(2) obtain i where i: "cost_at (fw_matrix es) i i < 0" by (auto split: if_splits)
  then obtain p where p: "mat (fw_matrix es) i i = Some p"
    by (auto simp: cost_at_def split: option.splits)
  from fw_matrix_paths [OF es(2) small_graph_selected [OF assms(1) es(1,3)] p]
  have "proper_path (set edges) i i p" using proper_path_mono [OF es(1)] by blast
  with i p show ?thesis by (auto simp: proper_path_def cost_at_def)
qed

theorem shortest_paths_error_witness:
  "shortest_paths cyclic_graph = Some (Inl NegativeCycles) \<and>
     (\<exists>i ws c. walk (set cyclic_graph) i ws i \<and> tree_cost ws c \<and> c < 0)"
  using shortest_paths_error [OF int_graph_small [OF cyclic_int_graph(1)] cyclic_result] cyclic_result
  by blast

text \<open>Over the edges the selection keeps, no simple path through the vertices of the graph is
  cheaper than the returned one, its cost summed with the rounding of doubles, split at the
  vertex processed last, then likewise on both sides; a missing entry stands for an infinite
  cost.\<close>

theorem shortest_paths_optimal:
  assumes "small_graph b edges" "unique_cheapest_edges edges Less = Some es"
    and "shortest_paths edges = Some (Inr m)" "i \<in> vertices_of edges" "j \<in> vertices_of edges"
    and "distinct xs" "set xs \<subseteq> vertices_of edges"
  shows "(case bm_get m (Pair i j) of Some p \<Rightarrow> p_cost p | None \<Rightarrow> PInf)
    \<le> split_cost (direct_cost es) (rev (scan_vertices edges)) i xs j"
proof -
  from small_graph_not_NaN [OF assms(1)] obtain es' where es': "unique_cheapest_edges edges Less = Some es'"
    "set es' \<subseteq> set edges" "distinct (map e_pair es')" "vertices_of es' = vertices_of edges"
    "shortest_paths edges =
       Some (if \<exists>i \<in> vertices_of edges. cost_at (fw_matrix es') i i < 0
             then Inl NegativeCycles else Inr (fw_matrix es'))"
    by (rule shortest_paths_selects)
  from es' assms(2,3) have eq: "es' = es" "m = fw_matrix es" by (auto split: if_splits)
  have "scan_vertices es = scan_vertices edges"
    using es'(4) scan_vertices [of es] scan_vertices [of edges] eq(1) by (metis sorted_distinct_set_unique)
  with fw_matrix_optimal [of es b i j xs] small_graph_selected [OF assms(1) es'(2,4)] es' eq assms(4-)
  show ?thesis by (simp add: cost_at_def mat_def)
qed


theorem shortest_paths_optimal_witness:
  "\<exists>es. unique_cheapest_edges sample_graph Less = Some es \<and>
     (Fin 7 :: f64) \<le> split_cost (direct_cost es) (rev (scan_vertices sample_graph)) 5 [6] 7"
proof -
  obtain es where es: "unique_cheapest_edges sample_graph Less = Some es"
    using unique_cheapest_edges_distinct [OF sample_int_graph(2)] by blast
  from shortest_paths_optimal [OF int_graph_small [OF sample_int_graph(1)] es sample_result, of 5 7 "[6]"]
  show ?thesis using es by (simp add: bm_get_def sample_graph_def vertices_of_def)
qed

lemma fw_matrix_distance:
  assumes "distinct (map e_pair es)" "int_graph b es"
    and "\<not> (\<exists>i ws. walk (set es) i ws i \<and> int_sum ws < 0)" "walk (set es) i ws j" "ws \<noteq> []"
  shows "\<exists>p. mat (fw_matrix es) i j = Some p \<and> exact_path (set es) i j p \<and> int_sum (p_edges p) \<le> int_sum ws"
proof -
  from assms(3) fw_matrix_negative [OF assms(1,2)]
  have "\<forall>i \<in> vertices_of es. \<not> cost_at (fw_matrix es) i i < 0" by blast
  with fw_matrix_walk [OF assms(1,2) _ assms(4,5)]
  have le: "cost_at (fw_matrix es) i j \<le> Fin (of_int (int_sum ws))" by blast
  then obtain p where p: "mat (fw_matrix es) i j = Some p" by (auto simp: cost_at_def split: option.splits)
  with fw_matrix_exact [OF assms(1,2)] have "exact_path (set es) i j p" by blast
  with p le show ?thesis by (auto simp: exact_path_def cost_at_def)
qed

text \<open>C6: On integer costs, with one edge per pair, \<open>shortest_paths\<close> computes true distances: each
  pair joined by a walk has an entry, and its path is itself a walk, carries exactly the sum of
  its costs, and is as cheap as every walk between the two vertices.\<close>

theorem shortest_paths_exact:
  assumes "distinct (map e_pair edges)" "int_graph b edges"
    and "shortest_paths edges = Some (Inr m)" "walk (set edges) i ws j" "ws \<noteq> []"
  shows "\<exists>p. bm_get m (Pair i j) = Some p \<and> walk (set edges) i (p_edges p) j \<and>
     p_cost p = Fin (of_int (int_sum (p_edges p))) \<and> int_sum (p_edges p) \<le> int_sum ws"
proof -
  from assms(1,2) obtain es where es: "set es = set edges" "distinct (map e_pair es)" "int_graph b es"
    "shortest_paths edges = Some (if \<exists>i ws. walk (set edges) i ws i \<and> int_sum ws < 0
             then Inl NegativeCycles else Inr (fw_matrix es))"
    by (rule shortest_paths_int)
  from es(4) assms(3) have "m = fw_matrix es" and "\<not> (\<exists>i ws. walk (set es) i ws i \<and> int_sum ws < 0)"
    using es(1) by (auto split: if_splits)
  with fw_matrix_distance [OF es(2,3), of i ws j] assms(4,5) es(1) show ?thesis
    by (auto simp: exact_path_def mat_def)
qed

theorem shortest_paths_exact_witness:
  "\<exists>m p. shortest_paths sample_graph = Some (Inr m) \<and> bm_get m (Pair 5 7) = Some p \<and>
     p_cost p = Fin (of_int (int_sum (p_edges p))) \<and> int_sum (p_edges p) \<le> int_sum [sample_graph ! 2]"
proof -
  have "walk (set sample_graph) 5 [sample_graph ! 2] 7" by (simp add: sample_graph_def)
  from shortest_paths_exact [OF sample_int_graph(2,1) sample_result this] show ?thesis
    using sample_result by blast
qed

text \<open>C15: On integer costs, with one edge per pair, \<open>NegativeCyclesError\<close> is returned exactly when
  the graph has a cycle of negative cost.\<close>

theorem shortest_paths_error_iff:
  assumes "distinct (map e_pair edges)" "int_graph b edges"
  shows "shortest_paths edges = Some (Inl NegativeCycles) \<longleftrightarrow>
     (\<exists>i ws. walk (set edges) i ws i \<and> int_sum ws < 0)"
  using assms by (rule shortest_paths_int) simp

theorem shortest_paths_error_iff_witness:
  "shortest_paths cyclic_graph = Some (Inl NegativeCycles) \<and> walk (set cyclic_graph) 5 cyclic_graph 5 \<and>
     int_sum cyclic_graph < 0"
  using shortest_paths_error_iff [OF cyclic_int_graph(2,1)] cyclic_negative cyclic_walk by simp

end
