(* ===== verification/Best_Rates.thy ===== *)
theory Best_Rates
  imports Path_Results
begin

text \<open>
  The theorems about the edge selection and \<open>longest_paths_mult\<close>: which rate of a pair is kept,
  that the function returns, that its paths are chains of input rates whose total is the
  product of the rates, and, where the logarithms of the rates are integers, that no other
  chain has a greater sum of logarithms and that the error is exactly a cycle whose sum is positive.
\<close>

section \<open>The edge selection\<close>

text \<open>C30: \<open>unique_cheapest_edges\<close> keeps one edge per pair, and every pair: with \<open>Greater\<close> the one of
  least cost, with \<open>Less\<close> the one of greatest cost. So \<open>longest_paths_mult\<close>, which looks for
  the best rates, goes on with the worst rate of each pair, and \<open>shortest_paths\<close> with the dearest
  edge.\<close>

theorem unique_cheapest_edges_keeps:
  assumes "\<forall>e \<in> set edges. e_cost e \<noteq> NaN"
  shows "\<exists>es. unique_cheapest_edges edges ord = Some es \<and> set es \<subseteq> set edges \<and>
     distinct (map e_pair es) \<and>
     (\<forall>f \<in> set edges. \<exists>e \<in> set es. e_pair e = e_pair f \<and>
        (ord = Greater \<longrightarrow> e_cost e \<le> e_cost f) \<and> (ord = Less \<longrightarrow> e_cost f \<le> e_cost e))"
proof -
  from assms obtain es where es: "unique_cheapest_edges edges ord = Some es" "set es \<subseteq> set edges"
    "distinct (map e_pair es)"
    "\<forall>f \<in> set edges. \<exists>e \<in> set es. e_pair e = e_pair f \<and> prefers ord (e_cost e) (e_cost f)"
    by (rule unique_cheapest_edges_spec)
  then show ?thesis by (cases ord) auto
qed

theorem unique_cheapest_edges_keeps_witness:
  "\<exists>es. unique_cheapest_edges [\<lparr>e_pair = Pair 5 6, e_provider = 0, e_cost = Fin 3\<rparr>,
       \<lparr>e_pair = Pair 5 6, e_provider = 1, e_cost = Fin 4\<rparr>] Greater = Some es \<and>
     (\<exists>e \<in> set es. e_pair e = Pair 5 6 \<and> e_cost e \<le> Fin 3)"
  using unique_cheapest_edges_keeps [of "[\<lparr>e_pair = Pair 5 6, e_provider = 0, e_cost = Fin 3\<rparr>,
       \<lparr>e_pair = Pair 5 6, e_provider = 1, e_cost = Fin 4\<rparr>]" Greater] by auto

lemma unique_cheapest_pairs:
  assumes "unique_cheapest_edges edges ord = Some es" "\<forall>e \<in> set edges. e_cost e \<noteq> NaN"
  shows "e_pair ` set es = e_pair ` set edges"
proof -
  from assms(2) obtain es' where "unique_cheapest_edges edges ord = Some es'" "set es' \<subseteq> set edges"
    "\<forall>f \<in> set edges. \<exists>e \<in> set es'. e_pair e = e_pair f \<and> prefers ord (e_cost e) (e_cost f)"
    by (meson unique_cheapest_edges_spec)
  with assms(1) show ?thesis by (auto simp: image_iff) metis
qed

section \<open>Stored paths use input edges\<close>

definition uses_edges :: "edge set \<Rightarrow> matrix \<Rightarrow> bool" where
  "uses_edges E m \<longleftrightarrow> bm_wf m \<and> (\<forall>i j p. mat m i j = Some p \<longrightarrow> set (p_edges p) \<subseteq> E)"

lemma uses_edges_Nil [simp]: "uses_edges E []"
  by (simp add: uses_edges_def mat_def bm_get_def)

lemma insert_uses_edges:
  "uses_edges E m \<Longrightarrow> set (p_edges p) \<subseteq> E \<Longrightarrow> uses_edges E (bm_insert (Pair i j) p m)"
  by (auto simp: uses_edges_def bm_wf_insert)

lemma relax_uses_edges: "uses_edges E m \<Longrightarrow> uses_edges E (fw_relax k i j m)"
proof -
  assume m: "uses_edges E m"
  let ?edges = "\<lambda>i j. case bm_get m (Pair i j) of Some p \<Rightarrow> p_edges p | None \<Rightarrow> []"
  have sub: "set (?edges a d) \<subseteq> E" for a d
    using m by (cases "bm_get m (Pair a d)") (simp_all add: uses_edges_def mat_def)
  let ?cost = "\<lambda>i j. case bm_get m (Pair i j) of Some p \<Rightarrow> p_cost p | None \<Rightarrow> f64_MAX"
  have "fw_relax k i j m = m \<or> fw_relax k i j m =
      bm_insert (Pair i j) \<lparr>p_cost = ?cost i k + ?cost k j, p_edges = ?edges i k @ ?edges k j\<rparr> m"
    by (cases "bm_get m (Pair i k)"; cases "bm_get m (Pair k j)") (simp_all add: fw_relax_def)
  with m show ?thesis using sub [of i k] sub [of k j] by (elim disjE) (simp_all add: insert_uses_edges)
qed

lemma fold_keeps: "(\<And>x m. x \<in> set xs \<Longrightarrow> I m \<Longrightarrow> I (f x m)) \<Longrightarrow> I m \<Longrightarrow> I (fold f xs m)"
  by (induction xs arbitrary: m) auto

lemma fw_loops_keeps:
  assumes step: "\<And>k i j m. i \<in> set vs \<Longrightarrow> j \<in> set vs \<Longrightarrow> I m \<Longrightarrow> I (fw_relax k i j m)" and "I m"
  shows "I (fw_loops vs m)"
  unfolding fw_loops_def
proof (rule fold_keeps [where I = I, OF _ assms(2)])
  fix k m
  assume m: "I m"
  show "I (fold (\<lambda>i. fold (fw_relax k i) vs) vs m)"
  proof (rule fold_keeps [where I = I, OF _ m])
    fix i m
    assume i: "i \<in> set vs" "I m"
    show "I (fold (fw_relax k i) vs m)"
      by (rule fold_keeps [where I = I, OF _ i(2)]) (rule step [OF i(1)])
  qed
qed

lemma fw_matrix_uses_edges: "uses_edges (set edges) (fw_matrix edges)"
proof -
  have "uses_edges (set edges) (fold (\<lambda>v. bm_insert (Pair v v) \<lparr>p_cost = 0, p_edges = []\<rparr>) vs [])" for vs
    by (rule fold_keeps [where I = "uses_edges (set edges)"]) (simp_all add: insert_uses_edges)
  moreover have "uses_edges (set edges) (fold (\<lambda>e. bm_insert (Pair (source (e_pair e)) (target (e_pair e)))
      \<lparr>p_cost = e_cost e, p_edges = [e]\<rparr>) es m)"
    if "set es \<subseteq> set edges" "uses_edges (set edges) m" for es m
    using that by (induction es arbitrary: m) (simp_all add: insert_uses_edges del: pair.collapse)
  ultimately have "uses_edges (set edges) (fw_init (scan_vertices edges) edges)"
    by (simp add: fw_init_def)
  then show ?thesis
    unfolding fw_matrix_def by (rule fw_loops_keeps [where I = "uses_edges (set edges)", rotated]) (rule relax_uses_edges)
qed


section \<open>Keys and the diagonal\<close>

lemma fw_matrix_invariant:
  assumes "I (fw_init (scan_vertices edges) edges)"
    and step: "\<And>k i j m. i \<in> vertices_of edges \<Longrightarrow> j \<in> vertices_of edges \<Longrightarrow> I m \<Longrightarrow> I (fw_relax k i j m)"
  shows "I (fw_matrix edges)"
  unfolding fw_matrix_def using assms by (intro fw_loops_keeps [where I = I]) (simp_all add: scan_vertices)

lemma fw_matrix_keys:
  assumes "distinct (map e_pair edges)" "mat (fw_matrix edges) i j = Some p"
  shows "i \<in> vertices_of edges \<and> j \<in> vertices_of edges"
proof -
  let ?I = "\<lambda>m. bm_wf m \<and> (\<forall>i j. mat m i j \<noteq> None \<longrightarrow> i \<in> vertices_of edges \<and> j \<in> vertices_of edges)"
  have "?I (fw_matrix edges)"
  proof (rule fw_matrix_invariant)
    have "a \<in> vertices_of edges \<and> b \<in> vertices_of edges"
      if "mat (fw_init (scan_vertices edges) edges) a b \<noteq> None" for a b
    proof (cases "find (\<lambda>e. e_pair e = Pair a b) edges")
      case (Some e)
      then have "e \<in> set edges" "e_pair e = Pair a b" by (auto simp: find_Some_iff in_set_conv_nth)
      then show ?thesis by (force simp: vertices_of_def)
    qed (use that in \<open>simp add: fw_init_mat [OF assms(1)] scan_vertices split: if_splits\<close>)
    then show "?I (fw_init (scan_vertices edges) edges)" by (simp add: fw_init_wf)
    fix k i j m
    assume "i \<in> vertices_of edges" "j \<in> vertices_of edges" "?I m"
    with relax_shape [of k i j m] show "?I (fw_relax k i j m)" by (elim disjE exE) (simp_all add: bm_wf_insert)
  qed
  with assms(2) show ?thesis by auto
qed

lemma fw_matrix_edge:
  assumes "distinct (map e_pair edges)" "e \<in> set edges" "e_pair e = Pair i j"
  shows "mat (fw_matrix edges) i j \<noteq> None"
proof -
  have "find (\<lambda>e. e_pair e = Pair i j) edges \<noteq> None" using assms(2,3) by (auto simp: find_None_iff)
  then have "mat (fw_init (scan_vertices edges) edges) i j \<noteq> None"
    by (auto simp: fw_init_mat [OF assms(1)])
  then show ?thesis
    unfolding fw_matrix_def fw_loops_rounds by (intro rounds_keep_keys fw_init_wf)
qed

text \<open>Without self-loops the diagonal stays empty unless a cycle is negative.\<close>

lemma relax_improves:
  "fw_relax k i j m = m \<or>
     (\<exists>p. fw_relax k i j m = bm_insert (Pair i j) p m \<and>
        p_cost p < (case bm_get m (Pair i j) of Some q \<Rightarrow> p_cost q | None \<Rightarrow> f64_MAX))"
  unfolding fw_relax_def Let_def split_def by (simp split: if_split) (metis path.select_convs(1))

definition diagonal_ok :: "nat \<Rightarrow> matrix \<Rightarrow> bool" where
  "diagonal_ok i m \<longleftrightarrow> bm_wf m \<and> (mat m i i = Some \<lparr>p_cost = 0, p_edges = []\<rparr> \<or> (\<exists>p. mat m i i = Some p \<and> p_cost p < 0))"

lemma relax_diagonal: "diagonal_ok v m \<Longrightarrow> diagonal_ok v (fw_relax k i j m)"
  using relax_improves [of k i j m]
proof (elim disjE exE conjE)
  fix p
  assume d: "diagonal_ok v m" and p: "fw_relax k i j m = bm_insert (Pair i j) p m"
    "p_cost p < (case bm_get m (Pair i j) of Some q \<Rightarrow> p_cost q | None \<Rightarrow> f64_MAX)"
  show "diagonal_ok v (fw_relax k i j m)"
  proof (cases "i = v \<and> j = v")
    case True
    with d obtain q where "bm_get m (Pair i j) = Some q" "q = \<lparr>p_cost = 0, p_edges = []\<rparr> \<or> p_cost q < 0"
      by (auto simp: diagonal_ok_def mat_def)
    with p(2) have "p_cost p < 0" by (auto dest: f64_less_le intro: f64_le_less_trans)
    with True d p(1) show ?thesis by (auto simp: diagonal_ok_def bm_wf_insert)
  qed (use d in \<open>auto simp: diagonal_ok_def p(1) bm_wf_insert\<close>)
qed simp

lemma fw_matrix_identity:
  assumes "distinct (map e_pair edges)" "v \<in> vertices_of edges" "Pair v v \<notin> e_pair ` set edges"
    and "\<not> cost_at (fw_matrix edges) v v < 0"
  shows "mat (fw_matrix edges) v v = Some \<lparr>p_cost = 0, p_edges = []\<rparr>"
proof -
  have "find (\<lambda>e. e_pair e = Pair v v) edges = None" using assms(3) by (force simp: find_None_iff)
  then have "diagonal_ok v (fw_init (scan_vertices edges) edges)"
    using assms(2) by (simp add: diagonal_ok_def fw_init_wf fw_init_mat [OF assms(1)] scan_vertices)
  then have "diagonal_ok v (fw_matrix edges)"
    by (rule fw_matrix_invariant) (rule relax_diagonal)
  with assms(4) show ?thesis by (auto simp: diagonal_ok_def cost_at_def)
qed

section \<open>Restoring the rates\<close>

text \<open>The edge with which the shortest paths are searched in place of \<open>e\<close>.\<close>

definition log_edge :: "(f64 \<Rightarrow> f64) \<Rightarrow> edge \<Rightarrow> edge" where
  "log_edge log2 e = e\<lparr>e_cost := - log2 (e_cost e)\<rparr>"

lemma log_edge_simps [simp]:
  "e_pair (log_edge log2 e) = e_pair e" "e_provider (log_edge log2 e) = e_provider e"
  "e_cost (log_edge log2 e) = - log2 (e_cost e)"
  by (simp_all add: log_edge_def)

definition product_path :: "edge list \<Rightarrow> path" where
  "product_path es = \<lparr>p_cost = foldl (\<lambda>acc e. acc * e_cost e) 1 es, p_edges = es\<rparr>"

abbreviation rate_map :: "edge list \<Rightarrow> (vpair \<times> nat, f64) bmap" where
  "rate_map es \<equiv> bm_collect (map (\<lambda>e. ((e_pair e, e_provider e), e_cost e)) es)"

lemma rate_map_get:
  assumes "distinct (map e_pair es)" "e \<in> set es"
  shows "bm_get (rate_map es) (e_pair e, e_provider e) = Some (e_cost e)"
proof -
  have "distinct (map fst (rev (map (\<lambda>e. ((e_pair e, e_provider e), e_cost e)) es)))"
    using assms(1) by (auto simp: distinct_map comp_def inj_on_def rev_map [symmetric])
  then show ?thesis unfolding bm_get_collect using assms(2) by (intro map_of_is_SomeI) auto
qed

lemma restore_edges:
  assumes "distinct (map e_pair es)" "set qs \<subseteq> set es"
  shows "run_map (\<lambda>e. map_option (\<lambda>c. e\<lparr>e_cost := c\<rparr>) (bm_get (rate_map es) (e_pair e, e_provider e)))
     (map (log_edge log2) qs) = Some qs"
  using assms(2) by (induction qs) (simp_all add: rate_map_get [OF assms(1)] log_edge_def)

lemma restore_weights_path:
  assumes "distinct (map e_pair es)" "set (p_edges p) \<subseteq> log_edge log2 ` set es"
  obtains qs where "set qs \<subseteq> set es" "p_edges p = map (log_edge log2) qs"
    "\<And>pr. restore_weights (rate_map es) (pr, p) = Some (pr, product_path qs)"
proof -
  from assms(2) have "p_edges p \<in> lists (log_edge log2 ` set es)" by auto
  then obtain qs where qs: "set qs \<subseteq> set es" "p_edges p = map (log_edge log2) qs"
    by (auto simp: lists_image)
  with that restore_edges [OF assms(1) qs(1)] show thesis
    by (simp add: restore_weights_def product_path_def)
qed


text \<open>How the restored matrix relates to the one with logarithms.\<close>

definition restores :: "(f64 \<Rightarrow> f64) \<Rightarrow> edge set \<Rightarrow> path \<Rightarrow> path \<Rightarrow> bool" where
  "restores log2 E p q \<longleftrightarrow>
     (\<exists>qs. set qs \<subseteq> E \<and> p_edges p = map (log_edge log2) qs \<and> q = product_path qs)"

lemma restore_matrix:
  assumes "distinct (map e_pair es)" "uses_edges (log_edge log2 ` set es) m"
  obtains kvs where "run_map (restore_weights (rate_map es)) m = Some kvs"
    "\<And>i j. rel_option (restores log2 (set es)) (mat m i j) (mat (bm_collect kvs) i j)"
proof -
  let ?r = "restore_weights (rate_map es)"
  let ?h = "\<lambda>p. snd (the (?r (Pair 0 0, p)))"
  have wf: "bm_wf m" using assms(2) by (simp add: uses_edges_def)
  have one: "?r (pr, p) = Some (pr, ?h p) \<and> restores log2 (set es) p (?h p)" if "bm_get m pr = Some p" for pr p
  proof -
    have "set (p_edges p) \<subseteq> log_edge log2 ` set es"
      using that assms(2) by (cases pr) (auto simp: uses_edges_def mat_def)
    from restore_weights_path [OF assms(1) this] obtain qs where "set qs \<subseteq> set es"
      "p_edges p = map (log_edge log2) qs" "\<And>pr. ?r (pr, p) = Some (pr, product_path qs)" by blast
    then show ?thesis by (auto simp: restores_def)
  qed
  have "?r x = Some (case x of (pr, p) \<Rightarrow> (pr, ?h p))" if "x \<in> set m" for x
  proof -
    obtain pr p where x: "x = (pr, p)" by (cases x)
    with that have "bm_get m pr = Some p" using bm_entries_iff [OF wf] by simp
    from one [OF this] x show ?thesis by simp
  qed
  then have run: "run_map ?r m = Some (map (\<lambda>(pr, p). (pr, ?h p)) m)" (is "_ = Some ?kvs")
    by (rule run_map_total)
  have "distinct (map fst ?kvs)"
    using wf by (simp add: bm_wf_def strict_sorted_iff case_prod_beta comp_def)
  then have rev: "map_of (rev ?kvs) = map_of ?kvs" by (subst map_of_inject_set) (simp_all only: rev_map [symmetric] distinct_rev set_rev)
  have get: "bm_get (bm_collect ?kvs) k = map_option ?h (bm_get m k)" for k
    by (simp only: bm_get_collect rev) (simp add: bm_get_def map_of_map)
  have "rel_option (restores log2 (set es)) (mat m i j) (mat (bm_collect ?kvs) i j)" for i j
    using one by (cases "bm_get m (Pair i j)") (auto simp: mat_def get)
  with run that show thesis by blast
qed

lemma longest_paths_selects:
  assumes "\<forall>e \<in> set edges. e_cost e \<noteq> NaN"
  obtains es where "unique_cheapest_edges edges Greater = Some es" "set es \<subseteq> set edges"
    "distinct (map e_pair es)" "vertices_of es = vertices_of edges"
    "distinct (map e_pair (map (log_edge log2) es))"
    "longest_paths_mult log2 edges = (case shortest_paths (map (log_edge log2) es) of
       None \<Rightarrow> None
     | Some (Inl err) \<Rightarrow> Some (Inl err)
     | Some (Inr m) \<Rightarrow> map_option (\<lambda>kvs. Inr (bm_collect kvs)) (run_map (restore_weights (rate_map es)) m))"
proof -
  from assms obtain es where es: "unique_cheapest_edges edges Greater = Some es" "set es \<subseteq> set edges"
    "distinct (map e_pair es)"
    "\<forall>f \<in> set edges. \<exists>e \<in> set es. e_pair e = e_pair f \<and> prefers Greater (e_cost e) (e_cost f)"
    by (rule unique_cheapest_edges_spec)
  have "vertices_of es = vertices_of edges" using es(2,4) by (rule vertices_of_selected)
  moreover have "distinct (map e_pair (map (log_edge log2) es))" using es(3) by (simp add: comp_def)
  moreover have "longest_paths_mult log2 edges = (case shortest_paths (map (log_edge log2) es) of
       None \<Rightarrow> None
     | Some (Inl err) \<Rightarrow> Some (Inl err)
     | Some (Inr m) \<Rightarrow> map_option (\<lambda>kvs. Inr (bm_collect kvs)) (run_map (restore_weights (rate_map es)) m))"
    by (simp add: longest_paths_mult_def es(1) log_edge_def [abs_def] Let_def
        split: option.split sum.split)
  ultimately show thesis using that es by blast
qed

lemma walk_log_edges:
  "set ws \<subseteq> E \<Longrightarrow> walk (log_edge log2 ` E) i (map (log_edge log2) ws) j \<longleftrightarrow> walk E i ws j"
  by (induction ws arbitrary: i) auto

lemma vertices_of_log_edges [simp]: "vertices_of (map (log_edge log2) es) = vertices_of es"
  by (simp add: vertices_of_def)

lemma walk_mono: "walk E i ws j \<Longrightarrow> E \<subseteq> F \<Longrightarrow> walk F i ws j"
  by (induction ws arbitrary: i) auto

section \<open>What \<open>longest_paths_mult\<close> returns\<close>

lemma longest_paths_mult_total:
  assumes "\<forall>e \<in> set edges. e_cost e \<noteq> NaN"
  shows "\<exists>res. longest_paths_mult log2 edges = Some res"
proof -
  from assms obtain es where es: "unique_cheapest_edges edges Greater = Some es" "set es \<subseteq> set edges"
    "distinct (map e_pair es)" "vertices_of es = vertices_of edges"
    "distinct (map e_pair (map (log_edge log2) es))"
    "longest_paths_mult log2 edges = (case shortest_paths (map (log_edge log2) es) of
       None \<Rightarrow> None
     | Some (Inl err) \<Rightarrow> Some (Inl err)
     | Some (Inr m) \<Rightarrow> map_option (\<lambda>kvs. Inr (bm_collect kvs)) (run_map (restore_weights (rate_map es)) m))"
    by (rule longest_paths_selects)
  from es(5) obtain gs where gs: "set gs = set (map (log_edge log2) es)"
    "shortest_paths (map (log_edge log2) es) =
       Some (if \<exists>i \<in> vertices_of (map (log_edge log2) es). cost_at (fw_matrix gs) i i < 0
             then Inl NegativeCycles else Inr (fw_matrix gs))"
    by (rule shortest_paths_distinct)
  have "uses_edges (log_edge log2 ` set es) (fw_matrix gs)"
    using fw_matrix_uses_edges [of gs] gs(1) by simp
  from restore_matrix [OF es(3) this] obtain kvs where
    "run_map (restore_weights (rate_map es)) (fw_matrix gs) = Some kvs" by blast
  then show ?thesis by (simp add: es(6) gs(2))
qed

text \<open>Where no rate is a NaN, \<open>longest_paths_mult\<close> returns, whatever the logarithm function
  yields: besides the unwraps of \<open>shortest_paths\<close>, the lookup \<open>weight_map[..]\<close> of every edge of
  every path finds its rate.\<close>

theorem longest_paths_mult_returns:
  assumes "\<forall>e \<in> set edges. e_cost e \<noteq> NaN"
  shows "\<exists>res. longest_paths_mult log2 edges = Some res"
  using assms by (rule longest_paths_mult_total)

theorem longest_paths_mult_returns_witness:
  "\<exists>res. longest_paths_mult (\<lambda>x. NaN) [\<lparr>e_pair = Pair 5 6, e_provider = 0, e_cost = Fin 2\<rparr>,
     \<lparr>e_pair = Pair 5 6, e_provider = 1, e_cost = Fin 3\<rparr>] = Some res"
  by (rule longest_paths_mult_returns) simp

text \<open>The rates a search runs on: their logarithms are small enough for \<open>small_graph\<close>.\<close>

definition small_rates :: "(f64 \<Rightarrow> f64) \<Rightarrow> nat \<Rightarrow> edge list \<Rightarrow> bool" where
  "small_rates log2 b edges \<longleftrightarrow>
     (\<forall>e \<in> set edges. e_cost e \<noteq> NaN \<and> cost_in b (- log2 (e_cost e))) \<and>
     b + 3 * card (vertices_of edges) \<le> 969"

lemma small_rates_not_NaN: "small_rates log2 b edges \<Longrightarrow> \<forall>e \<in> set edges. e_cost e \<noteq> NaN"
  by (auto simp: small_rates_def)

text \<open>The matrix of logarithms behind a result, and the edges it is over.\<close>

lemma longest_paths_matrix:
  assumes "\<forall>e \<in> set edges. e_cost e \<noteq> NaN" "longest_paths_mult log2 edges = Some (Inr m)"
  obtains es gs where "unique_cheapest_edges edges Greater = Some es"
    "unique_cheapest_edges (map (log_edge log2) es) Less = Some gs"
    "set es \<subseteq> set edges" "set gs = set (map (log_edge log2) es)" "distinct (map e_pair gs)"
    "vertices_of gs = vertices_of edges" "e_pair ` set gs = e_pair ` set edges"
    "\<forall>i \<in> vertices_of edges. \<not> cost_at (fw_matrix gs) i i < 0"
    "\<forall>i j. rel_option (restores log2 (set es)) (mat (fw_matrix gs) i j) (mat m i j)"
proof -
  from assms(1) obtain es where es: "unique_cheapest_edges edges Greater = Some es" "set es \<subseteq> set edges"
    "distinct (map e_pair es)" "vertices_of es = vertices_of edges"
    "distinct (map e_pair (map (log_edge log2) es))"
    "longest_paths_mult log2 edges = (case shortest_paths (map (log_edge log2) es) of
       None \<Rightarrow> None
     | Some (Inl err) \<Rightarrow> Some (Inl err)
     | Some (Inr m) \<Rightarrow> map_option (\<lambda>kvs. Inr (bm_collect kvs)) (run_map (restore_weights (rate_map es)) m))"
    by (rule longest_paths_selects)
  from es(5) obtain gs where gs: "unique_cheapest_edges (map (log_edge log2) es) Less = Some gs"
    "set gs = set (map (log_edge log2) es)" "distinct (map e_pair gs)"
    "shortest_paths (map (log_edge log2) es) =
       Some (if \<exists>i \<in> vertices_of (map (log_edge log2) es). cost_at (fw_matrix gs) i i < 0
             then Inl NegativeCycles else Inr (fw_matrix gs))"
    by (rule shortest_paths_distinct)
  have "e_pair ` set es = e_pair ` set edges"
    using unique_cheapest_pairs [OF es(1)] assms(1) by blast
  then have pairs: "e_pair ` set gs = e_pair ` set edges" by (simp add: gs(2) image_image)
  have verts: "vertices_of gs = vertices_of edges" using es(4) by (simp add: vertices_of_def gs(2))
  have "uses_edges (log_edge log2 ` set es) (fw_matrix gs)"
    using fw_matrix_uses_edges [of gs] gs(2) by simp
  from restore_matrix [OF es(3) this] obtain kvs where kvs:
    "run_map (restore_weights (rate_map es)) (fw_matrix gs) = Some kvs"
    "\<And>i j. rel_option (restores log2 (set es)) (mat (fw_matrix gs) i j) (mat (bm_collect kvs) i j)" by blast
  have ok: "\<not> (\<exists>i \<in> vertices_of edges. cost_at (fw_matrix gs) i i < 0)" "m = bm_collect kvs"
    using assms(2) es(4) by (simp_all add: es(6) gs(4) kvs(1) split: if_splits)
  show thesis
    by (rule that [OF es(1) gs(1) es(2) gs(2,3) verts pairs]) (use ok kvs(2) in auto)
qed

lemma small_rates_graph:
  assumes "small_rates log2 b edges" "set es \<subseteq> set edges" "set gs = set (map (log_edge log2) es)"
    and "vertices_of gs = vertices_of edges"
  shows "small_graph b gs"
  using assms by (auto simp: small_graph_def small_rates_def subset_iff)

lemma restores_walk:
  assumes "restores log2 (set es) pl p" "walk (set gs) i (p_edges pl) j"
    and "set gs = set (map (log_edge log2) es)"
  shows "walk (set es) i (p_edges p) j" "p_edges pl = map (log_edge log2) (p_edges p)"
    "p = product_path (p_edges p)"
proof -
  from assms(1) obtain qs where qs: "set qs \<subseteq> set es" "p_edges pl = map (log_edge log2) qs"
    "p = product_path qs" by (auto simp: restores_def)
  from walk_mono [OF assms(2)] assms(3) have "walk (log_edge log2 ` set es) i (map (log_edge log2) qs) j"
    by (simp add: qs(2))
  with qs show "walk (set es) i (p_edges p) j" "p_edges pl = map (log_edge log2) (p_edges p)"
    "p = product_path (p_edges p)"
    by (simp_all add: walk_log_edges product_path_def)
qed

lemma longest_paths_walk:
  assumes "small_rates log2 b edges" "longest_paths_mult log2 edges = Some (Inr m)"
    and "bm_get m (Pair i j) = Some p"
  shows "walk (set edges) i (p_edges p) j \<and> p_cost p = foldl (\<lambda>acc e. acc * e_cost e) 1 (p_edges p)"
proof -
  from small_rates_not_NaN [OF assms(1)] assms(2)
  obtain es gs where es: "unique_cheapest_edges edges Greater = Some es"
    "unique_cheapest_edges (map (log_edge log2) es) Less = Some gs"
    "set es \<subseteq> set edges" "set gs = set (map (log_edge log2) es)"
    "distinct (map e_pair gs)" "vertices_of gs = vertices_of edges" "e_pair ` set gs = e_pair ` set edges"
    "\<forall>i \<in> vertices_of edges. \<not> cost_at (fw_matrix gs) i i < 0"
    "\<forall>i j. rel_option (restores log2 (set es)) (mat (fw_matrix gs) i j) (mat m i j)"
    by (rule longest_paths_matrix)
  note small = small_rates_graph [OF assms(1) es(3,4,6)]
  from es(9) assms(3) obtain pl where pl: "mat (fw_matrix gs) i j = Some pl" "restores log2 (set es) pl p"
    by (metis mat_def option_rel_Some2)
  from fw_matrix_paths [OF es(5) small pl(1)] have "walk (set gs) i (p_edges pl) j"
    by (simp add: proper_path_def)
  from restores_walk [OF pl(2) this es(4)] show ?thesis
    using walk_mono es(3) by (metis path.select_convs(1) product_path_def)
qed

text \<open>Every path \<open>longest_paths_mult\<close> returns for \<open>(i, j)\<close> is a chain of input edges from
  \<open>i\<close> to \<open>j\<close> with their own rates, and its total cost is the product of these rates,
  multiplied in the order of the chain.\<close>

theorem longest_paths_mult_sound:
  assumes "small_rates log2 b edges" "longest_paths_mult log2 edges = Some (Inr m)"
    and "bm_get m (Pair i j) = Some p"
  shows "walk (set edges) i (p_edges p) j \<and> p_cost p = foldl (\<lambda>acc e. acc * e_cost e) 1 (p_edges p)"
  using assms by (rule longest_paths_walk)

text \<open>The path \<open>longest_paths_mult\<close> returns is the best over the selected edges, measured by
  rounded sums of negated logarithms: such a sum for its edges is at most that of any simple
  path through the vertices.\<close>

theorem longest_paths_mult_optimal:
  assumes "small_rates log2 b edges" "longest_paths_mult log2 edges = Some (Inr m)"
    and "unique_cheapest_edges edges Greater = Some es"
    and "unique_cheapest_edges (map (log_edge log2) es) Less = Some gs"
    and "bm_get m (Pair i j) = Some p" "distinct xs" "set xs \<subseteq> vertices_of edges"
  shows "\<exists>c. tree_cost (map (log_edge log2) (p_edges p)) c \<and>
     c \<le> split_cost (direct_cost gs) (rev (scan_vertices edges)) i xs j"
proof -
  from small_rates_not_NaN [OF assms(1)] assms(2)
  obtain es' gs' where es': "unique_cheapest_edges edges Greater = Some es'"
    "unique_cheapest_edges (map (log_edge log2) es') Less = Some gs'"
    "set es' \<subseteq> set edges" "set gs' = set (map (log_edge log2) es')"
    "distinct (map e_pair gs')" "vertices_of gs' = vertices_of edges" "e_pair ` set gs' = e_pair ` set edges"
    "\<forall>i \<in> vertices_of edges. \<not> cost_at (fw_matrix gs') i i < 0"
    "\<forall>i j. rel_option (restores log2 (set es')) (mat (fw_matrix gs') i j) (mat m i j)"
    by (rule longest_paths_matrix)
  note small = small_rates_graph [OF assms(1) es'(3,4,6)]
  from es'(1,2) assms(3,4) have eq: "es' = es" "gs' = gs" by auto
  from es'(9) assms(5) obtain pl where pl: "mat (fw_matrix gs) i j = Some pl" "restores log2 (set es) pl p"
    unfolding eq by (metis mat_def option_rel_Some2)
  from fw_matrix_paths [OF es'(5) [unfolded eq] small [unfolded eq] pl(1)]
  have paths: "i \<in> vertices_of gs" "j \<in> vertices_of gs" "walk (set gs) i (p_edges pl) j"
    "tree_cost (p_edges pl) (p_cost pl)" by (simp_all add: proper_path_def)
  have scan: "scan_vertices gs = scan_vertices edges"
    using es'(6) scan_vertices [of gs] scan_vertices [of edges] eq by (metis sorted_distinct_set_unique)
  have "p_cost pl \<le> split_cost (direct_cost gs) (rev (scan_vertices edges)) i xs j"
    using fw_matrix_optimal [OF es'(5) [unfolded eq] small [unfolded eq] paths(1,2) assms(6)] assms(7) es'(6)
    by (simp add: cost_at_def pl(1) scan eq)
  with paths(4) restores_walk(2) [OF pl(2) paths(3) es'(4) [unfolded eq]] show ?thesis by auto
qed

text \<open>The entries of a result.\<close>

lemma longest_paths_wf: "longest_paths_mult log2 edges = Some (Inr m) \<Longrightarrow> bm_wf m"
  by (auto simp: longest_paths_mult_def Let_def split: Option.bind_splits sum.splits)

lemma longest_entries:
  assumes "\<forall>e \<in> set edges. e_cost e \<noteq> NaN" "longest_paths_mult log2 edges = Some (Inr m)" "(pr, p) \<in> set m"
  shows "source pr \<in> vertices_of edges" "target pr \<in> vertices_of edges" "set (p_edges p) \<subseteq> set edges"
proof -
  from assms(1,2) obtain es gs where es: "unique_cheapest_edges edges Greater = Some es"
    "unique_cheapest_edges (map (log_edge log2) es) Less = Some gs"
    "set es \<subseteq> set edges" "set gs = set (map (log_edge log2) es)" "distinct (map e_pair gs)"
    "vertices_of gs = vertices_of edges" "e_pair ` set gs = e_pair ` set edges"
    "\<forall>i \<in> vertices_of edges. \<not> cost_at (fw_matrix gs) i i < 0"
    "\<forall>i j. rel_option (restores log2 (set es)) (mat (fw_matrix gs) i j) (mat m i j)"
    by (rule longest_paths_matrix)
  have "bm_get m pr = Some p" using assms(3) bm_entries_iff [OF longest_paths_wf [OF assms(2)]] by blast
  then have "mat m (source pr) (target pr) = Some p" by (simp add: mat_def)
  with es(9) obtain pl where pl: "mat (fw_matrix gs) (source pr) (target pr) = Some pl" "restores log2 (set es) pl p"
    by (metis option_rel_Some2)
  from fw_matrix_keys [OF es(5) pl(1)] es(6) show "source pr \<in> vertices_of edges" "target pr \<in> vertices_of edges"
    by simp_all
  from pl(2) es(3) show "set (p_edges p) \<subseteq> set edges" by (auto simp: restores_def product_path_def)
qed

lemma longest_covers:
  assumes "\<forall>e \<in> set edges. e_cost e \<noteq> NaN" "longest_paths_mult log2 edges = Some (Inr m)"
    and "pr \<in> e_pair ` set edges"
  shows "bm_get m pr \<noteq> None"
proof -
  from assms(1,2) obtain es gs where es: "unique_cheapest_edges edges Greater = Some es"
    "unique_cheapest_edges (map (log_edge log2) es) Less = Some gs"
    "set es \<subseteq> set edges" "set gs = set (map (log_edge log2) es)" "distinct (map e_pair gs)"
    "vertices_of gs = vertices_of edges" "e_pair ` set gs = e_pair ` set edges"
    "\<forall>i \<in> vertices_of edges. \<not> cost_at (fw_matrix gs) i i < 0"
    "\<forall>i j. rel_option (restores log2 (set es)) (mat (fw_matrix gs) i j) (mat m i j)"
    by (rule longest_paths_matrix)
  from assms(3) es(7) obtain e where "e \<in> set gs" "e_pair e = pr" by force
  with fw_matrix_edge [OF es(5)] have "mat (fw_matrix gs) (source pr) (target pr) \<noteq> None"
    by (metis pair.collapse)
  with es(9) have "mat m (source pr) (target pr) \<noteq> None" by (metis rel_option_None2)
  then show ?thesis by (simp add: mat_def)
qed

lemma longest_identity:
  assumes "\<forall>e \<in> set edges. e_cost e \<noteq> NaN" "longest_paths_mult log2 edges = Some (Inr m)"
    and "v \<in> vertices_of edges" "Pair v v \<notin> e_pair ` set edges"
  shows "bm_get m (Pair v v) = Some (product_path [])"
proof -
  from assms(1,2) obtain es gs where es: "unique_cheapest_edges edges Greater = Some es"
    "unique_cheapest_edges (map (log_edge log2) es) Less = Some gs"
    "set es \<subseteq> set edges" "set gs = set (map (log_edge log2) es)" "distinct (map e_pair gs)"
    "vertices_of gs = vertices_of edges" "e_pair ` set gs = e_pair ` set edges"
    "\<forall>i \<in> vertices_of edges. \<not> cost_at (fw_matrix gs) i i < 0"
    "\<forall>i j. rel_option (restores log2 (set es)) (mat (fw_matrix gs) i j) (mat m i j)"
    by (rule longest_paths_matrix)
  have "mat (fw_matrix gs) v v = Some \<lparr>p_cost = 0, p_edges = []\<rparr>"
    using fw_matrix_identity [OF es(5)] es(6-8) assms(3,4) by simp
  with es(9) obtain p where "mat m v v = Some p" "restores log2 (set es) \<lparr>p_cost = 0, p_edges = []\<rparr> p"
    by (metis option_rel_Some1)
  then show ?thesis by (simp add: restores_def mat_def)
qed

lemma longest_product:
  assumes "\<forall>e \<in> set edges. e_cost e \<noteq> NaN" "longest_paths_mult log2 edges = Some (Inr m)"
    and "bm_get m pr = Some p"
  shows "p = product_path (p_edges p)"
proof -
  from assms(1,2) obtain es gs where es: "unique_cheapest_edges edges Greater = Some es"
    "unique_cheapest_edges (map (log_edge log2) es) Less = Some gs"
    "set es \<subseteq> set edges" "set gs = set (map (log_edge log2) es)" "distinct (map e_pair gs)"
    "vertices_of gs = vertices_of edges" "e_pair ` set gs = e_pair ` set edges"
    "\<forall>i \<in> vertices_of edges. \<not> cost_at (fw_matrix gs) i i < 0"
    "\<forall>i j. rel_option (restores log2 (set es)) (mat (fw_matrix gs) i j) (mat m i j)"
    by (rule longest_paths_matrix)
  have "mat m (source pr) (target pr) = Some p" using assms(3) by (simp add: mat_def)
  with es(9) obtain pl where "restores log2 (set es) pl p" by (metis option_rel_Some2)
  then show ?thesis by (auto simp: restores_def product_path_def)
qed

section \<open>Rates whose logarithms are integers\<close>

definition rate_exp :: "(f64 \<Rightarrow> f64) \<Rightarrow> edge \<Rightarrow> int" where
  "rate_exp log2 e = (case log2 (e_cost e) of Fin x \<Rightarrow> \<lfloor>x\<rfloor> | _ \<Rightarrow> 0)"

definition exp_sum :: "(f64 \<Rightarrow> f64) \<Rightarrow> edge list \<Rightarrow> int" where
  "exp_sum log2 es = sum_list (map (rate_exp log2) es)"

definition int_rates :: "(f64 \<Rightarrow> f64) \<Rightarrow> nat \<Rightarrow> edge list \<Rightarrow> bool" where
  "int_rates log2 b edges \<longleftrightarrow>
     (\<forall>e \<in> set edges. e_cost e \<noteq> NaN \<and> log2 (e_cost e) = Fin (of_int (rate_exp log2 e)) \<and>
        \<bar>rate_exp log2 e\<bar> \<le> 2 ^ b) \<and>
     b + 3 * card (vertices_of edges) \<le> 51"

lemma int_rates_log_edges:
  assumes "int_rates log2 b edges" "set es = set edges"
  shows "int_graph b (map (log_edge log2) es)"
    "set ws \<subseteq> set edges \<Longrightarrow> int_sum (map (log_edge log2) ws) = - exp_sum log2 ws"
proof -
  have e: "int_cost (log_edge log2 e) = - rate_exp log2 e" if "e \<in> set edges" for e
    using assms(1) that by (auto simp: int_rates_def int_cost_def f64_ops)
  have "vertices_of es = vertices_of edges" using assms(2) by (simp add: vertices_of_def)
  then show "int_graph b (map (log_edge log2) es)"
    using assms e by (auto simp: int_rates_def int_graph_def f64_ops)
  show "set ws \<subseteq> set edges \<Longrightarrow> int_sum (map (log_edge log2) ws) = - exp_sum log2 ws"
    using e by (induction ws) (simp_all add: exp_sum_def)
qed

lemma int_rates_not_NaN: "int_rates log2 b edges \<Longrightarrow> \<forall>e \<in> set edges. e_cost e \<noteq> NaN"
  by (auto simp: int_rates_def)


lemma log_walk_iff:
  assumes "set gs = log_edge log2 ` set edges"
  shows "walk (set gs) i ps j \<longleftrightarrow>
     (\<exists>ws. set ws \<subseteq> set edges \<and> ps = map (log_edge log2) ws \<and> walk (set edges) i ws j)"
proof
  assume w: "walk (set gs) i ps j"
  then have "ps \<in> lists (log_edge log2 ` set edges)" using walk_edges assms by blast
  then obtain ws where "set ws \<subseteq> set edges" "ps = map (log_edge log2) ws" by (auto simp: lists_image)
  with w assms show "\<exists>ws. set ws \<subseteq> set edges \<and> ps = map (log_edge log2) ws \<and> walk (set edges) i ws j"
    by (auto simp: walk_log_edges)
qed (use assms in \<open>auto simp: walk_log_edges\<close>)

lemma arbitrage_iff:
  assumes "int_rates log2 b edges" "set gs = log_edge log2 ` set edges"
  shows "(\<exists>i ps. walk (set gs) i ps i \<and> int_sum ps < 0) \<longleftrightarrow>
     (\<exists>i ws. walk (set edges) i ws i \<and> 0 < exp_sum log2 ws)" (is "?L \<longleftrightarrow> ?R")
proof
  assume ?L
  then obtain i ws where "set ws \<subseteq> set edges" "walk (set edges) i ws i" "int_sum (map (log_edge log2) ws) < 0"
    unfolding log_walk_iff [OF assms(2)] by blast
  with int_rates_log_edges(2) [OF assms(1) refl] show ?R by (intro exI [of _ i] exI [of _ ws]) simp
next
  assume ?R
  then obtain i ws where ws: "walk (set edges) i ws i" "0 < exp_sum log2 ws" by blast
  then have sub: "set ws \<subseteq> set edges" using walk_edges by blast
  with ws have "walk (set gs) i (map (log_edge log2) ws) i"
    using log_walk_iff [OF assms(2)] by blast
  moreover have "int_sum (map (log_edge log2) ws) < 0"
    using ws(2) int_rates_log_edges(2) [OF assms(1) refl sub] by simp
  ultimately show ?L by blast
qed

lemma longest_paths_int:
  assumes "distinct (map e_pair edges)" "int_rates log2 b edges"
  obtains (arbitrage) "\<exists>i ws. walk (set edges) i ws i \<and> 0 < exp_sum log2 ws"
      "longest_paths_mult log2 edges = Some (Inl NegativeCycles)"
  | (paths) gs m where "\<not> (\<exists>i ws. walk (set edges) i ws i \<and> 0 < exp_sum log2 ws)"
      "longest_paths_mult log2 edges = Some (Inr m)" "set gs = log_edge log2 ` set edges"
      "distinct (map e_pair gs)" "int_graph b gs"
      "\<forall>i j. rel_option (restores log2 (set edges)) (mat (fw_matrix gs) i j) (mat m i j)"
proof -
  from int_rates_not_NaN [OF assms(2)] obtain es where es: "unique_cheapest_edges edges Greater = Some es"
    "set es \<subseteq> set edges" "distinct (map e_pair es)" "vertices_of es = vertices_of edges"
    "distinct (map e_pair (map (log_edge log2) es))"
    "longest_paths_mult log2 edges = (case shortest_paths (map (log_edge log2) es) of
       None \<Rightarrow> None
     | Some (Inl err) \<Rightarrow> Some (Inl err)
     | Some (Inr m) \<Rightarrow> map_option (\<lambda>kvs. Inr (bm_collect kvs)) (run_map (restore_weights (rate_map es)) m))"
    by (rule longest_paths_selects)
  have sets: "set es = set edges"
    using unique_cheapest_edges_distinct [OF assms(1), of Greater] es(1) by (metis option.inject)
  note ints = int_rates_log_edges(1) [OF assms(2) sets]
  from shortest_paths_int [OF es(5) ints] obtain gs where gs: "set gs = set (map (log_edge log2) es)"
    "distinct (map e_pair gs)" "int_graph b gs"
    "shortest_paths (map (log_edge log2) es) =
       Some (if \<exists>i ws. walk (set (map (log_edge log2) es)) i ws i \<and> int_sum ws < 0
             then Inl NegativeCycles else Inr (fw_matrix gs))" by blast
  have gs_edges: "set gs = log_edge log2 ` set edges" using gs(1) sets by simp
  note arb = arbitrage_iff [OF assms(2) gs_edges]
  have "uses_edges (log_edge log2 ` set es) (fw_matrix gs)"
    using fw_matrix_uses_edges [of gs] gs(1) by simp
  from restore_matrix [OF es(3) this] obtain kvs where kvs:
    "run_map (restore_weights (rate_map es)) (fw_matrix gs) = Some kvs"
    "\<And>i j. rel_option (restores log2 (set es)) (mat (fw_matrix gs) i j) (mat (bm_collect kvs) i j)" by blast
  show thesis
  proof (cases "\<exists>i ws. walk (set edges) i ws i \<and> 0 < exp_sum log2 ws")
    case True
    then have "longest_paths_mult log2 edges = Some (Inl NegativeCycles)"
      using arb by (simp only: es(6) gs(4) gs(1) [symmetric] option.case sum.case if_True)
    with True show thesis by (rule arbitrage)
  next
    case False
    then have "longest_paths_mult log2 edges = Some (Inr (bm_collect kvs))"
      using arb by (simp only: es(6) gs(4) gs(1) [symmetric] option.case sum.case if_False kvs(1) option.map)
    from paths [OF False this gs_edges gs(2,3)] kvs(2) sets show thesis by simp
  qed
qed


lemma restored_distance:
  assumes "int_rates log2 b edges" "set gs = log_edge log2 ` set edges"
    and "distinct (map e_pair gs)" "int_graph b gs"
    and "\<not> (\<exists>i ws. walk (set edges) i ws i \<and> 0 < exp_sum log2 ws)"
    and "\<forall>i j. rel_option (restores log2 (set edges)) (mat (fw_matrix gs) i j) (mat m i j)"
    and "walk (set edges) i ws j" "ws \<noteq> []"
  obtains pl p where "walk (set gs) i (p_edges pl) j"
    "int_sum (p_edges pl) \<le> int_sum (map (log_edge log2) ws)"
    "bm_get m (Pair i j) = Some p" "restores log2 (set edges) pl p"
proof -
  have "set ws \<subseteq> set edges" using walk_edges [OF assms(7)] .
  then have "walk (set gs) i (map (log_edge log2) ws) j"
    using assms(7) log_walk_iff [OF assms(2)] by blast
  from fw_matrix_distance [OF assms(3,4) _ this] assms(5,8)
  obtain pl where pl: "mat (fw_matrix gs) i j = Some pl" "walk (set gs) i (p_edges pl) j"
    "int_sum (p_edges pl) \<le> int_sum (map (log_edge log2) ws)"
    by (auto simp: arbitrage_iff [OF assms(1,2)] exact_path_def)
  with assms(6) obtain p where "bm_get m (Pair i j) = Some p" "restores log2 (set edges) pl p"
    by (metis mat_def option_rel_Some1)
  with that pl show thesis by blast
qed

text \<open>Where the base-two logarithms of the rates are integers and there is one edge per pair, for
  every chain of rates between two currencies the returned chain's logarithms sum to at least as much.\<close>

lemma longest_paths_mult_best_logs:
  assumes "distinct (map e_pair edges)" "int_rates log2 b edges"
    and "longest_paths_mult log2 edges = Some (Inr m)" "walk (set edges) i ws j" "ws \<noteq> []"
  shows "\<exists>p. bm_get m (Pair i j) = Some p \<and> walk (set edges) i (p_edges p) j \<and>
     exp_sum log2 ws \<le> exp_sum log2 (p_edges p)"
  using assms(1,2)
proof (cases rule: longest_paths_int)
  case arbitrage
  then show ?thesis using assms(3) by simp
next
  case (paths gs m')
  then have "m' = m" using assms(3) by simp
  from restored_distance [OF assms(2) paths(3-5,1,6) assms(4,5)] obtain pl p where
    pl: "walk (set gs) i (p_edges pl) j" "int_sum (p_edges pl) \<le> int_sum (map (log_edge log2) ws)"
    and p: "bm_get m (Pair i j) = Some p" "restores log2 (set edges) pl p"
    unfolding \<open>m' = m\<close> by blast
  note r = restores_walk [OF p(2) pl(1)]
  have w: "walk (set edges) i (p_edges p) j" "p_edges pl = map (log_edge log2) (p_edges p)"
    using r(1,2) paths(3) by simp_all
  have "set (p_edges p) \<subseteq> set edges" using walk_edges [OF w(1)] .
  with pl(2) walk_edges [OF assms(4)] int_rates_log_edges(2) [OF assms(2) refl] have "exp_sum log2 ws \<le> exp_sum log2 (p_edges p)"
    by (simp add: w(2))
  with p(1) w(1) show ?thesis by blast
qed

text \<open>In the same setting \<open>NegativeCyclesError\<close> is returned exactly when the rates admit
  arbitrage: a cycle of rates whose logarithms sum to more than zero, so whose product is above
  one.\<close>

theorem longest_paths_mult_arbitrage:
  assumes "distinct (map e_pair edges)" "int_rates log2 b edges"
  shows "longest_paths_mult log2 edges = Some (Inl NegativeCycles) \<longleftrightarrow>
     (\<exists>i ws. walk (set edges) i ws i \<and> 0 < exp_sum log2 ws)"
  using assms by (cases rule: longest_paths_int) auto

section \<open>A correctly rounded logarithm, and sample rates\<close>

fun rounded_log2 :: "f64 \<Rightarrow> f64" where
  "rounded_log2 (Fin r) = (if r = 0 then NInf else if r < 0 then NaN else rnd (log 2 r))"
| "rounded_log2 PInf = PInf"
| "rounded_log2 _ = NaN"

lemma rounded_log2_powi: "\<bar>k\<bar> < 2 ^ 53 \<Longrightarrow> rounded_log2 (Fin (2 powi k)) = Fin (of_int k)"
proof -
  assume k: "\<bar>k\<bar> < 2 ^ 53"
  have "log 2 (2 powi k) = of_int k"
    using powr_real_of_int' [of 2 k] log_powr_cancel [of 2 "of_int k"] by simp
  with rnd_of_int [OF k] powi_pos [of k] show ?thesis by (simp add: order_less_not_sym)
qed

text \<open>Two steps beat the direct rate; and a cycle that doubles the money.\<close>

definition sample_rates :: "edge list" where
  "sample_rates =
     [\<lparr>e_pair = Pair 5 6, e_provider = 0, e_cost = Fin (1 / 8)\<rparr>,
      \<lparr>e_pair = Pair 6 7, e_provider = 0, e_cost = Fin (1 / 4)\<rparr>,
      \<lparr>e_pair = Pair 5 7, e_provider = 0, e_cost = Fin (1 / 64)\<rparr>]"

definition arbitrage_rates :: "edge list" where
  "arbitrage_rates =
     [\<lparr>e_pair = Pair 5 6, e_provider = 0, e_cost = Fin (8)\<rparr>,
      \<lparr>e_pair = Pair 6 5, e_provider = 0, e_cost = Fin (1 / 4)\<rparr>]"

lemma rounded_log2_sample:
  "rounded_log2 (Fin (1 / 8)) = Fin (- 3)" "rounded_log2 (Fin (1 / 4)) = Fin (- 2)"
  "rounded_log2 (Fin (1 / 64)) = Fin (- 6)" "rounded_log2 (Fin 8) = Fin 3"
  using rounded_log2_powi [of "- 3"] rounded_log2_powi [of "- 2"] rounded_log2_powi [of "- 6"]
    rounded_log2_powi [of 3]
  by (simp_all del: rounded_log2.simps)

lemmas sample_rates_eval = sample_rates_def arbitrage_rates_def int_rates_def small_rates_def
  rate_exp_def exp_sum_def vertices_of_def card_insert_if rounded_log2_sample f64_ops

lemma sample_int_rates: "int_rates rounded_log2 4 sample_rates" "distinct (map e_pair sample_rates)"
  by (simp_all add: sample_rates_eval del: rounded_log2.simps)

lemma sample_small_rates: "small_rates rounded_log2 4 sample_rates"
  by (simp add: sample_rates_eval del: rounded_log2.simps)

lemma arbitrage_int_rates: "int_rates rounded_log2 4 arbitrage_rates" "distinct (map e_pair arbitrage_rates)"
  by (simp_all add: sample_rates_eval del: rounded_log2.simps)

lemma arbitrage_walk:
  "walk (set arbitrage_rates) 5 arbitrage_rates 5" "exp_sum rounded_log2 arbitrage_rates = 1"
  by (simp_all add: sample_rates_eval del: rounded_log2.simps)

lemma no_gain:
  "\<forall>e \<in> E. rate_exp log2 e \<le> 0 \<Longrightarrow> walk E i ws j \<Longrightarrow> exp_sum log2 ws \<le> 0"
  using walk_edges [of E i ws j] unfolding exp_sum_def by (intro sum_list_nonpos) auto

lemma sample_rates_result:
  obtains m p where "longest_paths_mult rounded_log2 sample_rates = Some (Inr m)"
    "bm_get m (Pair 5 7) = Some p"
  using sample_int_rates(2,1)
proof (cases rule: longest_paths_int)
  case arbitrage
  have "\<forall>e \<in> set sample_rates. rate_exp rounded_log2 e \<le> 0"
    by (simp add: sample_rates_eval del: rounded_log2.simps)
  with no_gain arbitrage(1) show ?thesis by (metis not_less)
next
  case (paths gs m)
  have "walk (set sample_rates) 5 [sample_rates ! 2] 7" by (simp add: sample_rates_def)
  from restored_distance [OF sample_int_rates(1) paths(3-5,1,6) this] that paths(2) show ?thesis
    by blast
qed

theorem longest_paths_mult_sound_witness:
  "\<exists>m p. longest_paths_mult rounded_log2 sample_rates = Some (Inr m) \<and> bm_get m (Pair 5 7) = Some p \<and>
     walk (set sample_rates) 5 (p_edges p) 7 \<and>
     p_cost p = foldl (\<lambda>acc e. acc * e_cost e) 1 (p_edges p)"
proof -
  obtain m p where m: "longest_paths_mult rounded_log2 sample_rates = Some (Inr m)"
    "bm_get m (Pair 5 7) = Some p" by (rule sample_rates_result)
  with longest_paths_mult_sound [OF sample_small_rates m] show ?thesis by blast
qed

theorem longest_paths_mult_optimal_witness:
  "\<exists>m p es gs c. longest_paths_mult rounded_log2 sample_rates = Some (Inr m) \<and>
     unique_cheapest_edges sample_rates Greater = Some es \<and>
     unique_cheapest_edges (map (log_edge rounded_log2) es) Less = Some gs \<and>
     bm_get m (Pair 5 7) = Some p \<and> tree_cost (map (log_edge rounded_log2) (p_edges p)) c \<and>
     c \<le> split_cost (direct_cost gs) (rev (scan_vertices sample_rates)) 5 [6] 7"
proof -
  obtain m p where m: "longest_paths_mult rounded_log2 sample_rates = Some (Inr m)"
    "bm_get m (Pair 5 7) = Some p" by (rule sample_rates_result)
  obtain es gs where es: "unique_cheapest_edges sample_rates Greater = Some es"
    "unique_cheapest_edges (map (log_edge rounded_log2) es) Less = Some gs"
    by (rule longest_paths_matrix [OF small_rates_not_NaN [OF sample_small_rates] m(1)]) blast
  have "distinct [6 :: nat]" "set [6] \<subseteq> vertices_of sample_rates"
    by (simp_all add: sample_rates_def vertices_of_def)
  from longest_paths_mult_optimal [OF sample_small_rates m(1) es m(2) this] m es show ?thesis by blast
qed

theorem longest_paths_mult_arbitrage_witness:
  "longest_paths_mult rounded_log2 arbitrage_rates = Some (Inl NegativeCycles) \<and>
     walk (set arbitrage_rates) 5 arbitrage_rates 5 \<and> 0 < exp_sum rounded_log2 arbitrage_rates"
  using longest_paths_mult_arbitrage [OF arbitrage_int_rates(2,1)] arbitrage_walk
  by (metis zero_less_one)

end
