(* ===== verification/Calculator.thy ===== *)
theory Calculator
  imports Best_Rates
begin

text \<open>
  The best path calculators: \<open>best_path_calculator/floyd_warshall/calculator.rs\<close>, which maps
  currencies and providers to indices, scales the prices to doubles and runs
  \<open>longest_paths_mult\<close>, and \<open>best_path_calculator/noop_calculator.rs\<close>. The trait
  \<open>BestPathCalculator\<close> is the locale \<open>best_path_calculator\<close>; both implementations are
  interpreted as one. The amount type is generic: \<open>to_u128\<close> and \<open>from_u128\<close> are its conversions
  (\<open>TryInto<u128>\<close>, \<open>TryFrom<u128>\<close>).
\<close>

type_synonym ('c, 'a) priced = "'c provider_pair \<times> 'a"
type_synonym ('c, 'a) best_paths = "('c pair, ('c, 'a) price_path) bmap"

definition calculator_error_from :: "path_calculation_error \<Rightarrow> calculator_error" where
  "calculator_error_from err = (case err of NegativeCycles \<Rightarrow> NegativeCyclesError)"

definition PRECISION :: f64 where
  "PRECISION = Fin 1000000000000"

section \<open>Indexing\<close>

definition currencies_of :: "('c::linorder, 'a) priced list \<Rightarrow> 'c list" where
  "currencies_of pairs_and_prices =
     bs_collect (concat (map (\<lambda>(pp, _). [source (pp_pair pp), target (pp_pair pp)]) pairs_and_prices))"

definition providers_of :: "('c, 'a) priced list \<Rightarrow> provider list" where
  "providers_of pairs_and_prices = bs_collect (map (\<lambda>(pp, _). pp_provider pp) pairs_and_prices)"

definition by_ind :: "'k::linorder list \<Rightarrow> ('k, nat) bmap" where
  "by_ind xs = bm_collect (map (\<lambda>(i, x). (x, i)) (enumerate 0 xs))"

text \<open>\<open>xs[i]\<close> on a vector: out of range is a panic.\<close>

definition vec_at :: "'a list \<Rightarrow> nat \<Rightarrow> 'a run" where
  "vec_at xs i = (if i < length xs then Some (xs ! i) else None)"

section \<open>Building the graph\<close>

definition calc_edge ::
  "('a \<Rightarrow> u128 option) \<Rightarrow> ('c::linorder, nat) bmap \<Rightarrow> (provider, nat) bmap \<Rightarrow> ('c, 'a) priced \<Rightarrow>
     (calculator_error, edge) result run" where
  "calc_edge to_u128 currencies_by_ind providers_by_ind = (\<lambda>(pp, cost). do {
     s \<leftarrow> bm_get currencies_by_ind (source (pp_pair pp));
     t \<leftarrow> bm_get currencies_by_ind (target (pp_pair pp));
     p \<leftarrow> bm_get providers_by_ind (pp_provider pp);
     case to_u128 cost of
       None \<Rightarrow> Some (Inl ConversionError)
     | Some u \<Rightarrow> Some (Inr \<lparr>e_pair = Pair s t, e_provider = p, e_cost = f64_of_u128 u div PRECISION\<rparr>)
   })"

fun graph_of_currency ::
  "('c::linorder, 'a) priced list \<Rightarrow> (('c, 'a) priced \<Rightarrow> (calculator_error, edge) result run) \<Rightarrow> 'c \<Rightarrow>
     edge list \<Rightarrow> (calculator_error, edge list) result run" where
  "graph_of_currency [] edge_of c graph = Some (Inr graph)"
| "graph_of_currency (x # pairs) edge_of c graph =
     (if c = source (pp_pair (fst x))
      then case edge_of x of
             None \<Rightarrow> None
           | Some (Inl err) \<Rightarrow> Some (Inl err)
           | Some (Inr e) \<Rightarrow> graph_of_currency pairs edge_of c (graph @ [e])
      else graph_of_currency pairs edge_of c graph)"

fun calc_graph ::
  "('c::linorder, 'a) priced list \<Rightarrow> (('c, 'a) priced \<Rightarrow> (calculator_error, edge) result run) \<Rightarrow> 'c list \<Rightarrow>
     edge list \<Rightarrow> (calculator_error, edge list) result run" where
  "calc_graph pairs edge_of [] graph = Some (Inr graph)"
| "calc_graph pairs edge_of (c # cs) graph =
     (case graph_of_currency pairs edge_of c graph of
        None \<Rightarrow> None
      | Some (Inl err) \<Rightarrow> Some (Inl err)
      | Some (Inr graph') \<Rightarrow> calc_graph pairs edge_of cs graph')"

section \<open>Reading the paths back\<close>

definition path_step_of ::
  "(u128 \<Rightarrow> 'a option) \<Rightarrow> 'c list \<Rightarrow> provider list \<Rightarrow> edge \<Rightarrow> ('c, 'a) path_step run" where
  "path_step_of from_u128 currencies providers e = do {
     s \<leftarrow> vec_at currencies (source (e_pair e));
     t \<leftarrow> vec_at currencies (target (e_pair e));
     p \<leftarrow> vec_at providers (e_provider e);
     cost \<leftarrow> from_u128 (f64_to_u128 (e_cost e * PRECISION));
     Some \<lparr>step_pair = Pair s t, step_provider = p, step_cost = cost\<rparr>
   }"

definition price_path_of ::
  "(u128 \<Rightarrow> 'a option) \<Rightarrow> 'c list \<Rightarrow> provider list \<Rightarrow> vpair \<times> path \<Rightarrow> ('c pair \<times> ('c, 'a) price_path) run" where
  "price_path_of from_u128 currencies providers = (\<lambda>(pr, path). do {
     s \<leftarrow> vec_at currencies (source pr);
     t \<leftarrow> vec_at currencies (target pr);
     total \<leftarrow> from_u128 (f64_to_u128 (p_cost path * PRECISION));
     steps \<leftarrow> run_map (path_step_of from_u128 currencies providers) (p_edges path);
     Some (Pair s t, \<lparr>total_cost = total, steps = steps\<rparr>)
   })"

definition calc_best_paths ::
  "(f64 \<Rightarrow> f64) \<Rightarrow> ('a \<Rightarrow> u128 option) \<Rightarrow> (u128 \<Rightarrow> 'a option) \<Rightarrow> ('c::linorder, 'a) priced list \<Rightarrow>
     (calculator_error, ('c, 'a) best_paths) result run" where
  "calc_best_paths log2 to_u128 from_u128 pairs_and_prices = do {
     let currencies = currencies_of pairs_and_prices;
     let providers = providers_of pairs_and_prices;
     graph \<leftarrow> calc_graph pairs_and_prices
       (calc_edge to_u128 (by_ind currencies) (by_ind providers)) currencies [];
     case graph of
       Inl err \<Rightarrow> Some (Inl err)
     | Inr graph \<Rightarrow> do {
         res \<leftarrow> longest_paths_mult log2 graph;
         case res of
           Inl err \<Rightarrow> Some (Inl (calculator_error_from err))
         | Inr res_map \<Rightarrow>
             map_option (\<lambda>kvs. Inr (bm_collect kvs))
               (run_map (price_path_of from_u128 currencies providers) res_map)
       }
   }"

section \<open>No best paths\<close>

definition noop_calc_best_paths ::
  "('c::linorder, 'a) priced list \<Rightarrow> (calculator_error, ('c, 'a) best_paths) result run" where
  "noop_calc_best_paths pairs_and_prices =
     Some (Inr (bm_collect (map (\<lambda>(pp, price).
       (Pair (source (pp_pair pp)) (target (pp_pair pp)), \<lparr>total_cost = price, steps = []\<rparr>)) pairs_and_prices)))"

section \<open>Indices are sound\<close>

lemma set_currencies_of:
  "set (currencies_of ps) = (\<Union>x \<in> set ps. {source (pp_pair (fst x)), target (pp_pair (fst x))})"
  by (force simp: currencies_of_def)

lemma set_providers_of: "set (providers_of ps) = (\<lambda>x. pp_provider (fst x)) ` set ps"
  by (force simp: providers_of_def)

lemma distinct_currencies_of [simp]: "distinct (currencies_of ps)"
  by (simp add: currencies_of_def)

lemma distinct_providers_of [simp]: "distinct (providers_of ps)"
  by (simp add: providers_of_def)

lemma by_ind_get:
  assumes "distinct xs"
  shows "bm_get (by_ind xs) x = Some i \<longleftrightarrow> i < length xs \<and> xs ! i = x"
proof -
  have "map fst (map (\<lambda>(i, x). (x, i)) (enumerate 0 xs)) = xs" by (simp add: comp_def case_prod_beta)
  then have "distinct (map fst (rev (map (\<lambda>(i, x). (x, i)) (enumerate 0 xs))))"
    using assms by (simp only: rev_map [symmetric] distinct_rev)
  then have "bm_get (by_ind xs) x = Some i \<longleftrightarrow> (x, i) \<in> set (map (\<lambda>(i, x). (x, i)) (enumerate 0 xs))"
    unfolding by_ind_def bm_get_collect by (simp only: map_of_eq_Some_iff set_rev)
  also have "\<dots> \<longleftrightarrow> (i, x) \<in> set (enumerate 0 xs)" by force
  finally show ?thesis by (auto simp: in_set_enumerate_eq)
qed

lemma by_ind_defined: "distinct xs \<Longrightarrow> x \<in> set xs \<Longrightarrow> \<exists>i < length xs. xs ! i = x \<and> bm_get (by_ind xs) x = Some i"
  using by_ind_get [of xs x] by (auto simp: in_set_conv_nth)

lemma vec_at_eq [simp]: "i < length xs \<Longrightarrow> vec_at xs i = Some (xs ! i)"
  by (simp add: vec_at_def)


text \<open>The edge of a priced pair, and the pair an edge stands for.\<close>

definition encode :: "('a \<Rightarrow> u128 option) \<Rightarrow> ('c::linorder, 'a) priced list \<Rightarrow> ('c, 'a) priced \<Rightarrow> edge" where
  "encode to_u128 ps x =
     \<lparr>e_pair = Pair (the (bm_get (by_ind (currencies_of ps)) (source (pp_pair (fst x)))))
                (the (bm_get (by_ind (currencies_of ps)) (target (pp_pair (fst x))))),
      e_provider = the (bm_get (by_ind (providers_of ps)) (pp_provider (fst x))),
      e_cost = f64_of_u128 (the (to_u128 (snd x))) div PRECISION\<rparr>"

lemma encode_in_range:
  assumes "x \<in> set ps"
  shows "source (e_pair (encode to ps x)) < length (currencies_of ps)"
    "target (e_pair (encode to ps x)) < length (currencies_of ps)"
    "e_provider (encode to ps x) < length (providers_of ps)"
    "currencies_of ps ! source (e_pair (encode to ps x)) = source (pp_pair (fst x))"
    "currencies_of ps ! target (e_pair (encode to ps x)) = target (pp_pair (fst x))"
    "providers_of ps ! e_provider (encode to ps x) = pp_provider (fst x)"
proof -
  have "source (pp_pair (fst x)) \<in> set (currencies_of ps)" "target (pp_pair (fst x)) \<in> set (currencies_of ps)"
    "pp_provider (fst x) \<in> set (providers_of ps)"
    using assms by (auto simp: set_currencies_of set_providers_of)
  then show "source (e_pair (encode to ps x)) < length (currencies_of ps)"
    "target (e_pair (encode to ps x)) < length (currencies_of ps)"
    "e_provider (encode to ps x) < length (providers_of ps)"
    "currencies_of ps ! source (e_pair (encode to ps x)) = source (pp_pair (fst x))"
    "currencies_of ps ! target (e_pair (encode to ps x)) = target (pp_pair (fst x))"
    "providers_of ps ! e_provider (encode to ps x) = pp_provider (fst x)"
    by (auto simp: encode_def dest!: by_ind_defined [OF distinct_currencies_of]
        by_ind_defined [OF distinct_providers_of])
qed

lemma calc_edge_encode:
  assumes "x \<in> set ps"
  shows "calc_edge to_u128 (by_ind (currencies_of ps)) (by_ind (providers_of ps)) x =
     Some (if to_u128 (snd x) = None then Inl ConversionError else Inr (encode to_u128 ps x))"
proof -
  have "source (pp_pair (fst x)) \<in> set (currencies_of ps)" "target (pp_pair (fst x)) \<in> set (currencies_of ps)"
    "pp_provider (fst x) \<in> set (providers_of ps)"
    using assms by (auto simp: set_currencies_of set_providers_of)
  then show ?thesis
    by (auto simp: calc_edge_def encode_def case_prod_beta split: option.split
        dest!: by_ind_defined [OF distinct_currencies_of] by_ind_defined [OF distinct_providers_of])
qed

abbreviation items_of :: "('c, 'a) priced list \<Rightarrow> 'c \<Rightarrow> ('c, 'a) priced set" where
  "items_of xs c \<equiv> {x \<in> set xs. c = source (pp_pair (fst x))}"

text \<open>Looping over some of the items adds their edges, or stops at a failed conversion.\<close>

definition adds_edges ::
  "('x \<Rightarrow> bool) \<Rightarrow> ('x \<Rightarrow> edge) \<Rightarrow> 'x set \<Rightarrow> edge list \<Rightarrow> (calculator_error, edge list) result run \<Rightarrow> bool" where
  "adds_edges bad enc S g r \<longleftrightarrow>
     ((\<exists>x \<in> S. bad x) \<and> r = Some (Inl ConversionError)) \<or>
     ((\<forall>x \<in> S. \<not> bad x) \<and> (\<exists>g'. r = Some (Inr g') \<and> set g' = set g \<union> enc ` S))"

lemma adds_edges_empty: "adds_edges bad enc {} g (Some (Inr g))"
  by (simp add: adds_edges_def)

lemma graph_of_currency_adds:
  assumes "\<forall>x \<in> set xs. edge_of x = Some (if bad x then Inl ConversionError else Inr (enc x))"
  shows "adds_edges bad enc (items_of xs c) g (graph_of_currency xs edge_of c g)"
  using assms
proof (induction xs arbitrary: g)
  case (Cons x xs)
  have other: "items_of (x # xs) c = items_of xs c" if "c \<noteq> source (pp_pair (fst x))"
    using that by auto
  have hit: "items_of (x # xs) c = insert x (items_of xs c)" if "c = source (pp_pair (fst x))"
    using that by auto
  show ?case
  proof (cases "c = source (pp_pair (fst x))")
    case True
    have "adds_edges bad enc (items_of xs c) (g @ [enc x]) (graph_of_currency xs edge_of c (g @ [enc x]))"
      using Cons by simp
    with Cons.prems hit [OF True] True show ?thesis
      by (cases "bad x") (auto simp: adds_edges_def)
  qed (use Cons other in simp)
qed (simp add: adds_edges_empty)

lemma calc_graph_adds:
  assumes "\<forall>x \<in> set xs. edge_of x = Some (if bad x then Inl ConversionError else Inr (enc x))"
  shows "adds_edges bad enc (\<Union>c \<in> set cs. items_of xs c) g (calc_graph xs edge_of cs g)"
proof (induction cs arbitrary: g)
  case (Cons c cs)
  let ?S = "items_of xs c" and ?T = "\<Union>c \<in> set cs. items_of xs c"
  have S: "adds_edges bad enc ?S g (graph_of_currency xs edge_of c g)"
    using assms by (rule graph_of_currency_adds)
  have "adds_edges bad enc (?S \<union> ?T) g (calc_graph xs edge_of (c # cs) g)"
  proof (cases "\<exists>x \<in> ?S. bad x")
    case True
    with S have "graph_of_currency xs edge_of c g = Some (Inl ConversionError)" by (auto simp: adds_edges_def)
    with True show ?thesis by (auto simp: adds_edges_def)
  next
    case False
    with S obtain g' where g': "graph_of_currency xs edge_of c g = Some (Inr g')" "set g' = set g \<union> enc ` ?S"
      by (auto simp: adds_edges_def)
    from Cons [of g'] show ?thesis
      unfolding adds_edges_def calc_graph.simps g'(1) option.case sum.case g'(2)
      using False by (simp only: image_Un Un_assoc) blast
  qed
  then show ?case by simp
qed (simp add: adds_edges_empty)

lemma calc_graph_encode:
  "adds_edges (\<lambda>x. to_u128 (snd x) = None) (encode to_u128 ps) (set ps) []
     (calc_graph ps (calc_edge to_u128 (by_ind (currencies_of ps)) (by_ind (providers_of ps))) (currencies_of ps) [])"
proof -
  have all: "(\<Union>c \<in> set (currencies_of ps). items_of ps c) = set ps" by (auto simp: set_currencies_of)
  have "\<forall>x \<in> set ps. calc_edge to_u128 (by_ind (currencies_of ps)) (by_ind (providers_of ps)) x =
     Some (if to_u128 (snd x) = None then Inl ConversionError else Inr (encode to_u128 ps x))"
    using calc_edge_encode by blast
  from calc_graph_adds [OF this, of "currencies_of ps" "[]"] show ?thesis unfolding all .
qed


section \<open>The rates\<close>

lemma f64_of_u128_Fin:
  obtains r where "f64_of_u128 u = Fin r" "u = 0 \<longrightarrow> r = 0" "u \<noteq> 0 \<longrightarrow> 1 \<le> r" "0 \<le> r" "r \<le> 2 ^ 128"
proof -
  let ?x = "real (unat u)"
  have "unat u < 2 ^ 128" using unsigned_less [of u] by simp
  then have x: "?x \<le> 2 ^ 128" by (metis of_nat_less_iff of_nat_numeral of_nat_power order_less_imp_le)
  then have "\<bar>?x\<bar> \<le> 2 ^ 128" by (simp only: abs_of_nat)
  note r = rnd_Fin [OF this]
  have "1 \<le> rnd_real ?x" if "u \<noteq> 0"
  proof -
    have "1 \<le> unat u" using that by (simp add: Suc_leI unat_gt_0)
    then have "real 1 \<le> ?x" by (simp only: of_nat_le_iff)
    then have "rnd_real (2 ^ 0) \<le> rnd_real ?x" by (intro rnd_real_mono) (simp only: of_nat_1 power_0)
    then show ?thesis by (simp only: rnd_real_pow2) simp
  qed
  moreover have "0 \<le> rnd_real ?x" by (intro rnd_real_nonneg of_nat_0_le_iff)
  ultimately show thesis using that [of "rnd_real ?x"] r by (simp add: f64_of_u128_def)
qed

text \<open>A price as a rate: zero, or between \<open>2 ^ -40\<close> and \<open>2 ^ 128\<close>.\<close>

lemma rate_Fin:
  obtains r where "f64_of_u128 u div PRECISION = Fin r" "u = 0 \<longrightarrow> r = 0" "u \<noteq> 0 \<longrightarrow> 2 powi - 40 \<le> r"
    "0 \<le> r" "r \<le> 2 ^ 128"
proof -
  obtain q where q: "f64_of_u128 u = Fin q" "u = 0 \<longrightarrow> q = 0" "u \<noteq> 0 \<longrightarrow> 1 \<le> q" "0 \<le> q" "q \<le> 2 ^ 128"
    by (rule f64_of_u128_Fin)
  let ?x = "q / 1000000000000"
  have "\<bar>?x\<bar> \<le> 2 ^ 128" using q(4,5) by simp
  note r = rnd_Fin [OF this]
  have "2 powi - 40 \<le> rnd_real ?x" if "u \<noteq> 0"
  proof -
    have "2 powi - 40 \<le> ?x" using that q(3) by simp
    then have "rnd_real (2 powi - 40) \<le> rnd_real ?x" by (rule rnd_real_mono)
    then show ?thesis by (simp only: rnd_real_powi)
  qed
  moreover have "0 \<le> rnd_real ?x" using q(4) by (intro rnd_real_nonneg) simp
  ultimately show thesis using that [of "rnd_real ?x"] r q(1,2) by (simp add: PRECISION_def divide_f64_def)
qed

lemma rate_not_NaN: "f64_of_u128 u div PRECISION \<noteq> NaN"
  by (rule rate_Fin [of u]) simp

text \<open>
  What the results use of \<open>f64::log2\<close>: minus infinity at zero, and a finite value of the
  logarithm's magnitude at any positive double.
\<close>

definition log2_ok :: "(f64 \<Rightarrow> f64) \<Rightarrow> bool" where
  "log2_ok log2 \<longleftrightarrow> log2 (Fin 0) = NInf \<and>
     (\<forall>r. 2 powi - 1074 \<le> r \<and> r < 2 ^ 1024 \<longrightarrow> (\<exists>y. log2 (Fin r) = Fin y \<and> \<bar>y\<bar> \<le> 2 ^ 11))"

lemma rounded_log2_ok: "log2_ok rounded_log2"
proof -
  have "\<exists>y. rounded_log2 (Fin r) = Fin y \<and> \<bar>y\<bar> \<le> 2 ^ 11" if "2 powi - 1074 \<le> r" "r < 2 ^ 1024" for r
  proof -
    have pos: "0 < r" using powi_pos [of "- 1074"] that(1) by linarith
    have "2 powr (- 1074) \<le> r" "r \<le> 2 powr 1024"
      using that powr_real_of_int' [of 2 "- 1074"] powr_real_of_int' [of 2 1024] by simp_all
    then have "- 1074 \<le> log 2 r" "log 2 r \<le> 1024"
      using pos by (simp_all add: le_log_iff log_le_iff)
    then have "\<bar>log 2 r\<bar> \<le> 2 ^ 11" by simp
    from rnd_Fin [OF this] pos show ?thesis by simp
  qed
  then show ?thesis by (simp add: log2_ok_def)
qed

lemma log2_rate:
  assumes "log2_ok log2"
  shows "cost_in 11 (- log2 (f64_of_u128 u div PRECISION))"
proof -
  obtain r where r: "f64_of_u128 u div PRECISION = Fin r" "u = 0 \<longrightarrow> r = 0" "u \<noteq> 0 \<longrightarrow> 2 powi - 40 \<le> r"
    "r \<le> 2 ^ 128" by (rule rate_Fin)
  show ?thesis
  proof (cases "u = 0")
    case True
    with r assms show ?thesis by (simp add: log2_ok_def f64_ops)
  next
    case False
    have "(2 :: real) powi - 1074 \<le> 2 powi - 40" by (simp only: powi_le_iff)
    moreover have "(2 :: real) ^ 128 < 2 ^ 1024" by (rule power_strict_increasing) simp_all
    ultimately have "2 powi - 1074 \<le> r" "r < 2 ^ 1024" using False r(3,4) by linarith+
    with assms obtain y where "log2 (Fin r) = Fin y" "\<bar>y\<bar> \<le> 2 ^ 11" by (auto simp: log2_ok_def)
    with r(1) show ?thesis by (simp add: f64_ops)
  qed
qed


section \<open>From the matrix to the result\<close>

definition decode :: "('c::linorder, 'a) priced list \<Rightarrow> vpair \<Rightarrow> 'c pair" where
  "decode ps pr = Pair (currencies_of ps ! source pr) (currencies_of ps ! target pr)"

definition decode_step ::
  "(u128 \<Rightarrow> 'a option) \<Rightarrow> ('c::linorder, 'a) priced list \<Rightarrow> edge \<Rightarrow> ('c, 'a) path_step" where
  "decode_step from_u128 ps e =
     \<lparr>step_pair = decode ps (e_pair e), step_provider = providers_of ps ! e_provider e,
      step_cost = the (from_u128 (f64_to_u128 (e_cost e * PRECISION)))\<rparr>"

definition vertex_ok :: "('c::linorder, 'a) priced list \<Rightarrow> nat \<Rightarrow> bool" where
  "vertex_ok ps i \<longleftrightarrow> i < length (currencies_of ps)"

lemma decode_eq:
  assumes "vertex_ok ps (source p)" "vertex_ok ps (target p)" "vertex_ok ps (source q)" "vertex_ok ps (target q)"
  shows "decode ps p = decode ps q \<longleftrightarrow> p = q"
  using assms nth_eq_iff_index_eq [OF distinct_currencies_of, of _ ps]
  by (auto simp: decode_def vertex_ok_def intro: pair.expand)

lemma decode_encode: "x \<in> set ps \<Longrightarrow> decode ps (e_pair (encode to ps x)) = pp_pair (fst x)"
  using encode_in_range [of x ps to] by (simp add: decode_def)

lemma vertices_of_encode:
  "set g = encode to ps ` set ps \<Longrightarrow> i \<in> vertices_of g \<Longrightarrow> vertex_ok ps i"
  using encode_in_range(1,2) by (fastforce simp: vertices_of_def vertex_ok_def)

lemma card_vertices_of_encode:
  assumes "set g = encode to ps ` set ps"
  shows "card (vertices_of g) \<le> length (currencies_of ps)"
proof -
  have "vertices_of g \<subseteq> {..< length (currencies_of ps)}"
    using vertices_of_encode [OF assms] by (auto simp: vertex_ok_def)
  from card_mono [OF finite_lessThan this] show ?thesis by simp
qed

lemma path_steps:
  assumes "set es \<subseteq> encode to ps ` set ps" "\<And>u. from_u128 u \<noteq> None"
  shows "run_map (path_step_of from_u128 (currencies_of ps) (providers_of ps)) es =
     Some (map (decode_step from_u128 ps) es)"
proof (rule run_map_total)
  fix e
  assume "e \<in> set es"
  with assms(1) obtain x where "x \<in> set ps" "e = encode to ps x" by blast
  moreover obtain c where "from_u128 (f64_to_u128 (e_cost e * PRECISION)) = Some c"
    using assms(2) by fastforce
  ultimately show "path_step_of from_u128 (currencies_of ps) (providers_of ps) e = Some (decode_step from_u128 ps e)"
    using encode_in_range [of x ps to] by (simp add: path_step_of_def decode_step_def decode_def)
qed

text \<open>Every entry of a matrix over encoded edges can be read back.\<close>

lemma price_path_total:
  assumes "vertex_ok ps (source (fst x))" "vertex_ok ps (target (fst x))"
    and "set (p_edges (snd x)) \<subseteq> encode to ps ` set ps" "\<And>u. from_u128 u \<noteq> None"
  shows "price_path_of from_u128 (currencies_of ps) (providers_of ps) x =
     Some (decode ps (fst x), \<lparr>total_cost = the (from_u128 (f64_to_u128 (p_cost (snd x) * PRECISION))),
        steps = map (decode_step from_u128 ps) (p_edges (snd x))\<rparr>)"
proof -
  obtain c where "from_u128 (f64_to_u128 (p_cost (snd x) * PRECISION)) = Some c" using assms(4) by fastforce
  with assms(1,2) path_steps [OF assms(3,4)] show ?thesis
    by (simp add: price_path_of_def decode_def vertex_ok_def case_prod_beta)
qed

definition step_from ::
  "(u128 \<Rightarrow> 'a option) \<Rightarrow> ('c::linorder, 'a) priced list \<Rightarrow> edge \<Rightarrow> ('c, 'a) path_step \<Rightarrow> bool" where
  "step_from from_u128 ps e st \<longleftrightarrow> step_pair st = decode ps (e_pair e) \<and>
     step_provider st = providers_of ps ! e_provider e \<and>
     from_u128 (f64_to_u128 (e_cost e * PRECISION)) = Some (step_cost st)"

definition path_from ::
  "(u128 \<Rightarrow> 'a option) \<Rightarrow> ('c::linorder, 'a) priced list \<Rightarrow> path \<Rightarrow> ('c, 'a) price_path \<Rightarrow> bool" where
  "path_from from_u128 ps p pp \<longleftrightarrow>
     from_u128 (f64_to_u128 (p_cost p * PRECISION)) = Some (total_cost pp) \<and>
     list_all2 (step_from from_u128 ps) (p_edges p) (steps pp)"

lemma vec_at_Some: "vec_at xs i = Some x \<longleftrightarrow> i < length xs \<and> xs ! i = x"
  by (simp add: vec_at_def)

lemma path_step_of_Some: "path_step_of from_u128 (currencies_of ps) (providers_of ps) e = Some st \<Longrightarrow> step_from from_u128 ps e st"
  by (auto simp: path_step_of_def step_from_def decode_def vec_at_Some split: Option.bind_splits)

lemma price_path_of_Some:
  assumes "price_path_of from_u128 (currencies_of ps) (providers_of ps) (pr, p) = Some (k, pp)"
  shows "k = decode ps pr" "vertex_ok ps (source pr)" "vertex_ok ps (target pr)" "path_from from_u128 ps p pp"
proof -
  from assms have *: "k = decode ps pr \<and> vertex_ok ps (source pr) \<and> vertex_ok ps (target pr) \<and>
      from_u128 (f64_to_u128 (p_cost p * PRECISION)) = Some (total_cost pp) \<and>
      run_map (path_step_of from_u128 (currencies_of ps) (providers_of ps)) (p_edges p) = Some (steps pp)"
    by (auto simp: price_path_of_def decode_def vec_at_Some vertex_ok_def split: Option.bind_splits)
  then have "list_all2 (step_from from_u128 ps) (p_edges p) (steps pp)"
    by (auto dest!: run_map_SomeD elim!: list_all2_mono intro: path_step_of_Some)
  with * show "k = decode ps pr" "vertex_ok ps (source pr)" "vertex_ok ps (target pr)"
    "path_from from_u128 ps p pp" by (simp_all add: path_from_def)
qed

lemma read_back:
  assumes "bm_wf mm" "run_map (price_path_of from_u128 (currencies_of ps) (providers_of ps)) mm = Some kvs"
  shows "bm_get (bm_collect kvs) k = Some pp \<Longrightarrow>
      \<exists>i j p. bm_get mm (Pair i j) = Some p \<and> k = decode ps (Pair i j) \<and> path_from from_u128 ps p pp \<and>
        vertex_ok ps i \<and> vertex_ok ps j"
    "bm_get mm (Pair i j) = Some p \<Longrightarrow>
      \<exists>pp. bm_get (bm_collect kvs) (decode ps (Pair i j)) = Some pp \<and> path_from from_u128 ps p pp"
proof -
  let ?R = "\<lambda>x y. price_path_of from_u128 (currencies_of ps) (providers_of ps) x = Some y"
  have all: "list_all2 ?R mm kvs" using assms(2) by (rule run_map_SomeD)
  have ok: "vertex_ok ps (source (fst x)) \<and> vertex_ok ps (target (fst x)) \<and> fst y = decode ps (fst x) \<and>
      path_from from_u128 ps (snd x) (snd y)" if "?R x y" for x y
  proof -
    obtain pr p k q where "x = (pr, p)" "y = (k, q)" by (cases x; cases y)
    with price_path_of_Some [of from_u128 ps pr p k q] that show ?thesis by simp
  qed
  have keys: "map fst kvs = map (decode ps) (map fst mm)"
    using all ok by (induction rule: list_all2_induct) auto
  have "\<forall>x \<in> set mm. vertex_ok ps (source (fst x)) \<and> vertex_ok ps (target (fst x))"
    using all ok by (induction rule: list_all2_induct) auto
  then have "inj_on (decode ps) (set (map fst mm))" by (auto simp: inj_on_def decode_eq)
  moreover have "distinct (map fst mm)" using assms(1) by (simp only: bm_wf_def strict_sorted_iff)
  ultimately have "distinct (map fst kvs)" unfolding keys by (simp only: distinct_map)
  then have "distinct (map fst (rev kvs))" by (simp only: rev_map [symmetric] distinct_rev)
  then have get: "bm_get (bm_collect kvs) k = Some pp \<longleftrightarrow> (k, pp) \<in> set kvs" for k pp
    unfolding bm_get_collect by (simp only: map_of_eq_Some_iff set_rev)
  show "\<exists>i j p. bm_get mm (Pair i j) = Some p \<and> k = decode ps (Pair i j) \<and> path_from from_u128 ps p pp \<and>
        vertex_ok ps i \<and> vertex_ok ps j"
    if "bm_get (bm_collect kvs) k = Some pp"
  proof -
    from that all get obtain x where x: "x \<in> set mm" "?R x (k, pp)"
      by (metis (mono_tags, lifting) in_set_conv_nth list_all2_conv_all_nth)
    then have "bm_get mm (Pair (source (fst x)) (target (fst x))) = Some (snd x)"
      using bm_entries_iff [OF assms(1), of "fst x" "snd x"] by simp
    with ok [OF x(2)] show ?thesis by fastforce
  qed
  show "\<exists>pp. bm_get (bm_collect kvs) (decode ps (Pair i j)) = Some pp \<and> path_from from_u128 ps p pp"
    if "bm_get mm (Pair i j) = Some p"
  proof -
    from that have "(Pair i j, p) \<in> set mm" using bm_entries_iff [OF assms(1)] by blast
    with all obtain y where y: "y \<in> set kvs" "?R (Pair i j, p) y"
      by (metis (mono_tags, lifting) in_set_conv_nth list_all2_conv_all_nth)
    then have "bm_get (bm_collect kvs) (fst y) = Some (snd y)" by (simp add: get)
    with ok [OF y(2)] show ?thesis by auto
  qed
qed


section \<open>What the calculator returns\<close>

lemma calc_best_paths_total:
  assumes "\<forall>u. from_u128 u \<noteq> None"
  shows "\<exists>res. calc_best_paths log2 to_u128 from_u128 ps = Some res"
proof -
  have g: "adds_edges (\<lambda>x. to_u128 (snd x) = None) (encode to_u128 ps) (set ps) []
     (calc_graph ps (calc_edge to_u128 (by_ind (currencies_of ps)) (by_ind (providers_of ps))) (currencies_of ps) [])"
    by (rule calc_graph_encode)
  show ?thesis
  proof (cases "\<exists>x \<in> set ps. to_u128 (snd x) = None")
    case True
    with g show ?thesis by (auto simp: adds_edges_def calc_best_paths_def Let_def)
  next
    case False
    with g obtain g where g: "calc_graph ps (calc_edge to_u128 (by_ind (currencies_of ps))
        (by_ind (providers_of ps))) (currencies_of ps) [] = Some (Inr g)" "set g = encode to_u128 ps ` set ps"
      by (auto simp: adds_edges_def)
    have rates: "\<forall>e \<in> set g. e_cost e \<noteq> NaN" using rate_not_NaN by (auto simp: g(2) encode_def)
    show ?thesis
    proof (cases "longest_paths_mult log2 g")
      case None
      then show ?thesis using longest_paths_mult_total [OF rates, of log2] by simp
    next
      case (Some res)
      show ?thesis
      proof (cases res)
        case (Inr mm)
        have "\<exists>kvs. run_map (price_path_of from_u128 (currencies_of ps) (providers_of ps)) mm = Some kvs"
        proof (rule exI, rule run_map_total)
          fix x
          assume "x \<in> set mm"
          with longest_entries [OF rates Some [unfolded Inr], of "fst x" "snd x"]
          show "price_path_of from_u128 (currencies_of ps) (providers_of ps) x =
             Some (decode ps (fst x), \<lparr>total_cost = the (from_u128 (f64_to_u128 (p_cost (snd x) * PRECISION))),
               steps = map (decode_step from_u128 ps) (p_edges (snd x))\<rparr>)"
            using assms vertices_of_encode [OF g(2)] by (intro price_path_total) (simp_all add: g(2))
        qed
        with Some Inr g(1) show ?thesis by (auto simp: calc_best_paths_def Let_def)
      qed (use Some g(1) in \<open>simp add: calc_best_paths_def Let_def\<close>)
    qed
  qed
qed


text \<open>What is behind a result.\<close>

lemma calc_best_paths_Inr:
  assumes "calc_best_paths log2 to_u128 from_u128 ps = Some (Inr m)"
  obtains g mm kvs where "\<forall>x \<in> set ps. to_u128 (snd x) \<noteq> None" "set g = encode to_u128 ps ` set ps"
    "\<forall>e \<in> set g. e_cost e \<noteq> NaN" "longest_paths_mult log2 g = Some (Inr mm)" "bm_wf mm"
    "run_map (price_path_of from_u128 (currencies_of ps) (providers_of ps)) mm = Some kvs" "m = bm_collect kvs"
proof -
  have g: "adds_edges (\<lambda>x. to_u128 (snd x) = None) (encode to_u128 ps) (set ps) []
     (calc_graph ps (calc_edge to_u128 (by_ind (currencies_of ps)) (by_ind (providers_of ps))) (currencies_of ps) [])"
    by (rule calc_graph_encode)
  with assms obtain g where g: "calc_graph ps (calc_edge to_u128 (by_ind (currencies_of ps))
      (by_ind (providers_of ps))) (currencies_of ps) [] = Some (Inr g)" "set g = encode to_u128 ps ` set ps"
      "\<forall>x \<in> set ps. to_u128 (snd x) \<noteq> None"
    by (auto simp: adds_edges_def calc_best_paths_def Let_def)
  with assms obtain mm kvs where m: "longest_paths_mult log2 g = Some (Inr mm)"
    "run_map (price_path_of from_u128 (currencies_of ps) (providers_of ps)) mm = Some kvs" "m = bm_collect kvs"
    by (auto simp: calc_best_paths_def Let_def split: Option.bind_splits sum.splits)
  have "\<forall>e \<in> set g. e_cost e \<noteq> NaN" using rate_not_NaN by (auto simp: g(2) encode_def)
  with that g m longest_paths_wf [OF m(1)] show thesis by blast
qed

lemma calc_entry:
  assumes "calc_best_paths log2 to_u128 from_u128 ps = Some (Inr m)" "bm_get m k = Some pp"
  obtains g mm i j p where "set g = encode to_u128 ps ` set ps" "\<forall>e \<in> set g. e_cost e \<noteq> NaN"
    "longest_paths_mult log2 g = Some (Inr mm)" "bm_get mm (Pair i j) = Some p" "k = decode ps (Pair i j)"
    "path_from from_u128 ps p pp" "set (p_edges p) \<subseteq> set g" "vertex_ok ps i" "vertex_ok ps j"
proof -
  from assms(1) obtain g mm kvs where g: "\<forall>x \<in> set ps. to_u128 (snd x) \<noteq> None"
    "set g = encode to_u128 ps ` set ps"
    "\<forall>e \<in> set g. e_cost e \<noteq> NaN" "longest_paths_mult log2 g = Some (Inr mm)" "bm_wf mm"
    "run_map (price_path_of from_u128 (currencies_of ps) (providers_of ps)) mm = Some kvs" "m = bm_collect kvs"
    by (rule calc_best_paths_Inr)
  from read_back(1) [OF g(5,6)] assms(2) g(7) obtain i j p where e: "bm_get mm (Pair i j) = Some p"
    "k = decode ps (Pair i j)" "path_from from_u128 ps p pp" "vertex_ok ps i" "vertex_ok ps j" by blast
  then have "(Pair i j, p) \<in> set mm" using bm_entries_iff [OF g(5)] by blast
  then have "set (p_edges p) \<subseteq> set g" by (rule longest_entries(3) [OF g(3,4)])
  with that g(2-4) e show thesis by blast
qed

definition step_of_input :: "(u128 \<Rightarrow> 'a option) \<Rightarrow> ('a \<Rightarrow> u128 option) \<Rightarrow> ('c, 'a) priced list \<Rightarrow> ('c, 'a) path_step \<Rightarrow> bool" where
  "step_of_input from_u128 to_u128 ps st \<longleftrightarrow>
     (\<exists>x \<in> set ps. step_pair st = pp_pair (fst x) \<and> step_provider st = pp_provider (fst x) \<and>
        from_u128 (f64_to_u128 (f64_of_u128 (the (to_u128 (snd x))) div PRECISION * PRECISION)) = Some (step_cost st))"

lemma step_from_input:
  assumes "step_from from_u128 ps e st" "e \<in> encode to_u128 ps ` set ps"
  shows "step_of_input from_u128 to_u128 ps st"
proof -
  from assms(2) obtain x where "x \<in> set ps" "e = encode to_u128 ps x" by blast
  with assms(1) encode_in_range [of x ps to_u128] decode_encode [of x ps to_u128] show ?thesis
    unfolding step_from_def step_of_input_def by (intro bexI [of _ x]) (simp_all add: encode_def)
qed

lemma path_from_input:
  assumes "path_from from_u128 ps p pp" "set (p_edges p) \<subseteq> encode to_u128 ps ` set ps"
  shows "\<forall>st \<in> set (steps pp). step_of_input from_u128 to_u128 ps st"
proof
  fix st
  assume "st \<in> set (steps pp)"
  with assms(1) obtain e where "e \<in> set (p_edges p)" "step_from from_u128 ps e st"
    unfolding path_from_def by (metis (mono_tags, lifting) in_set_conv_nth list_all2_conv_all_nth)
  with assms(2) show "step_of_input from_u128 to_u128 ps st" by (auto intro: step_from_input)
qed

section \<open>The contract of a calculator\<close>

locale best_path_calculator =
  fixes calc :: "('c::linorder, 'a) priced list \<Rightarrow> (calculator_error, ('c, 'a) best_paths) result run"
  assumes wf: "calc ps = Some (Inr m) \<Longrightarrow> bm_wf m"
    and keys: "calc ps = Some (Inr m) \<Longrightarrow> bm_get m k = Some pp \<Longrightarrow>
      source k \<in> set (currencies_of ps) \<and> target k \<in> set (currencies_of ps)"
    and hops: "calc ps = Some (Inr m) \<Longrightarrow> bm_get m k = Some pp \<Longrightarrow> st \<in> set (steps pp) \<Longrightarrow>
      \<exists>x \<in> set ps. step_pair st = pp_pair (fst x) \<and> step_provider st = pp_provider (fst x)"
    and covers: "calc ps = Some (Inr m) \<Longrightarrow> x \<in> set ps \<Longrightarrow> bm_get m (pp_pair (fst x)) \<noteq> None"
begin

lemma empty:
  assumes "calc [] = Some (Inr m)"
  shows "m = []"
proof (cases m)
  case (Cons e m')
  then have "bm_get m (fst e) = Some (snd e)"
    using bm_entries_iff [OF wf [OF assms], of "fst e" "snd e"] by simp
  from keys [OF assms this] show ?thesis by (simp add: set_currencies_of)
qed

lemma entries:
  assumes "calc ps = Some (Inr m)" "(k, pp) \<in> set m"
  shows "source k \<in> set (currencies_of ps)" "target k \<in> set (currencies_of ps)"
    "\<forall>st \<in> set (steps pp). source (step_pair st) \<in> set (currencies_of ps) \<and>
       target (step_pair st) \<in> set (currencies_of ps)"
proof -
  have e: "bm_get m k = Some pp" using assms bm_entries_iff [OF wf [OF assms(1)]] by blast
  from keys [OF assms(1) e] show "source k \<in> set (currencies_of ps)" "target k \<in> set (currencies_of ps)" by simp_all
  show "\<forall>st \<in> set (steps pp). source (step_pair st) \<in> set (currencies_of ps) \<and>
       target (step_pair st) \<in> set (currencies_of ps)"
  proof
    fix st
    assume "st \<in> set (steps pp)"
    from hops [OF assms(1) e this] obtain x where "x \<in> set ps" "step_pair st = pp_pair (fst x)" by blast
    then show "source (step_pair st) \<in> set (currencies_of ps) \<and> target (step_pair st) \<in> set (currencies_of ps)"
      by (simp add: set_currencies_of) blast
  qed
qed

end

interpretation fw: best_path_calculator "calc_best_paths log2 to_u128 from_u128" for log2 to_u128 from_u128
proof unfold_locales
  fix ps :: "('c::linorder, 'a) priced list" and m
  assume m: "calc_best_paths log2 to_u128 from_u128 ps = Some (Inr m)"
  then obtain g mm kvs where g: "\<forall>x \<in> set ps. to_u128 (snd x) \<noteq> None"
    "set g = encode to_u128 ps ` set ps"
    "\<forall>e \<in> set g. e_cost e \<noteq> NaN" "longest_paths_mult log2 g = Some (Inr mm)" "bm_wf mm"
    "run_map (price_path_of from_u128 (currencies_of ps) (providers_of ps)) mm = Some kvs" "m = bm_collect kvs"
    by (rule calc_best_paths_Inr)
  then show "bm_wf m" by simp
  show "source k \<in> set (currencies_of ps) \<and> target k \<in> set (currencies_of ps)" if "bm_get m k = Some pp" for k pp
    by (rule calc_entry [OF m that]) (simp add: decode_def vertex_ok_def)
  show "\<exists>x \<in> set ps. step_pair st = pp_pair (fst x) \<and> step_provider st = pp_provider (fst x)"
    if e: "bm_get m k = Some pp" and st: "st \<in> set (steps pp)" for k pp st
  proof -
    obtain g p where "set g = encode to_u128 ps ` set ps" "path_from from_u128 ps p pp" "set (p_edges p) \<subseteq> set g"
      by (rule calc_entry [OF m e]) blast
    with path_from_input [of from_u128 ps p pp to_u128] st show ?thesis
      by (auto simp: step_of_input_def)
  qed
  show "bm_get m (pp_pair (fst x)) \<noteq> None" if "x \<in> set ps" for x
  proof -
    let ?e = "e_pair (encode to_u128 ps x)"
    have "?e \<in> e_pair ` set g" using that g(2) by simp
    then obtain p where "bm_get mm (Pair (source ?e) (target ?e)) = Some p"
      using longest_covers [OF g(3,4)] by auto
    from read_back(2) [OF g(5,6) this] show ?thesis
      using decode_encode [OF that, of to_u128] g(7) by auto
  qed
qed

interpretation noop: best_path_calculator noop_calc_best_paths
proof unfold_locales
  fix ps :: "('c::linorder, 'd) priced list" and m
  assume "noop_calc_best_paths ps = Some (Inr m)"
  then have m: "m = bm_collect (map (\<lambda>(pp, price). (pp_pair pp, \<lparr>total_cost = price, steps = []\<rparr>)) ps)"
    by (simp add: noop_calc_best_paths_def)
  then show "bm_wf m" by simp
  show "source k \<in> set (currencies_of ps) \<and> target k \<in> set (currencies_of ps)" if "bm_get m k = Some pp" for k pp
    using that by (force simp: m bm_get_collect set_currencies_of dest!: map_of_SomeD)
  show "\<exists>x \<in> set ps. step_pair st = pp_pair (fst x) \<and> step_provider st = pp_provider (fst x)"
    if "bm_get m k = Some pp" "st \<in> set (steps pp)" for k pp st
    using that by (auto simp: m bm_get_collect dest!: map_of_SomeD)
  show "bm_get m (pp_pair (fst x)) \<noteq> None" if "x \<in> set ps" for x
  proof -
    have "pp_pair (fst x) \<in> fst ` set (map (\<lambda>(pp, price). (pp_pair pp, \<lparr>total_cost = price, steps = []\<rparr>)) ps)"
      using that by (simp add: image_image case_prod_beta)
    then show ?thesis unfolding m bm_get_collect map_of_eq_None_iff by (simp only: set_rev) simp
  qed
qed


section \<open>A sample input\<close>

definition sample_pair :: "'c \<Rightarrow> 'c \<Rightarrow> ('c, u128) priced list" where
  "sample_pair a b = [(ProviderPair (Pair a b) CRYPTOCOMPARE, 4000000000000)]"

abbreviation sample_prices :: "(nat, u128) priced list" where
  "sample_prices \<equiv> sample_pair 5 6"

lemma sample_rate: "f64_of_u128 4000000000000 div PRECISION = Fin 4"
  using rnd_of_int [of 4000000000000] rnd_of_int [of 4]
  by (simp add: f64_of_u128_def PRECISION_def divide_f64_def)

lemma sample_rate_log: "rounded_log2 (Fin 4) = Fin 2"
  using rounded_log2_powi [of 2] by (simp del: rounded_log2.simps)

lemmas indexing_eval = sample_pair_def currencies_of_def providers_of_def bs_collect_def insort_insert_key_def
    by_ind_def bm_collect_def bm_get_def bm_insert_def enumerate_eq_zip

definition sample_edge :: edge where
  "sample_edge = \<lparr>e_pair = Pair 0 1, e_provider = 0, e_cost = Fin 4\<rparr>"

lemma sample_graph_of_pair:
  assumes "a < b"
  shows "calc_graph (sample_pair a b) (calc_edge Some (by_ind (currencies_of (sample_pair a b))) (by_ind (providers_of (sample_pair a b))))
     (currencies_of (sample_pair a b)) [] = Some (Inr [sample_edge])"
  using assms less_imp_neq [OF assms] leD [of b a]
  by (auto simp: calc_edge_def indexing_eval sample_rate sample_edge_def)

lemma sample_edge_rates: "int_rates rounded_log2 1 [sample_edge]" "distinct (map e_pair [sample_edge])"
  by (simp_all add: sample_edge_def int_rates_def rate_exp_def sample_rate_log vertices_of_def card_insert_if del: rounded_log2.simps)

lemma sample_no_arbitrage: "walk {sample_edge} i ws i \<Longrightarrow> ws = []"
  by (cases ws; cases "tl ws") (auto simp: sample_edge_def)

lemma sample_pair_calc:
  assumes "a < b"
  obtains m pp where "calc_best_paths rounded_log2 Some Some (sample_pair a b) = Some (Inr m)"
    "bm_get m (Pair a b) = Some pp"
proof -
  from sample_edge_rates(2,1) obtain mm where mm: "longest_paths_mult rounded_log2 [sample_edge] = Some (Inr mm)"
  proof (cases rule: longest_paths_int)
    case arbitrage
    then obtain i ws where ws: "walk {sample_edge} i ws i" "0 < exp_sum rounded_log2 ws" by auto
    with sample_no_arbitrage [OF ws(1)] show ?thesis by (simp add: exp_sum_def)
  qed
  have "calc_best_paths rounded_log2 Some Some (sample_pair a b) = map_option (\<lambda>kvs. Inr (bm_collect kvs))
      (run_map (price_path_of Some (currencies_of (sample_pair a b)) (providers_of (sample_pair a b))) mm)"
    by (simp add: calc_best_paths_def Let_def sample_graph_of_pair [OF assms] mm)
  with calc_best_paths_total [of Some rounded_log2 Some "sample_pair a b"]
  obtain m where m: "calc_best_paths rounded_log2 Some Some (sample_pair a b) = Some (Inr m)" by auto
  have "bm_get m (Pair a b) \<noteq> None"
    using fw.covers [OF m, of "sample_pair a b ! 0"] by (simp add: sample_pair_def)
  with m that show thesis by blast
qed

lemma sample_calc:
  obtains m pp where "calc_best_paths rounded_log2 Some Some sample_prices = Some (Inr m)"
    "bm_get m (Pair 5 6) = Some pp"
  using sample_pair_calc [of 5 "6 :: nat"] by auto

section \<open>Properties of the best path calculator\<close>

text \<open>C26: The best path calculator never panics: for any priced pairs, any amount type that every
  \<open>u128\<close> converts to, and whatever the logarithm function yields, it returns a map of best
  paths or a \<open>CalculatorError\<close>. All its index lookups and its unwraps succeed.\<close>

theorem calc_best_paths_returns:
  assumes "\<forall>u. from_u128 u \<noteq> None"
  shows "\<exists>res. calc_best_paths log2 to_u128 from_u128 ps = Some res"
  using assms by (rule calc_best_paths_total)

theorem calc_best_paths_returns_witness:
  "\<exists>res. calc_best_paths (\<lambda>x. NaN) (\<lambda>x. None) Some
     [(ProviderPair (Pair (5 :: nat) 6) CRYPTOCOMPARE, 0 :: u128)] = Some res"
  by (rule calc_best_paths_returns) simp

fun chain :: "'c \<Rightarrow> 'c pair list \<Rightarrow> 'c \<Rightarrow> bool" where
  "chain s [] t = (s = t)"
| "chain s (p # ps) t = (source p = s \<and> chain (target p) ps t)"

lemma walk_chain:
  "list_all2 (step_from from_u128 ps) es sts \<Longrightarrow> walk E i es j \<Longrightarrow>
     chain (currencies_of ps ! i) (map step_pair sts) (currencies_of ps ! j)"
  by (induction arbitrary: i rule: list_all2_induct) (auto simp: step_from_def decode_def)

lemma encoded_small_rates:
  assumes "log2_ok log2" "set g = encode to_u128 ps ` set ps" "length (currencies_of ps) \<le> 319"
  shows "small_rates log2 11 g"
  using assms card_vertices_of_encode [OF assms(2)] log2_rate rate_not_NaN
  by (auto simp: small_rates_def encode_def)

definition rates_of ::
  "(u128 \<Rightarrow> 'a option) \<Rightarrow> f64 list \<Rightarrow> ('c, 'a) path_step list \<Rightarrow> bool" where
  "rates_of from_u128 = list_all2 (\<lambda>r st. from_u128 (f64_to_u128 (r * PRECISION)) = Some (step_cost st))"

text \<open>C4: With up to 319 currencies, every best path the calculator returns for a pair is a chain of
  exchanges from its source to its target, each step is an input pair with its provider and its
  price (through the scaling to a double and back), and the total is the product of the step
  rates in chain order, scaled back.\<close>

theorem calc_best_paths_chain:
  assumes "log2_ok log2" "length (currencies_of ps) \<le> 319"
    and "calc_best_paths log2 to_u128 from_u128 ps = Some (Inr m)" "bm_get m (Pair s t) = Some pp"
  shows "chain s (map step_pair (steps pp)) t \<and>
     (\<forall>st \<in> set (steps pp). step_of_input from_u128 to_u128 ps st) \<and>
     (\<exists>rates. rates_of from_u128 rates (steps pp) \<and>
        from_u128 (f64_to_u128 (foldl (*) 1 rates * PRECISION)) = Some (total_cost pp))"
proof -
  obtain g mm i j p where e: "set g = encode to_u128 ps ` set ps" "\<forall>e \<in> set g. e_cost e \<noteq> NaN"
    "longest_paths_mult log2 g = Some (Inr mm)" "bm_get mm (Pair i j) = Some p" "Pair s t = decode ps (Pair i j)"
    "path_from from_u128 ps p pp" "set (p_edges p) \<subseteq> set g" "vertex_ok ps i" "vertex_ok ps j"
    by (rule calc_entry [OF assms(3,4)])
  have "small_rates log2 11 g" using assms(1) e(1) assms(2) by (rule encoded_small_rates)
  from longest_paths_walk [OF this e(3,4)] have w: "walk (set g) i (p_edges p) j"
    "p_cost p = foldl (\<lambda>acc e. acc * e_cost e) 1 (p_edges p)" by simp_all
  have steps: "list_all2 (step_from from_u128 ps) (p_edges p) (steps pp)"
    and total: "from_u128 (f64_to_u128 (p_cost p * PRECISION)) = Some (total_cost pp)"
    using e(6) by (simp_all add: path_from_def)
  have "chain s (map step_pair (steps pp)) t"
    using walk_chain [OF steps w(1)] e(5) by (simp add: decode_def)
  moreover have "\<forall>st \<in> set (steps pp). step_of_input from_u128 to_u128 ps st"
    using path_from_input e(1,6,7) by blast
  moreover have "rates_of from_u128 (map e_cost (p_edges p)) (steps pp)"
    unfolding rates_of_def list_all2_map1 using steps
    by (rule list_all2_mono) (simp add: step_from_def)
  moreover have "foldl (*) 1 (map e_cost (p_edges p)) = p_cost p"
    by (simp add: w(2) foldl_map)
  ultimately show ?thesis using total by metis
qed

theorem calc_best_paths_chain_witness:
  "\<exists>m pp. calc_best_paths rounded_log2 Some Some sample_prices = Some (Inr m) \<and>
     bm_get m (Pair 5 6) = Some pp \<and> chain 5 (map step_pair (steps pp)) 6"
proof -
  obtain m pp where m: "calc_best_paths rounded_log2 Some Some sample_prices = Some (Inr m)"
    "bm_get m (Pair 5 6) = Some pp" by (rule sample_calc)
  have "length (currencies_of sample_prices) \<le> 319" by (simp add: indexing_eval)
  from calc_best_paths_chain [OF rounded_log2_ok this m] m show ?thesis by blast
qed


text \<open>C27: When the calculator succeeds, every input pair has a best path, and no best path leads from
  or to a currency that is not in the input.\<close>

theorem calc_best_paths_covers:
  assumes "calc_best_paths log2 to_u128 from_u128 ps = Some (Inr m)"
  shows "(\<forall>x \<in> set ps. bm_get m (pp_pair (fst x)) \<noteq> None) \<and>
     (\<forall>k pp. bm_get m k = Some pp \<longrightarrow> source k \<in> set (currencies_of ps) \<and> target k \<in> set (currencies_of ps))"
  using fw.covers [OF assms] fw.keys [OF assms] by blast

theorem calc_best_paths_covers_witness:
  "\<exists>m. calc_best_paths rounded_log2 Some Some sample_prices = Some (Inr m) \<and> bm_get m (Pair 5 6) \<noteq> None"
proof -
  obtain m pp where m: "calc_best_paths rounded_log2 Some Some sample_prices = Some (Inr m)"
    "bm_get m (Pair 5 6) = Some pp" by (rule sample_calc)
  from calc_best_paths_covers [OF m(1)] m(1) show ?thesis by (auto simp: sample_pair_def)
qed


text \<open>A currency that no input pair trades against itself gets, besides its other paths, a path to
  itself: no steps, and a total of one (\<open>10 ^ 12\<close> at the scale of the prices).\<close>

theorem calc_best_paths_identity:
  assumes "calc_best_paths log2 to_u128 from_u128 ps = Some (Inr m)" "c \<in> set (currencies_of ps)"
    and "Pair c c \<notin> (\<lambda>x. pp_pair (fst x)) ` set ps"
  shows "\<exists>pp. bm_get m (Pair c c) = Some pp \<and> steps pp = [] \<and> from_u128 1000000000000 = Some (total_cost pp)"
proof -
  from assms(1) obtain g mm kvs where g: "\<forall>x \<in> set ps. to_u128 (snd x) \<noteq> None"
    "set g = encode to_u128 ps ` set ps"
    "\<forall>e \<in> set g. e_cost e \<noteq> NaN" "longest_paths_mult log2 g = Some (Inr mm)" "bm_wf mm"
    "run_map (price_path_of from_u128 (currencies_of ps) (providers_of ps)) mm = Some kvs" "m = bm_collect kvs"
    by (rule calc_best_paths_Inr)
  from assms(2) obtain x where x: "x \<in> set ps" "c = source (pp_pair (fst x)) \<or> c = target (pp_pair (fst x))"
    by (auto simp: set_currencies_of)
  let ?e = "e_pair (encode to_u128 ps x)"
  define v where "v = (if c = source (pp_pair (fst x)) then source ?e else target ?e)"
  have v: "currencies_of ps ! v = c" "v \<in> vertices_of g"
    using encode_in_range [OF x(1), of to_u128] x by (auto simp: v_def vertices_of_def g(2))
  have "Pair v v \<notin> e_pair ` set g"
  proof
    assume "Pair v v \<in> e_pair ` set g"
    then obtain y where "y \<in> set ps" "e_pair (encode to_u128 ps y) = Pair v v" by (auto simp: g(2))
    with decode_encode [of y ps to_u128] v(1) have "Pair c c = pp_pair (fst y)" by (simp add: decode_def)
    with assms(3) \<open>y \<in> set ps\<close> show False by blast
  qed
  from read_back(2) [OF g(5,6) longest_identity [OF g(3,4) v(2) this]] g(7) v(1)
  obtain pp where pp: "bm_get m (Pair c c) = Some pp" "path_from from_u128 ps (product_path []) pp"
    by (auto simp: decode_def)
  have "f64_to_u128 (1 * PRECISION) = 1000000000000"
    using rnd_of_int [of 1000000000000] by (simp add: PRECISION_def f64_ops)
  with pp show ?thesis by (auto simp: path_from_def product_path_def)
qed

theorem calc_best_paths_identity_witness:
  "\<exists>m pp. calc_best_paths rounded_log2 Some Some sample_prices = Some (Inr m) \<and>
     bm_get m (Pair 5 5) = Some pp \<and> steps pp = [] \<and> total_cost pp = 1000000000000"
proof -
  obtain m pp where m: "calc_best_paths rounded_log2 Some Some sample_prices = Some (Inr m)"
    "bm_get m (Pair 5 6) = Some pp" by (rule sample_calc)
  have "5 \<in> set (currencies_of sample_prices)" "Pair 5 5 \<notin> (\<lambda>x. pp_pair (fst x)) ` set sample_prices"
    by (simp_all add: indexing_eval)
  from calc_best_paths_identity [OF m(1) this] m(1) show ?thesis by (metis option.inject)
qed

text \<open>A price that does not convert to \<open>u128\<close> fails the whole calculation with
  \<open>ConversionError\<close>, wherever it stands in the input.\<close>

theorem calc_best_paths_conversion:
  assumes "x \<in> set ps" "to_u128 (snd x) = None"
  shows "calc_best_paths log2 to_u128 from_u128 ps = Some (Inl ConversionError)"
proof -
  have "calc_graph ps (calc_edge to_u128 (by_ind (currencies_of ps)) (by_ind (providers_of ps)))
      (currencies_of ps) [] = Some (Inl ConversionError)"
    using calc_graph_encode [of to_u128 ps] assms by (auto simp: adds_edges_def)
  then show ?thesis by (simp add: calc_best_paths_def)
qed

theorem calc_best_paths_conversion_witness:
  "calc_best_paths rounded_log2 (\<lambda>a. if a = 9 then None else Some a) Some
     [(ProviderPair (Pair (5 :: nat) 6) CRYPTOCOMPARE, 3 :: u128), (ProviderPair (Pair 6 7) CRYPTOCOMPARE, 9)] =
   Some (Inl ConversionError)"
  by (rule calc_best_paths_conversion [of "(ProviderPair (Pair 6 7) CRYPTOCOMPARE, 9)"]) simp_all

text \<open>C32: Scaling a price down to a double and back up, as the calculator does for the cost of every
  step, loses at most one unit for prices below \<open>2 ^ 51\<close>.\<close>

theorem price_roundtrip:
  assumes "unat u < 2 ^ 51"
  shows "f64_to_u128 (f64_of_u128 u div PRECISION * PRECISION) = u \<or>
    f64_to_u128 (f64_of_u128 u div PRECISION * PRECISION) = u - 1"
proof (cases "u = 0")
  case True
  then show ?thesis by (simp add: f64_of_u128_def PRECISION_def f64_ops rnd_def)
next
  case False
  define n where "n = int (unat u)"
  have "1 \<le> unat u" using False by (simp add: Suc_leI unat_gt_0)
  then have n: "1 \<le> n" "n < 2 ^ 51"
    using assms unfolding n_def by (linarith, metis of_nat_less_iff of_nat_numeral of_nat_power)
  define x where "x = real_of_int n"
  have x: "1 \<le> x" "x < 2 ^ 51" using n by (simp_all add: x_def)
  have of: "f64_of_u128 u = Fin x"
    using rnd_of_int [of n] n by (simp add: f64_of_u128_def x_def n_def)
  define a where "a = rnd_real (x / 1000000000000)"
  define b where "b = rnd_real (a * 1000000000000)"
  have scale: "\<bar>x / 1000000000000\<bar> \<le> 2 ^ 51" using x by simp
  have "2 powi - 1022 \<le> (2::real) powi - 40" by (simp only: powi_le_iff)
  also have "\<dots> \<le> x / 1000000000000" using x(1) by simp
  finally have a: "\<bar>a - x / 1000000000000\<bar> \<le> x / 1000000000000 * 2 powi - 53"
    unfolding a_def by (rule rnd_real_error)
  then have a': "\<bar>a * 1000000000000 - x\<bar> \<le> x * 2 powi - 53" by (simp add: field_simps abs_le_iff)
  then have near: "\<bar>a * 1000000000000 - x\<bar> \<le> x / 4" using x(1) by simp
  then have "1 / 2 \<le> a * 1000000000000" "a * 1000000000000 \<le> 2 * x" using x(1) unfolding abs_le_iff by linarith+
  have "(2::real) powi - 1022 \<le> 2 powi - 1" by (simp only: powi_le_iff)
  also have "\<dots> \<le> a * 1000000000000" using \<open>1 / 2 \<le> a * 1000000000000\<close> by simp
  finally have "\<bar>b - a * 1000000000000\<bar> \<le> a * 1000000000000 * 2 powi - 53"
    unfolding b_def by (rule rnd_real_error)
  also have "\<dots> \<le> 2 * x * 2 powi - 53" using \<open>a * 1000000000000 \<le> 2 * x\<close> by (intro mult_right_mono) simp_all
  finally have "\<bar>b - x\<bar> \<le> 3 * x * 2 powi - 53" using a' unfolding abs_le_iff by linarith
  also have "\<dots> < 1" using x(2) by simp
  finally have b: "\<bar>b - x\<bar> < 1" .
  have "f64_of_u128 u div PRECISION = Fin a"
    using rnd_Fin(1) [OF scale] by (simp add: of PRECISION_def divide_f64_def a_def)
  moreover have "\<bar>a * 1000000000000\<bar> \<le> 2 ^ 52"
    using \<open>1 / 2 \<le> a * 1000000000000\<close> \<open>a * 1000000000000 \<le> 2 * x\<close> x(2) by simp
  then have "Fin a * PRECISION = Fin b"
    using rnd_Fin(1) [of "a * 1000000000000" 52] by (simp add: PRECISION_def times_f64_def b_def)
  ultimately have f: "f64_of_u128 u div PRECISION * PRECISION = Fin b" by simp
  have "0 < b" "b < 2 ^ 128" using b x unfolding abs_less_iff by simp_all
  then have "f64_to_u128 (Fin b) = word_of_int \<lfloor>b\<rfloor>" by simp
  moreover have "\<lfloor>b\<rfloor> = n \<or> \<lfloor>b\<rfloor> = n - 1" using b unfolding x_def abs_less_iff by linarith
  moreover have "word_of_int n = u" by (simp add: n_def)
  moreover have "word_of_int (n - 1) = u - 1" using \<open>word_of_int n = u\<close> by (simp add: wi_hom_sub [symmetric])
  ultimately show ?thesis unfolding f by metis
qed

theorem price_roundtrip_witness:
  "f64_to_u128 (f64_of_u128 61 div PRECISION * PRECISION) \<in> {61, 60}"
  using price_roundtrip [of 61] by simp

text \<open>The loss is real: \<open>(cost * PRECISION) as u128\<close> truncates, and a price of 61 comes back as
  a step cost of 60.\<close>

theorem price_loses_a_unit:
  "f64_to_u128 (f64_of_u128 61 div PRECISION * PRECISION) = 60"
proof -
  have "expo (61 / 1000000000000) = - 34" by (rule expo_eqI) simp_all
  then have u1: "ulp_exp (61 / 1000000000000) = - 86" by (simp add: ulp_exp_def)
  have "rne (61 / 1000000000000 / 2 powi - 86) = 4719646399775512"
    by (rule rne_eqI) (simp add: abs_less_iff)
  then have r1: "rnd_real (61 / 1000000000000) = 4719646399775512 / 2 ^ 86"
    by (simp add: rnd_real_def u1)
  have d: "f64_of_u128 61 div PRECISION = Fin (4719646399775512 / 2 ^ 86)"
    using rnd_Fin(1) [of "61 / 1000000000000" 0] rnd_of_int [of 61] r1
    by (simp add: f64_of_u128_def PRECISION_def divide_f64_def)
  let ?x = "4719646399775512 / 2 ^ 86 * 1000000000000 :: real"
  have "expo \<bar>?x\<bar> = 5" by (rule expo_eqI) simp_all
  then have u2: "ulp_exp ?x = - 47" by (simp add: ulp_exp_def)
  have "rne (?x / 2 powi - 47) = 61 * 2 ^ 47 - 1"
    by (rule rne_eqI) (simp add: abs_less_iff)
  then have r2: "rnd_real ?x = 61 - 1 / 2 ^ 47"
    by (simp only: rnd_real_def u2) simp
  have "Fin (4719646399775512 / 2 ^ 86) * PRECISION = Fin (61 - 1 / 2 ^ 47)"
    using rnd_Fin(1) [of ?x 6] r2 by (simp add: PRECISION_def times_f64_def)
  moreover have "\<lfloor>61 - 1 / 2 ^ 47 :: real\<rfloor> = 60" by (simp add: floor_eq_iff)
  ultimately show ?thesis by (simp add: d)
qed

lemma map_of_prices:
  "map_of (map (\<lambda>(pp, price). (pp_pair pp, f price)) ps) k =
     map_option f (map_of (map (\<lambda>x. (pp_pair (fst x), snd x)) ps) k)"
  by (induction ps) auto

text \<open>\<open>NoBestPathCalculator\<close> always succeeds; the path of a pair is the last price given for it,
  with no steps.\<close>

theorem noop_calc_best_paths_last:
  "\<exists>m. noop_calc_best_paths ps = Some (Inr m) \<and>
     (\<forall>k. bm_get m k = map_option (\<lambda>price. \<lparr>total_cost = price, steps = []\<rparr>)
        (map_of (rev (map (\<lambda>x. (pp_pair (fst x), snd x)) ps)) k))"
  by (simp add: noop_calc_best_paths_def bm_get_collect rev_map map_of_prices)

end
