(* ===== verification/Agg_Utils.thy ===== *)
theory Agg_Utils
  imports Agg_Types
begin

text \<open>
  \<open>pallets/aggregator/src/utils.rs\<close>: the price parser, \<open>concat4\<close> and the tolerance check.
  The JSON parser (\<open>lite_json::parse_json\<close>) is a third-party function and a parameter here;
  the part of its result type the code looks at is \<open>json_value\<close>: an object is the list of its
  members in source order (a key is a list of Unicode scalar values), a number has an integer
  part (\<open>i64\<close> in the pinned version 0.1.3), the digits of its fraction as a \<open>u64\<close> and their
  count; any other value is \<open>OtherValue\<close>.
\<close>

record number_value =
  integer :: u64
  fraction :: u64
  fraction_length :: u32

datatype json_value =
    Object "(nat list \<times> json_value) list"
  | Number number_value
  | OtherValue

text \<open>\<open>integer as u128\<close> on an \<open>i64\<close> extends the sign.\<close>

definition i64_as_u128 :: "u64 \<Rightarrow> u128" where
  "i64_as_u128 x = scast x"

definition number_price :: "bool \<Rightarrow> number_value \<Rightarrow> u32 \<Rightarrow> u128 run" where
  "number_price checks price scale = do {
     let exp = saturating_sub (fraction_length price) 2;
     p_int \<leftarrow> rs_pow checks 10 scale;
     int_part \<leftarrow> rs_mul checks (i64_as_u128 (integer price)) p_int;
     scale2 \<leftarrow> rs_sub checks scale 2;
     p_frac \<leftarrow> rs_pow checks 10 scale2;
     scaled \<leftarrow> rs_mul checks (ucast (fraction price)) p_frac;
     p_exp \<leftarrow> rs_pow checks 10 exp;
     frac_part \<leftarrow> rs_div scaled p_exp;
     rs_add checks int_part frac_part
   }"

definition parse_price ::
  "bool \<Rightarrow> (u8 list \<Rightarrow> json_value option) \<Rightarrow> u8 list \<Rightarrow> u8 list \<Rightarrow> u32 \<Rightarrow> u128 option run" where
  "parse_price checks parse_json price_str target_currency scale =
     (case parse_json price_str of
        Some (Object obj) \<Rightarrow>
          (case find (\<lambda>(k, _). k = map unat target_currency) obj of
             Some (_, Number price) \<Rightarrow> map_option Some (number_price checks price scale)
           | _ \<Rightarrow> Some None)
      | _ \<Rightarrow> Some None)"

definition concat4 :: "u8 list \<Rightarrow> u8 list \<Rightarrow> u8 list \<Rightarrow> u8 list \<Rightarrow> u8 list" where
  "concat4 bin1 bin2 bin3 bin4 = ((bin1 @ bin2) @ bin3) @ bin4"

definition breaches_tolerance :: "u128 \<Rightarrow> u128 \<Rightarrow> u32 \<Rightarrow> bool run" where
  "breaches_tolerance old new tolerance = do {
     delta \<leftarrow> (if old > new then rs_div (saturating_mul 1000000 (old - new)) old
              else rs_div (saturating_mul 1000000 (new - old)) old);
     Some (ucast tolerance < delta)
   }"

section \<open>The tolerance check\<close>

text \<open>The distance of two prices, and the change in parts per million of the old price.\<close>

definition price_gap :: "u128 \<Rightarrow> u128 \<Rightarrow> nat" where
  "price_gap old new = (unat old - unat new) + (unat new - unat old)"

lemma breaches_tolerance_unat:
  "breaches_tolerance old new tol =
     (if old = 0 then None
      else Some (unat tol < min (1000000 * price_gap old new) (2 ^ 128 - 1) div unat old))"
proof (cases "old = 0")
  case True
  then show ?thesis by (simp add: breaches_tolerance_def rs_div_def)
next
  case False
  have tol: "unat (ucast tol :: u128) = unat tol"
    by (simp add: unat_ucast_wider)
  have gap: "unat (old - new) = price_gap old new" if "new < old"
    using that by (simp add: price_gap_def word_less_nat_alt unat_sub_if')
  have gap': "unat (new - old) = price_gap old new" if "\<not> new < old"
    using that by (simp add: price_gap_def word_less_nat_alt unat_sub_if')
  show ?thesis
    using False by (simp add: breaches_tolerance_def rs_div_def word_less_nat_alt unat_div
        unat_saturating_mul gap gap' tol)
qed

lemma breaches_tolerance_same [simp]:
  "old \<noteq> 0 \<Longrightarrow> breaches_tolerance old old tol = Some False"
  by (simp add: breaches_tolerance_unat price_gap_def)

lemma breaches_tolerance_panics_iff:
  "breaches_tolerance old new tol = None \<longleftrightarrow> old = 0"
  by (simp add: breaches_tolerance_unat)

text \<open>C28: With prices above zero, and as long as the multiplication by one million does not
  saturate, the tolerance check answers exactly whether the price moved by more than
  \<open>tolerance\<close> whole parts per million of the old price.\<close>

theorem breaches_tolerance_spec:
  assumes "old \<noteq> 0" "1000000 * price_gap old new < 2 ^ 128"
  shows "breaches_tolerance old new tolerance =
     Some ((unat tolerance + 1) * unat old \<le> 1000000 * price_gap old new)"
proof -
  have "unat old \<noteq> 0" using assms(1) by (simp add: unat_eq_zero)
  then have "unat tolerance < 1000000 * price_gap old new div unat old \<longleftrightarrow>
      (unat tolerance + 1) * unat old \<le> 1000000 * price_gap old new"
    by (simp add: less_eq_div_iff_mult_less_eq flip: Suc_le_eq)
  moreover have "min (1000000 * price_gap old new) (2 ^ 128 - 1) = 1000000 * price_gap old new"
    using assms(2) by simp
  ultimately show ?thesis using assms(1) by (simp only: breaches_tolerance_unat if_False)
qed

theorem breaches_tolerance_spec_witness:
  "breaches_tolerance 1002 1000 1000 = Some True"
  using breaches_tolerance_spec [of 1002 1000 1000] by (simp add: price_gap_def)

text \<open>The multiplication saturates at the top of the \<open>u128\<close> range: once the old price
  times \<open>tolerance + 1\<close> is beyond that range, no price change whatever breaches the
  tolerance, a fall to zero included.\<close>

theorem breaches_tolerance_saturated:
  assumes "2 ^ 128 \<le> unat old * (unat tolerance + 1)"
  shows "breaches_tolerance old new tolerance = Some False"
proof -
  have pos: "0 < unat old" using assms by (cases "unat old") auto
  then have "old \<noteq> 0" by auto
  have "(2 ^ 128 - 1) div unat old < unat tolerance + 1"
    using assms pos by (subst div_less_iff_less_mult) (auto simp: mult.commute)
  moreover have "min (1000000 * price_gap old new) (2 ^ 128 - 1) div unat old \<le> (2 ^ 128 - 1) div unat old"
    by (intro div_le_mono) simp
  ultimately have "min (1000000 * price_gap old new) (2 ^ 128 - 1) div unat old \<le> unat tolerance"
    by linarith
  with \<open>old \<noteq> 0\<close> show ?thesis
    by (simp only: breaches_tolerance_unat if_False) simp
qed

theorem breaches_tolerance_saturated_witness:
  "breaches_tolerance (2 ^ 127) 0 1 = Some False"
  by (rule breaches_tolerance_saturated) simp

section \<open>The price parser\<close>

lemma unat_i64_as_u128:
  assumes "0 \<le> sint x"
  shows "unat (i64_as_u128 x) = nat (sint x)"
proof -
  have "sint x < 2 ^ 63" using sint_lt [of x] by simp
  then have "sint x < 2 ^ 128" by (rule order_less_trans) simp
  have "uint (i64_as_u128 x) = sint x mod 2 ^ 128"
    unfolding i64_as_u128_def scast_eq by (simp add: uint_word_of_int del: of_int_sint) 
  with assms have "uint (i64_as_u128 x) = sint x" using \<open>sint x < 2 ^ 128\<close> by simp
  then show ?thesis by (simp only: unat_eq_nat_uint)
qed



lemma unat_ten_pow:
  assumes "n \<le> 38"
  shows "unat ((10 :: u128) ^ n) = 10 ^ n"
proof -
  have "(10::nat) ^ n \<le> 10 ^ 38" using assms by (intro power_increasing) simp_all
  also have "(10::nat) ^ 38 < 2 ^ 128" by simp
  finally show ?thesis by (subst unat_pow_fits) simp_all
qed

lemma integer_part:
  assumes "0 \<le> sint x"
  shows "rs_mul checks (i64_as_u128 x) (10 ^ 12) = Some (i64_as_u128 x * 10 ^ 12)"
    "unat (i64_as_u128 x * 10 ^ 12) = nat (sint x) * 10 ^ 12" "nat (sint x) < 2 ^ 63"
proof -
  have x: "unat (i64_as_u128 x) = nat (sint x)" using assms by (rule unat_i64_as_u128)
  have "sint x < 2 ^ 63" using sint_lt [of x] by simp
  then show bound: "nat (sint x) < 2 ^ 63" using assms by simp
  have ten: "unat (10 ^ 12 :: u128) = 10 ^ 12" by (rule unat_ten_pow) simp
  have "unat (i64_as_u128 x) * unat (10 ^ 12 :: u128) < 2 ^ 128" unfolding x ten using bound by simp
  then show "rs_mul checks (i64_as_u128 x) (10 ^ 12) = Some (i64_as_u128 x * 10 ^ 12)"
    "unat (i64_as_u128 x * 10 ^ 12) = nat (sint x) * 10 ^ 12"
    unfolding x [symmetric] ten [symmetric] by (intro rs_mul_fits unat_mul_fits, simp)+
qed

lemma fraction_part:
  fixes f :: u64
  assumes "n \<le> 38"
  shows "rs_mul checks (ucast f :: u128) (10 ^ 10) = Some (ucast f * 10 ^ 10)"
    "unat (ucast f * 10 ^ 10 div 10 ^ n :: u128) = unat f * 10 ^ 10 div 10 ^ n" "unat f < 2 ^ 64"
proof -
  have f: "unat (ucast f :: u128) = unat f" by (simp add: unat_ucast_wider)
  show bound: "unat f < 2 ^ 64" using unsigned_less [of f] by simp
  have ten: "unat (10 ^ 10 :: u128) = 10 ^ 10" by (rule unat_ten_pow) simp
  have fits: "unat (ucast f :: u128) * unat (10 ^ 10 :: u128) < 2 ^ LENGTH(128)" unfolding f ten using bound by simp
  then show "rs_mul checks (ucast f :: u128) (10 ^ 10) = Some (ucast f * 10 ^ 10)" by (rule rs_mul_fits)
  have "unat (ucast f * 10 ^ 10 :: u128) = unat f * 10 ^ 10" by (simp only: unat_mul_fits [OF fits] f ten)
  then show "unat (ucast f * 10 ^ 10 div 10 ^ n :: u128) = unat f * 10 ^ 10 div 10 ^ n"
    by (simp only: unat_div unat_ten_pow [OF assms])
qed

lemma number_price_value:
  assumes "0 \<le> sint (integer n)" "unat (fraction_length n) \<le> 40"
  shows "\<exists>p. number_price checks n 12 = Some p \<and>
     unat p = nat (sint (integer n)) * 10 ^ 12
       + unat (fraction n) * 10 ^ 10 div 10 ^ (unat (fraction_length n) - 2)"
proof -
  let ?e = "saturating_sub (fraction_length n) 2"
  let ?ip = "i64_as_u128 (integer n) * 10 ^ 12" and ?fp = "ucast (fraction n) * 10 ^ 10 div 10 ^ unat ?e :: u128"
  have e: "unat ?e = unat (fraction_length n) - 2" "unat ?e \<le> 38"
    using assms(2) by (simp_all add: unat_saturating_sub)
  note ip = integer_part [OF assms(1)] and fp = fraction_part [OF e(2), where f = "fraction n"]
  have pows: "rs_pow checks (10::u128) (12::u32) = Some (10 ^ 12)" "rs_pow checks (10::u128) (10::u32) = Some (10 ^ 10)"
    "rs_sub checks (12::u32) 2 = Some 10" by (simp_all add: rs_pow_def rs_sub_def)
  have "(10::nat) ^ unat ?e < 2 ^ LENGTH(128)"
    unfolding unat_ten_pow [OF e(2), symmetric] by (rule unsigned_less)
  then have pexp: "rs_pow checks (10::u128) ?e = Some (10 ^ unat ?e)"
    by (intro rs_pow_fits) simp
  have nz: "(10 ^ unat ?e :: u128) \<noteq> 0" using unat_ten_pow [OF e(2)] by (metis power_not_zero unat_0 zero_neq_numeral)
  have "unat ?fp \<le> unat (fraction n) * 10 ^ 10" unfolding fp(2) by simp
  then have sum: "unat ?ip + unat ?fp < 2 ^ LENGTH(128)" using ip(2,3) fp(3) by simp
  have "number_price checks n 12 = Some (?ip + ?fp)"
    by (simp only: number_price_def Let_def pows pexp ip(1) fp(1) rs_div_def nz if_False bind.bind_lunit
        rs_add_fits [OF sum])
  moreover have "unat (?ip + ?fp) = nat (sint (integer n)) * 10 ^ 12 +
      unat (fraction n) * 10 ^ 10 div 10 ^ (unat (fraction_length n) - 2)"
    unfolding unat_add_fits [OF sum] ip(2) fp(2) unfolding e(1) ..
  ultimately show ?thesis by blast
qed

text \<open>The member of the object that carries the wanted currency, as a number.\<close>

definition quoted_number ::
  "(u8 list \<Rightarrow> json_value option) \<Rightarrow> u8 list \<Rightarrow> u8 list \<Rightarrow> number_value option" where
  "quoted_number parse_json price_str target_currency =
     (case parse_json price_str of
        Some (Object obj) \<Rightarrow>
          (case find (\<lambda>e. fst e = map unat target_currency) obj of
             Some (_, Number n) \<Rightarrow> Some n
           | _ \<Rightarrow> None)
      | _ \<Rightarrow> None)"

lemma parse_price_quoted:
  "parse_price checks parse_json price_str target_currency scale =
     (case quoted_number parse_json price_str target_currency of
        None \<Rightarrow> Some None
      | Some n \<Rightarrow> map_option Some (number_price checks n scale))"
  by (simp add: parse_price_def quoted_number_def case_prod_beta' split: option.split json_value.split prod.split)


text \<open>C34: A fraction of one digit counts for a tenth of its value: the code scales it as if it
  were hundredths, so \<open>12.5\<close> is read as \<open>12.05\<close>.\<close>

theorem parse_price_one_digit_fraction:
  assumes "quoted_number parse_json s cur = Some n"
    and "0 \<le> sint (integer n)" "fraction_length n = 1"
  shows "\<exists>p. parse_price checks parse_json s cur 12 = Some (Some p) \<and>
     unat p + 9 * unat (fraction n) * 10 ^ 10 =
       (nat (sint (integer n)) * 10 + unat (fraction n)) * 10 ^ 11"
proof -
  have "unat (fraction_length n) \<le> 40" using assms(3) by simp
  from number_price_value [OF assms(2) this, of checks] obtain p
    where "number_price checks n 12 = Some p"
      "unat p = nat (sint (integer n)) * 10 ^ 12 + unat (fraction n) * 10 ^ 10"
    using assms(3) by auto
  with assms(1) show ?thesis by (simp add: parse_price_quoted algebra_simps)
qed

text \<open>A quotation of one currency, for the examples.\<close>

definition quote_json :: "currency \<Rightarrow> number_value \<Rightarrow> u8 list \<Rightarrow> json_value option" where
  "quote_json cur n s = Some (Object [(map unat cur, Number n)])"

lemma quoted_number_quote_json [simp]: "quoted_number (quote_json cur n) s cur = Some n"
  by (simp add: quoted_number_def quote_json_def)


theorem parse_price_one_digit_fraction_witness:
  "\<exists>p. parse_price False
     (quote_json [85] \<lparr>integer = 12, fraction = 5, fraction_length = 1\<rparr>) [] [85] 12 =
       Some (Some p) \<and> unat p = 12050000000000"
  using parse_price_one_digit_fraction [of "quote_json [85] \<lparr>integer = 12, fraction = 5, fraction_length = 1\<rparr>"
      "[]" "[85]" "\<lparr>integer = 12, fraction = 5, fraction_length = 1\<rparr>" False]
  by auto

end
