(* ===== verification/Pallet.thy ===== *)
theory Pallet
  imports Agg_Utils
begin

text \<open>
  The aggregator pallet on chain (\<open>pallets/aggregator/src/lib.rs\<close>): its storage, its calls and the
  validation of unsigned transactions, at the types of the runtime (\<open>Currency = Vec<u8>\<close>,
  \<open>Amount = u128\<close>, \<open>BlockNumber = u32\<close>). Account, key and signature types are type variables.

  A call returns \<open>None\<close> when it panics, \<open>Some (Inl e)\<close> for a dispatch error and
  \<open>Some (Inr st)\<close> with the new storage. An error carries no storage: the two calls that
  write before they can still fail are \<open>#[transactional]\<close>, the other two fail before they write.
  \<open>checks\<close> is the overflow mode of the build, \<open>log_on\<close> whether the log level \<open>info\<close> is enabled.
\<close>

section \<open>Storage\<close>

datatype 'acc event =
    BestPricesSubmitted "(currency \<times> currency \<times> amount \<times> operation) list"
  | MonitoredPairsSubmitted "(currency \<times> currency \<times> provider \<times> operation) list"
  | TradePerformed 'acc currency currency amount amount amount
  | WhitelistedOffchainAuthorityAdded 'acc

datatype dispatch_error =
    BadOrigin
  | PricePairNotFoundError
  | UnknownTradeProviderError
  | StaleUnsignedTxError

datatype 'acc origin = Root | Signed 'acc | NoOrigin

type_synonym best_path = "(currency, amount) price_path"

record 'acc storage =
  best_paths :: "currency \<times> currency \<rightharpoonup> best_path"
  monitored_pairs :: "currency provider_pair \<rightharpoonup> unit"
  whitelisted :: "'acc \<rightharpoonup> unit"
  unsigned_tx_nonce :: u64
  events :: "'acc event list"

type_synonym 'acc dispatched = "(dispatch_error, 'acc storage) result run"

text \<open>The signed payload of an unsigned transaction.\<close>

type_synonym change = "currency \<times> currency \<times> best_path option"

record 'pub payload =
  changes :: "change list"
  payload_nonce :: u64
  payload_block :: u32
  public :: 'pub

definition deposit_event :: "'acc event \<Rightarrow> 'acc storage \<Rightarrow> 'acc storage" where
  "deposit_event ev st = st\<lparr>events := events st @ [ev]\<rparr>"

definition ensure_root :: "'acc origin \<Rightarrow> (dispatch_error, unit) result" where
  "ensure_root origin = (case origin of Root \<Rightarrow> Inr () | _ \<Rightarrow> Inl BadOrigin)"

definition ensure_none :: "'acc origin \<Rightarrow> (dispatch_error, unit) result" where
  "ensure_none origin = (case origin of NoOrigin \<Rightarrow> Inr () | _ \<Rightarrow> Inl BadOrigin)"

definition ensure_signed :: "'acc origin \<Rightarrow> (dispatch_error, 'acc) result" where
  "ensure_signed origin = (case origin of Signed a \<Rightarrow> Inr a | _ \<Rightarrow> Inl BadOrigin)"

section \<open>\<open>ocw_submit_best_paths_changes\<close>\<close>

type_synonym price_event = "currency \<times> currency \<times> amount \<times> operation"

text \<open>One iteration of the loop: the stored path and the event payload.\<close>

definition apply_change ::
  "bool \<Rightarrow> change \<Rightarrow> (currency \<times> currency \<rightharpoonup> best_path) \<times> price_event list \<Rightarrow>
     ((currency \<times> currency \<rightharpoonup> best_path) \<times> price_event list) run" where
  "apply_change log_on = (\<lambda>(src, tgt, new_path) (paths, event_payload).
     case new_path of
       Some path \<Rightarrow> do {
         _ \<leftarrow> log_currencies log_on [src, tgt];
         Some (paths((src, tgt) \<mapsto> path),
               event_payload @ [(src, tgt, total_cost path, Add)])
       }
     | None \<Rightarrow>
         if paths (src, tgt) \<noteq> None
         then do {
           _ \<leftarrow> log_currencies log_on [src, tgt];
           Some (paths((src, tgt) := None), event_payload @ [(src, tgt, 0, Del)])
         }
         else Some (paths, event_payload))"

primrec apply_changes ::
  "bool \<Rightarrow> change list \<Rightarrow> (currency \<times> currency \<rightharpoonup> best_path) \<times> price_event list \<Rightarrow>
     ((currency \<times> currency \<rightharpoonup> best_path) \<times> price_event list) run" where
  "apply_changes log_on [] s = Some s"
| "apply_changes log_on (c # cs) s = do { s' \<leftarrow> apply_change log_on c s; apply_changes log_on cs s' }"

definition ocw_submit_best_paths_changes ::
  "bool \<Rightarrow> bool \<Rightarrow> 'acc origin \<Rightarrow> 'pub payload \<Rightarrow> 'acc storage \<Rightarrow> 'acc dispatched" where
  "ocw_submit_best_paths_changes checks log_on origin payload st =
     (case ensure_none origin of
        Inl err \<Rightarrow> Some (Inl err)
      | Inr _ \<Rightarrow>
          let current_nonce = unsigned_tx_nonce st in
          if current_nonce \<noteq> payload_nonce payload then Some (Inl StaleUnsignedTxError)
          else do {
            (paths, event_payload) \<leftarrow> apply_changes log_on (changes payload) (best_paths st, []);
            next \<leftarrow> rs_add checks current_nonce 1;
            let st' = st\<lparr>best_paths := paths, unsigned_tx_nonce := next\<rparr>;
            Some (Inr (if event_payload \<noteq> [] then deposit_event (BestPricesSubmitted event_payload) st' else st'))
          })"

section \<open>\<open>submit_monitored_pairs\<close>\<close>

type_synonym pair_operation = "currency provider_pair_operation"

text \<open>The first loop runs over the reversed operations and collects \<open>operations2\<close>.\<close>

primrec dedupe_loop ::
  "pair_operation list \<Rightarrow> pair_operation list \<times> currency provider_pair list \<Rightarrow>
     pair_operation list \<times> currency provider_pair list" where
  "dedupe_loop [] s = s"
| "dedupe_loop (op # ops) s =
     (let (operations2, uniques) = s; (fresh, uniques') = bs_insert (provider_pair op) uniques in
      dedupe_loop ops (if fresh then operations2 @ [op] else operations2, if fresh then uniques' else uniques))"

definition dedupe_operations :: "pair_operation list \<Rightarrow> pair_operation list" where
  "dedupe_operations operations = rev (fst (dedupe_loop (rev operations) ([], [])))"

type_synonym pair_event = "currency \<times> currency \<times> provider \<times> operation"

definition apply_operation ::
  "pair_operation \<Rightarrow> (currency provider_pair \<rightharpoonup> unit) \<times> pair_event list \<Rightarrow>
     (currency provider_pair \<rightharpoonup> unit) \<times> pair_event list" where
  "apply_operation op = (\<lambda>(pairs, event_payload).
     let pp = provider_pair op;
         item = (source (pp_pair pp), target (pp_pair pp), pp_provider pp, operation op) in
     case operation op of
       Add \<Rightarrow> if pairs pp = None then (pairs(pp \<mapsto> ()), event_payload @ [item]) else (pairs, event_payload)
     | Del \<Rightarrow> if pairs pp \<noteq> None then (pairs(pp := None), event_payload @ [item]) else (pairs, event_payload))"

definition submit_monitored_pairs ::
  "'acc origin \<Rightarrow> pair_operation list \<Rightarrow> 'acc storage \<Rightarrow> 'acc dispatched" where
  "submit_monitored_pairs origin operations st =
     (case ensure_root origin of
        Inl err \<Rightarrow> Some (Inl err)
      | Inr _ \<Rightarrow>
          let (pairs, event_payload) = fold apply_operation (dedupe_operations operations) (monitored_pairs st, []);
              st' = st\<lparr>monitored_pairs := pairs\<rparr> in
          Some (Inr (if event_payload \<noteq> [] then deposit_event (MonitoredPairsSubmitted event_payload) st' else st')))"

section \<open>\<open>add_whitelisted_offchain_authority\<close> and \<open>trade\<close>\<close>

definition add_whitelisted_offchain_authority ::
  "'acc origin \<Rightarrow> 'acc \<Rightarrow> 'acc storage \<Rightarrow> 'acc dispatched" where
  "add_whitelisted_offchain_authority origin offchain_authority st =
     (case ensure_root origin of
        Inl err \<Rightarrow> Some (Inl err)
      | Inr _ \<Rightarrow>
          let st1 = deposit_event (WhitelistedOffchainAuthorityAdded offchain_authority) st in
          Some (Inr (st1\<lparr>whitelisted := (whitelisted st1)(offchain_authority \<mapsto> ())\<rparr>)))"

definition trade ::
  "bool \<Rightarrow> 'acc origin \<Rightarrow> currency \<Rightarrow> currency \<Rightarrow> amount \<Rightarrow> 'acc storage \<Rightarrow> 'acc dispatched" where
  "trade checks origin src tgt amount st =
     (case ensure_signed origin of
        Inl err \<Rightarrow> Some (Inl err)
      | Inr owner \<Rightarrow>
          (case best_paths st (src, tgt) of
             Some price_path \<Rightarrow> do {
               let cost = total_cost price_path;
               target_amount \<leftarrow> rs_mul checks amount cost;
               Some (Inr (deposit_event (TradePerformed owner src tgt cost amount target_amount) st))
             }
           | None \<Rightarrow> Some (Inl PricePairNotFoundError)))"

section \<open>Calls and unsigned validation\<close>

datatype ('acc, 'pub, 'sig) call =
    OcwSubmitBestPathsChanges "'pub payload" 'sig
  | SubmitMonitoredPairs "pair_operation list"
  | AddWhitelistedOffchainAuthority 'acc
  | Trade currency currency amount

definition dispatch ::
  "bool \<Rightarrow> bool \<Rightarrow> 'acc origin \<Rightarrow> ('acc, 'pub, 'sig) call \<Rightarrow> 'acc storage \<Rightarrow> 'acc dispatched" where
  "dispatch checks log_on origin c st =
     (case c of
        OcwSubmitBestPathsChanges payload _ \<Rightarrow> ocw_submit_best_paths_changes checks log_on origin payload st
      | SubmitMonitoredPairs operations \<Rightarrow> submit_monitored_pairs origin operations st
      | AddWhitelistedOffchainAuthority a \<Rightarrow> add_whitelisted_offchain_authority origin a st
      | Trade s t a \<Rightarrow> trade checks origin s t a st)"

datatype invalid_transaction = BadProof | Stale | InvalidCall

text \<open>\<open>TX_TAG\<close> is \<open>b"aggregator"\<close>, the tag prefix \<open>"AggregatorWorker"\<close>.\<close>

definition TX_TAG :: string where
  "TX_TAG = ''aggregator''"

record valid_transaction =
  tag_prefix :: string
  priority :: u64
  provides :: "(string \<times> u32) list"
  longevity :: u64
  propagate :: bool

text \<open>
  \<open>verify\<close> is the check of the signature over the payload, \<open>into_account\<close> the account of a
  public key: both belong to the key type the runtime chooses.
\<close>

definition validate_unsigned ::
  "bool \<Rightarrow> ('pub payload \<Rightarrow> 'sig \<Rightarrow> bool) \<Rightarrow> ('pub \<Rightarrow> 'acc) \<Rightarrow> u32 \<Rightarrow> u64 \<Rightarrow> u32 \<Rightarrow> ('acc, 'pub, 'sig) call \<Rightarrow>
     'acc storage \<Rightarrow> (invalid_transaction, valid_transaction) result run" where
  "validate_unsigned checks verify into_account max_pool_stay unsigned_priority current_block c st =
     (case c of
        OcwSubmitBestPathsChanges payload signature \<Rightarrow>
          if \<not> verify payload signature then Some (Inl BadProof)
          else do {
            limit \<leftarrow> rs_add checks (payload_block payload) max_pool_stay;
            if limit < current_block then Some (Inl Stale)
            else if whitelisted st (into_account (public payload)) = None then Some (Inl BadProof)
            else Some (Inr \<lparr>tag_prefix = ''AggregatorWorker'', priority = unsigned_priority,
                            provides = [(TX_TAG, current_block)], longevity = 5, propagate = True\<rparr>)
          }
      | _ \<Rightarrow> Some (Inl InvalidCall))"

end
