(* ===== verification/Trade_Provider.thy ===== *)
theory Trade_Provider
  imports Agg_Utils
begin

text \<open>
  \<open>trade_provider/crypto_compare.rs\<close> and \<open>trade_provider/mod.rs\<close>: one HTTP request per price. The
  HTTP client of the offchain host and the JSON parser are parameters: \<open>http_get\<close> maps a URL and a
  deadline to the outcome of the request.
\<close>

datatype http_error = DeadlineReached | IoError | Unknown

datatype trade_provider_err = TransportErr http_error

definition err_from :: "http_error \<Rightarrow> trade_provider_err" where
  "err_from err = TransportErr err"

text \<open>The ways a request ends: it cannot be sent, there is no response before the deadline, waiting
  for it fails, or there is a status code with a body.\<close>

datatype http_outcome =
    SendFailed
  | NoResponse
  | WaitFailed http_error
  | Response nat "u8 list"

definition ascii :: "string \<Rightarrow> u8 list" where
  "ascii s = map of_char s"

definition price_url :: "u8 list \<Rightarrow> u8 list \<Rightarrow> u8 list" where
  "price_url src tgt =
     concat4 (ascii ''https://min-api.cryptocompare.com/data/price?fsym='') src (ascii ''&tsyms='') tgt"

definition get_price ::
  "bool \<Rightarrow> (u8 list \<Rightarrow> json_value option) \<Rightarrow> (u8 list \<Rightarrow> u64 \<Rightarrow> http_outcome) \<Rightarrow> u64 \<Rightarrow>
     u8 list \<Rightarrow> u8 list \<Rightarrow> u32 \<Rightarrow> (trade_provider_err, u128) result run" where
  "get_price checks parse_json http_get timestamp src tgt scale =
     (let deadline = saturating_add timestamp 2000; url_bin = price_url src tgt in
      if \<not> utf8_valid url_bin then Some (Inl (err_from Unknown))
      else case http_get url_bin deadline of
        SendFailed \<Rightarrow> Some (Inl (err_from IoError))
      | NoResponse \<Rightarrow> Some (Inl (err_from DeadlineReached))
      | WaitFailed e \<Rightarrow> Some (Inl (err_from e))
      | Response code body \<Rightarrow>
          if code \<noteq> 200 then Some (Inl (err_from Unknown))
          else if \<not> utf8_valid body then Some (Inl (err_from Unknown))
          else do {
            price \<leftarrow> parse_price checks parse_json body tgt scale;
            case price of
              Some p \<Rightarrow> Some (Inr p)
            | None \<Rightarrow> Some (Inl (err_from Unknown))
          })"

definition SCALE :: u32 where
  "SCALE = 12"

definition provider_get_price ::
  "bool \<Rightarrow> (u8 list \<Rightarrow> json_value option) \<Rightarrow> (u8 list \<Rightarrow> u64 \<Rightarrow> http_outcome) \<Rightarrow> u64 \<Rightarrow>
     provider \<Rightarrow> currency \<Rightarrow> currency \<Rightarrow> (trade_provider_err, u128) result run" where
  "provider_get_price checks parse_json http_get timestamp provider src tgt =
     (case provider of CRYPTOCOMPARE \<Rightarrow> get_price checks parse_json http_get timestamp src tgt SCALE)"

section \<open>When there is a price\<close>

text \<open>A price is fetched exactly when the URL is UTF-8, the request is answered in time with status
  200 and a UTF-8 body, and the body is a JSON object whose first member for the target currency
  is a number; the price is that number at scale 12. Everything else is a transport error.\<close>

theorem provider_get_price_spec:
  "provider_get_price checks parse_json http_get now CRYPTOCOMPARE src tgt = Some (Inr price) \<longleftrightarrow>
     utf8_valid (price_url src tgt) \<and>
     (\<exists>body obj k num. http_get (price_url src tgt) (saturating_add now 2000) = Response 200 body \<and>
        utf8_valid body \<and> parse_json body = Some (Object obj) \<and>
        find (\<lambda>(k, _). k = map unat tgt) obj = Some (k, Number num) \<and>
        number_price checks num 12 = Some price)"
  by (auto simp: provider_get_price_def get_price_def SCALE_def parse_price_def Let_def
      split: http_outcome.splits option.splits json_value.splits Option.bind_splits if_splits)

end
