(* ===== verification/Weights.thy ===== *)
theory Weights
  imports Pallet
begin

text \<open>
  The weights of the pallet's calls (\<open>pallets/aggregator/src/weights.rs\<close> and the weight attributes
  of \<open>lib.rs\<close>): the interface \<open>WeightInfo\<close>, its two implementations, and the weight each call is
  charged. The cost of \<open>n\<close> database reads and writes belongs to the runtime's database and is a
  parameter.
\<close>

type_synonym weight = u64

record db_weight =
  reads :: "weight \<Rightarrow> weight"
  writes :: "weight \<Rightarrow> weight"

record weight_info =
  wi_add_price_pair_nonexisting :: weight
  wi_add_price_pair_existing :: weight
  wi_remove_price_pair :: weight
  wi_submit_monitored_pairs :: "nat \<Rightarrow> weight"
  wi_ocw_submit_best_paths_changes :: "nat \<Rightarrow> weight"
  wi_add_whitelisted_offchain_authority :: weight
  wi_trade :: weight

definition SubstrateWeight :: "db_weight \<Rightarrow> weight_info" where
  "SubstrateWeight DbWeight = \<lparr>
     wi_add_price_pair_nonexisting =
       saturating_add (saturating_add 155000000 (reads DbWeight 1)) (writes DbWeight 1),
     wi_add_price_pair_existing =
       saturating_add (saturating_add 51000000 (reads DbWeight 1)) (writes DbWeight 1),
     wi_remove_price_pair =
       saturating_add (saturating_add 156000000 (reads DbWeight 1)) (writes DbWeight 1),
     wi_submit_monitored_pairs = (\<lambda>_.
       saturating_add (saturating_add 20827000000 (reads DbWeight 250)) (writes DbWeight 250)),
     wi_ocw_submit_best_paths_changes = (\<lambda>_.
       saturating_add (saturating_add 143000000 (reads DbWeight 1)) (writes DbWeight 1)),
     wi_add_whitelisted_offchain_authority =
       saturating_add (saturating_add 138000000 (reads DbWeight 1)) (writes DbWeight 1),
     wi_trade =
       saturating_add (saturating_add 138000000 (reads DbWeight 1)) (writes DbWeight 1)\<rparr>"

text \<open>The implementation for \<open>()\<close>, over the weights of RocksDB.\<close>

definition UnitWeight :: "db_weight \<Rightarrow> weight_info" where
  "UnitWeight RocksDbWeight = \<lparr>
     wi_add_price_pair_nonexisting =
       saturating_add (saturating_add 155000000 (reads RocksDbWeight 1)) (writes RocksDbWeight 1),
     wi_add_price_pair_existing =
       saturating_add (saturating_add 51000000 (reads RocksDbWeight 1)) (writes RocksDbWeight 1),
     wi_remove_price_pair =
       saturating_add (saturating_add 156000000 (reads RocksDbWeight 1)) (writes RocksDbWeight 1),
     wi_submit_monitored_pairs = (\<lambda>_.
       saturating_add (saturating_add 20827000000 (reads RocksDbWeight 250)) (writes RocksDbWeight 250)),
     wi_ocw_submit_best_paths_changes = (\<lambda>_.
       saturating_add (saturating_add 143000000 (reads RocksDbWeight 1)) (writes RocksDbWeight 1)),
     wi_add_whitelisted_offchain_authority =
       saturating_add (saturating_add 138000000 (reads RocksDbWeight 1)) (writes RocksDbWeight 1),
     wi_trade =
       saturating_add (saturating_add 138000000 (reads RocksDbWeight 1)) (writes RocksDbWeight 1)\<rparr>"

text \<open>The \<open>#[pallet::weight(..)]\<close> of each call.\<close>

definition call_weight :: "weight_info \<Rightarrow> ('acc, 'pub, 'sig) call \<Rightarrow> weight" where
  "call_weight wi c =
     (case c of
        OcwSubmitBestPathsChanges payload _ \<Rightarrow> wi_submit_monitored_pairs wi (length (changes payload))
      | SubmitMonitoredPairs operations \<Rightarrow> wi_submit_monitored_pairs wi (length operations)
      | AddWhitelistedOffchainAuthority _ \<Rightarrow> wi_add_whitelisted_offchain_authority wi
      | Trade _ _ _ \<Rightarrow> wi_trade wi)"

text \<open>The two implementations agree where the runtime's database is RocksDB, as it is here.\<close>

lemma UnitWeight_eq: "UnitWeight db = SubstrateWeight db"
  by (simp add: UnitWeight_def SubstrateWeight_def)

text \<open>The weight of a call never depends on how much it carries: a best path submission is charged the
  fixed weight of \<open>submit_monitored_pairs\<close>, whatever the number of its changes, and that is at
  least the weight of every other call when 250 database accesses cost no less than one.\<close>

theorem call_weight_constant:
  assumes "reads db 1 \<le> reads db 250" "writes db 1 \<le> writes db 250"
  shows "call_weight (SubstrateWeight db) (OcwSubmitBestPathsChanges payload sig) =
       call_weight (SubstrateWeight db) (SubmitMonitoredPairs ops) \<and>
     call_weight (SubstrateWeight db) c \<le> call_weight (SubstrateWeight db) (OcwSubmitBestPathsChanges payload sig) \<and>
     unat (call_weight (SubstrateWeight db) (OcwSubmitBestPathsChanges payload sig)) =
       min (20827000000 + unat (reads db 250) + unat (writes db 250)) (2 ^ 64 - 1)"
  using assms
  by (cases c) (auto simp: call_weight_def SubstrateWeight_def word_le_nat_alt unat_saturating_add)

theorem call_weight_constant_witness:
  "call_weight (SubstrateWeight \<lparr>reads = (\<lambda>n. n), writes = (\<lambda>n. n)\<rparr>) (Trade [] [] 1 :: (nat, nat, unit) call) \<le>
     call_weight (SubstrateWeight \<lparr>reads = (\<lambda>n. n), writes = (\<lambda>n. n)\<rparr>)
       (OcwSubmitBestPathsChanges \<lparr>changes = [], payload_nonce = 0, payload_block = 0, public = 0\<rparr> ())"
  by (rule call_weight_constant [THEN conjunct2, THEN conjunct1]) simp_all

end
