(* ===== verification/Ocw.thy ===== *)
theory Ocw
  imports Calculator Pallet Trade_Provider Weights
begin

text \<open>
  The offchain worker (\<open>pallets/aggregator/src/lib.rs\<close>): the trigger, the comparison of new best
  paths with the stored ones, and the submission. The calculator is any implementation of the
  locale \<open>best_path_calculator\<close>; the results about the comparison are proved in that locale, for
  both calculators of the pallet. The order in which the storage iterators visit keys (by their
  hash), the local key store, the signing function and the transaction pool are parameters.
\<close>

text \<open>The pallet's \<open>Config\<close>: the calculator, the trade provider, the weights and the four constants. Its
  currency and amount types are fixed to the runtime's choice.\<close>

record config =
  calculate :: "(currency, amount) priced list \<Rightarrow> (calculator_error, (currency, amount) best_paths) result run"
  fetch_price :: "provider \<Rightarrow> currency \<Rightarrow> currency \<Rightarrow> (trade_provider_err, u128) result run"
  call_weights :: weight_info
  trigger_delay :: u32
  max_tx_pool_stay_time :: u32
  unsigned_tx_priority :: u64
  tolerance :: u32

text \<open>The environment of the worker on a node: the configuration, the build, and the node's own parts.
  \<open>local_key\<close> is the first key of the keystore, \<open>submit_ok\<close> the pool's answer to a transaction.\<close>

record ('acc, 'pub, 'sig) ocw_env = config +
  checks :: bool
  log_debug :: bool
  iter_pairs :: "currency provider_pair set \<Rightarrow> currency provider_pair list"
  iter_paths :: "(currency \<times> currency) set \<Rightarrow> (currency \<times> currency) list"
  local_key :: "'pub option"
  sign :: "'pub payload \<Rightarrow> 'sig"
  submit_ok :: "('acc, 'pub, 'sig) call \<Rightarrow> bool"

datatype ocw_error =
    CalculationFailed calculator_error
  | NoLocalAccounts
  | SubmitFailed

section \<open>The trigger\<close>

text \<open>The value under \<open>NEXT_OFFCHAIN_TRIGGER_BLOCK\<close> in the node's local storage.\<close>

datatype stored_block = Absent | Stored u32 | Unreadable

definition should_trigger_offchain :: "stored_block \<Rightarrow> u32 \<Rightarrow> bool" where
  "should_trigger_offchain next_trigger block_number =
     (case next_trigger of
        Stored n \<Rightarrow> n \<le> block_number
      | Absent \<Rightarrow> True
      | Unreadable \<Rightarrow> False)"

section \<open>Comparing best paths\<close>

text \<open>The pairs whose price could be fetched, in iteration order.\<close>

definition fetched_pairs ::
  "('acc, 'pub, 'sig) ocw_env \<Rightarrow> 'acc storage \<Rightarrow> (currency, amount) priced list run" where
  "fetched_pairs env st = do {
     rs \<leftarrow> run_map (\<lambda>pp. map_option (\<lambda>r. (pp, r)) (fetch_price env (pp_provider pp) (source (pp_pair pp)) (target (pp_pair pp))))
            (iter_pairs env (dom (monitored_pairs st)));
     Some (concat (map (\<lambda>(pp, r). case r of Inr price \<Rightarrow> [(pp, price)] | Inl _ \<Rightarrow> []) rs))
   }"


text \<open>The first loop visits the stored best paths, the second the new ones.\<close>

primrec changed_entries ::
  "('acc, 'pub, 'sig) ocw_env \<Rightarrow> (currency, amount) best_paths \<Rightarrow> (currency \<times> currency \<times> best_path) list \<Rightarrow> change list run" where
  "changed_entries env new_best_paths [] = Some []"
| "changed_entries env new_best_paths (e # entries) =
     (case e of (src, tgt, old_price_path) \<Rightarrow>
        (case bm_get new_best_paths (Pair src tgt) of
           Some new_price_path \<Rightarrow> do {
             breach \<leftarrow> breaches_tolerance (total_cost old_price_path) (total_cost new_price_path) (tolerance env);
             _ \<leftarrow> log_currencies (log_debug env) [src, tgt];
             rest \<leftarrow> changed_entries env new_best_paths entries;
             Some (if breach then (src, tgt, Some new_price_path) # rest else rest)
           }
         | None \<Rightarrow> do {
             _ \<leftarrow> log_currencies (log_debug env) [src, tgt];
             changed_entries env new_best_paths entries
           }))"

primrec new_entries ::
  "('acc, 'pub, 'sig) ocw_env \<Rightarrow> (currency \<times> currency \<rightharpoonup> best_path) \<Rightarrow> (currency, amount) best_paths \<Rightarrow> change list run" where
  "new_entries env stored [] = Some []"
| "new_entries env stored (e # entries) =
     (case e of (pr, new_price_path) \<Rightarrow>
        if stored (source pr, target pr) = None then do {
          _ \<leftarrow> log_currencies (log_debug env) [source pr, target pr];
          rest \<leftarrow> new_entries env stored entries;
          Some ((source pr, target pr, Some new_price_path) # rest)
        }
        else new_entries env stored entries)"

definition stored_entries ::
  "('acc, 'pub, 'sig) ocw_env \<Rightarrow> 'acc storage \<Rightarrow> (currency \<times> currency \<times> best_path) list" where
  "stored_entries env st =
     map (\<lambda>k. (fst k, snd k, the (best_paths st k))) (iter_paths env (dom (best_paths st)))"

definition best_path_changes ::
  "('acc, 'pub, 'sig) ocw_env \<Rightarrow> 'acc storage \<Rightarrow> (currency, amount) best_paths \<Rightarrow> change list run" where
  "best_path_changes env st new_best_paths = do {
     cs \<leftarrow> changed_entries env new_best_paths (stored_entries env st);
     ns \<leftarrow> new_entries env (best_paths st) new_best_paths;
     Some (cs @ ns)
   }"

section \<open>Submission\<close>

definition submit_changes ::
  "('acc, 'pub, 'sig) ocw_env \<Rightarrow> u32 \<Rightarrow> 'acc storage \<Rightarrow> change list \<Rightarrow>
     (ocw_error, unit) result \<times> ('acc, 'pub, 'sig) call list" where
  "submit_changes env block_number st cs =
     (if cs = [] then (Inr (), [])
      else case local_key env of
        None \<Rightarrow> (Inl NoLocalAccounts, [])
      | Some key \<Rightarrow>
          let payload = \<lparr>changes = cs, payload_nonce = unsigned_tx_nonce st, payload_block = block_number, public = key\<rparr>;
              tx = OcwSubmitBestPathsChanges payload (sign env payload) in
          if submit_ok env tx then (Inr (), [tx]) else (Inl SubmitFailed, []))"

definition fetch_prices_and_update_best_paths ::
  "('acc, 'pub, 'sig) ocw_env \<Rightarrow> u32 \<Rightarrow> 'acc storage \<Rightarrow>
     ((ocw_error, unit) result \<times> ('acc, 'pub, 'sig) call list) run" where
  "fetch_prices_and_update_best_paths env block_number st = do {
     fetched \<leftarrow> fetched_pairs env st;
     if fetched = [] then Some (Inr (), [])
     else do {
       res \<leftarrow> calculate env fetched;
       case res of
         Inl e \<Rightarrow> Some (Inl (CalculationFailed e), [])
       | Inr new_best_paths \<Rightarrow> do {
           cs \<leftarrow> best_path_changes env st new_best_paths;
           Some (submit_changes env block_number st cs)
         }
     }
   }"

text \<open>The entry point: the transactions it submits and the next trigger block. \<open>lock_free\<close> tells
  whether the storage lock could be taken.\<close>

definition offchain_worker ::
  "('acc, 'pub, 'sig) ocw_env \<Rightarrow> bool \<Rightarrow> u32 \<Rightarrow> stored_block \<Rightarrow> 'acc storage \<Rightarrow>
     (('acc, 'pub, 'sig) call list \<times> stored_block) run" where
  "offchain_worker env lock_free block_number next_trigger st =
     (if should_trigger_offchain next_trigger block_number \<and> lock_free then do {
        (_, txs) \<leftarrow> fetch_prices_and_update_best_paths env block_number st;
        next \<leftarrow> rs_add (checks env) block_number (trigger_delay env);
        Some (txs, Stored next)
      }
      else Some ([], next_trigger))"

end
