(* ===== verification/Pallet_Results.thy ===== *)
theory Pallet_Results
  imports Pallet
begin

text \<open>
  What the calls of the aggregator pallet do: the storage after
  \<open>ocw_submit_best_paths_changes\<close> and \<open>submit_monitored_pairs\<close> and the events they issue, what is
  refused, and which call may change which part of the storage.
\<close>

section \<open>A sample\<close>

definition BTC :: currency where
  "BTC = [0x42, 0x54, 0x43]"

definition USD :: currency where
  "USD = [0x55, 0x53, 0x44]"

definition sample_storage :: "nat storage" where
  "sample_storage = \<lparr>best_paths = Map.empty, monitored_pairs = Map.empty, whitelisted = [7 \<mapsto> ()],
     unsigned_tx_nonce = 3, events = []\<rparr>"

definition sample_payload :: "change list \<Rightarrow> nat payload" where
  "sample_payload cs = \<lparr>changes = cs, payload_nonce = 3, payload_block = 10, public = 7\<rparr>"

lemma utf8_BTC_USD [simp]: "utf8_valid BTC" "utf8_valid USD"
  by (simp_all add: BTC_def USD_def)

lemma sample_submission:
  obtains st' where "ocw_submit_best_paths_changes True False NoOrigin
    (sample_payload [(BTC, USD, Some \<lparr>total_cost = 5, steps = []\<rparr>)]) sample_storage = Some (Inr st')"
  by (simp add: ocw_submit_best_paths_changes_def ensure_none_def sample_payload_def sample_storage_def
      apply_change_def log_currencies_def rs_add_def)

section \<open>Best path changes\<close>

text \<open>The storage after a list of changes: a later change of a pair overrides an earlier one.\<close>

primrec changed_paths ::
  "change list \<Rightarrow> (currency \<times> currency \<rightharpoonup> best_path) \<Rightarrow> (currency \<times> currency \<rightharpoonup> best_path)" where
  "changed_paths [] paths = paths"
| "changed_paths (c # cs) paths =
     (case c of (s, t, new_path) \<Rightarrow> changed_paths cs (paths((s, t) := new_path)))"

text \<open>The event lists every addition, and every removal of a path that is there.\<close>

definition change_event :: "change \<Rightarrow> (currency \<times> currency \<rightharpoonup> best_path) \<Rightarrow> price_event list" where
  "change_event c paths =
     (case c of
        (s, t, Some path) \<Rightarrow> [(s, t, total_cost path, Add)]
      | (s, t, None) \<Rightarrow> if paths (s, t) = None then [] else [(s, t, 0, Del)])"

primrec change_events :: "change list \<Rightarrow> (currency \<times> currency \<rightharpoonup> best_path) \<Rightarrow> price_event list" where
  "change_events [] paths = []"
| "change_events (c # cs) paths = change_event c paths @ change_events cs (changed_paths [c] paths)"

definition last_change :: "change list \<Rightarrow> currency \<times> currency \<Rightarrow> best_path option option" where
  "last_change cs k = map_of (rev (map (\<lambda>(s, t, new_path). ((s, t), new_path)) cs)) k"

lemma changed_paths_last:
  "changed_paths cs paths k = (case last_change cs k of Some new_path \<Rightarrow> new_path | None \<Rightarrow> paths k)"
  by (induction cs arbitrary: paths)
    (auto simp: last_change_def map_add_def split: option.splits prod.splits)

definition utf8_change :: "change \<Rightarrow> bool" where
  "utf8_change c \<longleftrightarrow> utf8_valid (fst c) \<and> utf8_valid (fst (snd c))"

lemma apply_change_result:
  assumes "log_on \<longrightarrow> utf8_change c"
  shows "apply_change log_on c (paths, ev) = Some (changed_paths [c] paths, ev @ change_event c paths)"
proof -
  obtain s t np where c: "c = (s, t, np)" by (cases c)
  have "log_currencies log_on [s, t] = Some ()"
    using assms by (auto simp: c utf8_change_def log_currencies_def to_str_def)
  then show ?thesis by (cases np) (auto simp: c apply_change_def change_event_def)
qed

lemma apply_changes_result:
  "log_on \<longrightarrow> (\<forall>c \<in> set cs. utf8_change c) \<Longrightarrow>
     apply_changes log_on cs (paths, ev) = Some (changed_paths cs paths, ev @ change_events cs paths)"
proof (induction cs arbitrary: paths ev)
  case (Cons c cs)
  then have "apply_change log_on c (paths, ev) = Some (changed_paths [c] paths, ev @ change_event c paths)"
    by (intro apply_change_result) simp
  with Cons show ?case by (simp split: prod.split)
qed simp

lemma apply_changes_Some:
  "apply_changes log_on cs (paths, ev) = Some r \<Longrightarrow> r = (changed_paths cs paths, ev @ change_events cs paths)"
proof (induction cs arbitrary: paths ev)
  case (Cons c cs)
  obtain s t np where c: "c = (s, t, np)" by (cases c)
  from Cons.prems obtain r' where "apply_change log_on c (paths, ev) = Some r'" "apply_changes log_on cs r' = Some r"
    by (auto split: Option.bind_splits)
  moreover from this(1) have "r' = (changed_paths [c] paths, ev @ change_event c paths)"
    by (auto simp: c apply_change_def change_event_def split: option.splits Option.bind_splits if_splits)
  ultimately have "r = (changed_paths cs (changed_paths [c] paths), (ev @ change_event c paths) @ change_events cs (changed_paths [c] paths))"
    using Cons.IH by metis
  then show ?case by (simp add: c)
qed simp

lemma apply_changes_None:
  assumes "c \<in> set cs" "snd (snd c) \<noteq> None" "\<not> utf8_change c"
  shows "apply_changes True cs s = None"
  using assms(1)
proof (induction cs arbitrary: s)
  case (Cons d cs)
  have none: "apply_change True c s = None" for s
    using assms(2,3) by (cases c; cases s)
      (auto simp: apply_change_def utf8_change_def log_currencies_def to_str_def)
  show ?case
  proof (cases "apply_change True d s")
    case (Some s')
    with none [of s] Cons.prems have "c \<in> set cs" by auto
    with Cons.IH [of s'] Some show ?thesis by simp
  qed simp
qed simp

lemma ocw_submit_accepted:
  assumes "unsigned_tx_nonce st = payload_nonce payload" "log_on \<longrightarrow> (\<forall>c \<in> set (changes payload). utf8_change c)"
    and "rs_add checks (payload_nonce payload) 1 = Some next"
  shows "ocw_submit_best_paths_changes checks log_on NoOrigin payload st =
     (let evs = change_events (changes payload) (best_paths st) in
      Some (Inr (st\<lparr>best_paths := changed_paths (changes payload) (best_paths st), unsigned_tx_nonce := next,
        events := events st @ (if evs = [] then [] else [BestPricesSubmitted evs])\<rparr>)))"
  using assms by (simp add: ocw_submit_best_paths_changes_def ensure_none_def apply_changes_result
      deposit_event_def Let_def)

lemma nonce_fits:
  fixes n :: u64
  assumes "n \<noteq> - 1"
  shows "rs_add checks n 1 = Some (n + 1) \<and> unat (n + 1) = unat n + 1"
proof -
  have "unat n \<noteq> unat (- 1 :: u64)" using assms by (simp only: word_unat_eq_iff) simp
  moreover have "unat n < 2 ^ 64" using unsigned_less [of n] by simp
  moreover have "unat (- 1 :: u64) = 2 ^ 64 - 1" by (simp add: unsigned_minus_1_eq_mask mask_eq_exp_minus_1)
  ultimately have "unat n + 1 < 2 ^ 64" by linarith
  then show ?thesis by (simp add: rs_add_def unat_add_fits)
qed

text \<open>C13: An accepted submission sets every best path as the last change for its pair in the payload
  says (a path replaces, nothing removes), leaves the other pairs, bumps the nonce, and issues one
  event that lists every addition and every removal of an existing path in payload order; no
  event if there are none.\<close>

theorem ocw_submit_spec:
  assumes "unsigned_tx_nonce st = payload_nonce payload" "unsigned_tx_nonce st \<noteq> - 1"
    and "log_on \<longrightarrow> (\<forall>c \<in> set (changes payload). utf8_change c)"
  shows "\<exists>st'. ocw_submit_best_paths_changes checks log_on NoOrigin payload st = Some (Inr st') \<and>
     (\<forall>k. best_paths st' k =
        (case last_change (changes payload) k of Some new_path \<Rightarrow> new_path | None \<Rightarrow> best_paths st k)) \<and>
     unat (unsigned_tx_nonce st') = unat (unsigned_tx_nonce st) + 1 \<and>
     monitored_pairs st' = monitored_pairs st \<and> whitelisted st' = whitelisted st \<and>
     (let evs = change_events (changes payload) (best_paths st) in
      events st' = events st @ (if evs = [] then [] else [BestPricesSubmitted evs]))"
  using ocw_submit_accepted [OF assms(1,3), of checks "payload_nonce payload + 1"]
    nonce_fits [OF assms(2), of checks] assms(1)
  by (simp add: changed_paths_last Let_def)

theorem ocw_submit_spec_witness:
  "\<exists>st'. ocw_submit_best_paths_changes True True NoOrigin
       (sample_payload [(BTC, USD, Some \<lparr>total_cost = 5, steps = []\<rparr>), (BTC, USD, None)]) sample_storage =
       Some (Inr st') \<and>
     best_paths st' (BTC, USD) = None \<and> unat (unsigned_tx_nonce st') = 4 \<and>
     events st' = [BestPricesSubmitted [(BTC, USD, 5, Add), (BTC, USD, 0, Del)]]"
  using ocw_submit_spec [of sample_storage
      "sample_payload [(BTC, USD, Some \<lparr>total_cost = 5, steps = []\<rparr>), (BTC, USD, None)]" True True]
  by (auto simp: sample_storage_def sample_payload_def utf8_change_def last_change_def change_event_def)

lemma ocw_submit_success:
  assumes "ocw_submit_best_paths_changes checks log_on origin payload st = Some (Inr st')"
  obtains paths evs where "origin = NoOrigin" "unsigned_tx_nonce st = payload_nonce payload"
    "apply_changes log_on (changes payload) (best_paths st, []) = Some (paths, evs)"
    "st' = st\<lparr>best_paths := paths, unsigned_tx_nonce := unsigned_tx_nonce st + 1,
       events := events st @ (if evs = [] then [] else [BestPricesSubmitted evs])\<rparr>"
proof -
  from assms have origin: "origin = NoOrigin" and nonce: "unsigned_tx_nonce st = payload_nonce payload"
    by (auto simp: ocw_submit_best_paths_changes_def ensure_none_def Let_def split: origin.splits if_splits)
  show thesis
  proof (cases "apply_changes log_on (changes payload) (best_paths st, [])")
    case None
    with assms origin nonce show thesis by (simp add: ocw_submit_best_paths_changes_def ensure_none_def Let_def)
  next
    case (Some r)
    obtain paths evs where r: "r = (paths, evs)" by (cases r)
    with assms origin nonce Some have "rs_add checks (unsigned_tx_nonce st) 1 \<noteq> None"
      by (cases "rs_add checks (unsigned_tx_nonce st) 1")
        (auto simp: ocw_submit_best_paths_changes_def ensure_none_def Let_def)
    then have "rs_add checks (unsigned_tx_nonce st) 1 = Some (unsigned_tx_nonce st + 1)"
      by (simp add: rs_add_def split: if_splits)
    with assms origin nonce Some r have "st' = st\<lparr>best_paths := paths, unsigned_tx_nonce := unsigned_tx_nonce st + 1,
        events := events st @ (if evs = [] then [] else [BestPricesSubmitted evs])\<rparr>"
      by (cases st) (auto simp: ocw_submit_best_paths_changes_def ensure_none_def Let_def deposit_event_def)
    with origin nonce Some r that show thesis by simp
  qed
qed

lemma ocw_submit_bumps:
  assumes "unsigned_tx_nonce st = payload_nonce payload" "unsigned_tx_nonce st \<noteq> - 1"
    and "log_on \<longrightarrow> (\<forall>c \<in> set (changes payload). utf8_change c)"
  shows "\<exists>st'. ocw_submit_best_paths_changes checks log_on NoOrigin payload st = Some (Inr st') \<and>
     unat (unsigned_tx_nonce st') = unat (unsigned_tx_nonce st) + 1"
  using ocw_submit_accepted [OF assms(1,3), of checks "payload_nonce payload + 1"]
    nonce_fits [OF assms(2), of checks] assms(1)
  by (simp add: Let_def)

text \<open>A submission is refused in exactly two cases, before any storage changes: with any origin but
  none, and with a nonce other than the stored one (\<open>StaleUnsignedTxError\<close>).\<close>

theorem ocw_submit_refused:
  "ocw_submit_best_paths_changes checks log_on origin payload st = Some (Inl err) \<longleftrightarrow>
     origin \<noteq> NoOrigin \<and> err = BadOrigin \<or>
     origin = NoOrigin \<and> unsigned_tx_nonce st \<noteq> payload_nonce payload \<and> err = StaleUnsignedTxError"
  by (auto simp: ocw_submit_best_paths_changes_def ensure_none_def Let_def
      split: origin.splits Option.bind_splits if_splits)

text \<open>Replay protection: once a submission has gone through, the same payload is stale.\<close>

theorem ocw_submit_replay:
  assumes "ocw_submit_best_paths_changes checks log_on NoOrigin payload st = Some (Inr st')"
  shows "ocw_submit_best_paths_changes checks' log_on' NoOrigin payload st' = Some (Inl StaleUnsignedTxError)"
proof -
  from assms have "unsigned_tx_nonce st' = payload_nonce payload + 1"
    by (rule ocw_submit_success) simp
  then show ?thesis by (simp add: ocw_submit_best_paths_changes_def ensure_none_def Let_def)
qed

theorem ocw_submit_replay_witness:
  "\<exists>st'. ocw_submit_best_paths_changes True False NoOrigin
       (sample_payload [(BTC, USD, Some \<lparr>total_cost = 5, steps = []\<rparr>)]) sample_storage = Some (Inr st') \<and>
     ocw_submit_best_paths_changes True False NoOrigin
       (sample_payload [(BTC, USD, Some \<lparr>total_cost = 5, steps = []\<rparr>)]) st' = Some (Inl StaleUnsignedTxError)"
proof -
  obtain st' where "ocw_submit_best_paths_changes True False NoOrigin
    (sample_payload [(BTC, USD, Some \<lparr>total_cost = 5, steps = []\<rparr>)]) sample_storage = Some (Inr st')"
    by (rule sample_submission)
  with ocw_submit_replay [OF this] show ?thesis by blast
qed

text \<open>C35: With logging on, a path for a currency that is not UTF-8 panics inside the call instead of
  being refused: \<open>to_str()\<close> unwraps in the arguments of a log line of on-chain code. With logging
  off the same call succeeds.\<close>

theorem ocw_submit_not_utf8:
  assumes "unsigned_tx_nonce st = payload_nonce payload"
    and "(s, t, Some path) \<in> set (changes payload)" "\<not> (utf8_valid s \<and> utf8_valid t)"
  shows "ocw_submit_best_paths_changes False True NoOrigin payload st = None \<and>
     (\<exists>st'. ocw_submit_best_paths_changes False False NoOrigin payload st = Some (Inr st'))"
proof -
  have "apply_changes True (changes payload) (best_paths st, []) = None"
    using assms(2,3) by (intro apply_changes_None [of "(s, t, Some path)"]) (simp_all add: utf8_change_def)
  then have "ocw_submit_best_paths_changes False True NoOrigin payload st = None"
    using assms(1) by (simp add: ocw_submit_best_paths_changes_def ensure_none_def Let_def)
  moreover have "\<exists>st'. ocw_submit_best_paths_changes False False NoOrigin payload st = Some (Inr st')"
    by (simp add: ocw_submit_accepted [OF assms(1)] Let_def)
  ultimately show ?thesis by blast
qed

theorem ocw_submit_not_utf8_witness:
  "ocw_submit_best_paths_changes False True NoOrigin
     (sample_payload [([0xFF], USD, Some \<lparr>total_cost = 5, steps = []\<rparr>)]) sample_storage = None"
  using ocw_submit_not_utf8 [of sample_storage
      "sample_payload [([0xFF], USD, Some \<lparr>total_cost = 5, steps = []\<rparr>)]" "[0xFF]" USD]
  by (simp add: sample_storage_def sample_payload_def)

section \<open>Monitored pairs\<close>

text \<open>The last operation of each pair, in the order of these last operations.\<close>

fun last_operations :: "pair_operation list \<Rightarrow> pair_operation list" where
  "last_operations [] = []"
| "last_operations (op # ops) =
     (if provider_pair op \<in> provider_pair ` set ops then last_operations ops else op # last_operations ops)"

lemma provider_pair_last_operations: "provider_pair ` set (last_operations ops) = provider_pair ` set ops"
  by (induction ops) auto

lemma distinct_last_operations: "distinct (map provider_pair (last_operations ops))"
  by (induction ops) (auto simp: provider_pair_last_operations)

lemma last_operations_filter:
  "last_operations (ops @ [op]) = filter (\<lambda>o'. provider_pair o' \<noteq> provider_pair op) (last_operations ops) @ [op]"
  by (induction ops) auto

lemma dedupe_loop_result:
  fixes U :: "pair_operation set"
  shows "set uniques = provider_pair ` U \<Longrightarrow> fst (dedupe_loop ops (acc, uniques)) =
     acc @ filter (\<lambda>op. provider_pair op \<notin> provider_pair ` U) (rev (last_operations (rev ops)))"
proof (induction ops arbitrary: acc uniques U)
  case (Cons op ops)
  show ?case
  proof (cases "provider_pair op \<in> provider_pair ` U")
    case True
    then have same: "(provider_pair o' \<noteq> provider_pair op \<and> provider_pair o' \<notin> provider_pair ` U) =
        (provider_pair o' \<notin> provider_pair ` U)" for o' by auto
    from True Cons show ?thesis
      by (simp add: bs_insert_def last_operations_filter rev_filter [symmetric] same conj_commute)
  next
    case False
    have "fst (dedupe_loop ops (acc @ [op], insort_insert (provider_pair op) uniques)) =
        (acc @ [op]) @ filter (\<lambda>o'. provider_pair o' \<notin> provider_pair ` insert op U) (rev (last_operations (rev ops)))"
      using Cons.prems by (intro Cons.IH) (simp add: set_insort_insert)
    with False Cons.prems show ?thesis
      by (simp add: bs_insert_def last_operations_filter rev_filter [symmetric] conj_commute)
  qed
qed simp

lemma dedupe_last_operations: "dedupe_operations ops = last_operations ops"
  using dedupe_loop_result [of "[]" "{}" "rev ops" "[]"] by (simp add: dedupe_operations_def)


text \<open>What an operation list does to the membership of a pair, and which of the operations change it.\<close>

definition last_operation :: "pair_operation list \<Rightarrow> currency provider_pair \<Rightarrow> operation option" where
  "last_operation ops pp = map_of (rev (map (\<lambda>op. (provider_pair op, operation op)) ops)) pp"

definition changed_pairs ::
  "pair_operation list \<Rightarrow> (currency provider_pair \<rightharpoonup> unit) \<Rightarrow> (currency provider_pair \<rightharpoonup> unit)" where
  "changed_pairs ops pairs pp =
     (case last_operation ops pp of Some Add \<Rightarrow> Some () | Some Del \<Rightarrow> None | None \<Rightarrow> pairs pp)"

definition effective :: "(currency provider_pair \<rightharpoonup> unit) \<Rightarrow> pair_operation \<Rightarrow> bool" where
  "effective pairs op \<longleftrightarrow> (operation op = Add \<longleftrightarrow> pairs (provider_pair op) = None)"

definition operation_item :: "pair_operation \<Rightarrow> pair_event" where
  "operation_item op = (source (pp_pair (provider_pair op)), target (pp_pair (provider_pair op)),
     pp_provider (provider_pair op), operation op)"

lemma last_operation_Cons:
  "last_operation (op # ops) pp = (case last_operation ops pp of
     Some x \<Rightarrow> Some x | None \<Rightarrow> if pp = provider_pair op then Some (operation op) else None)"
  by (auto simp: last_operation_def map_add_def split: option.split)

lemma last_operation_None: "last_operation ops pp = None \<longleftrightarrow> pp \<notin> provider_pair ` set ops"
  by (auto simp: last_operation_def map_of_eq_None_iff image_image)

lemma last_operation_last_operations: "last_operation (last_operations ops) = last_operation ops"
proof (induction ops)
  case (Cons op ops)
  show ?case
  proof
    fix pp
    show "last_operation (last_operations (op # ops)) pp = last_operation (op # ops) pp"
      using Cons last_operation_None [of ops pp]
      by (auto simp: last_operation_Cons split: option.split)
  qed
qed simp

lemma apply_operation_result:
  "apply_operation op (pairs, ev) =
     (pairs(provider_pair op := (if operation op = Add then Some () else None)),
      ev @ (if effective pairs op then [operation_item op] else []))"
  by (cases "operation op"; cases "pairs (provider_pair op)")
    (auto simp: apply_operation_def effective_def operation_item_def Let_def fun_eq_iff)

lemma fold_operations:
  "distinct (map provider_pair ops) \<Longrightarrow>
     fold apply_operation ops (pairs, ev) =
       (changed_pairs ops pairs, ev @ map operation_item (filter (effective pairs) ops))"
proof (induction ops arbitrary: pairs ev)
  case Nil
  then show ?case by (simp add: changed_pairs_def last_operation_def fun_eq_iff)
next
  case (Cons op ops)
  let ?pairs = "pairs(provider_pair op := (if operation op = Add then Some () else None))"
  have fresh: "provider_pair op \<notin> provider_pair ` set ops" using Cons.prems by simp
  have "provider_pair o' \<noteq> provider_pair op" if "o' \<in> set ops" for o'
    using that fresh by (metis image_eqI)
  then have "effective ?pairs o' = effective pairs o'" if "o' \<in> set ops" for o'
    using that by (simp add: effective_def)
  then have "filter (effective ?pairs) ops = filter (effective pairs) ops" by (intro filter_cong) auto
  moreover have "changed_pairs ops ?pairs = changed_pairs (op # ops) pairs"
    using fresh last_operation_None [of ops "provider_pair op"]
    by (auto simp: changed_pairs_def last_operation_Cons fun_eq_iff split: option.split operation.split)
  ultimately show ?case using Cons by (simp add: apply_operation_result)
qed

text \<open>C16: Root's \<open>submit_monitored_pairs\<close> always succeeds. A pair is monitored afterwards when its last
  operation in the list is \<open>Add\<close>, not when it is \<open>Del\<close>, and as before without one; nothing else in
  the storage changes. The event lists, in order, exactly those last operations that change the
  membership of their pair, and there is no event if there are none.\<close>

theorem submit_monitored_pairs_spec:
  "\<exists>st'. submit_monitored_pairs Root ops st = Some (Inr st') \<and>
     (\<forall>pp. monitored_pairs st' pp =
        (case last_operation ops pp of Some Add \<Rightarrow> Some () | Some Del \<Rightarrow> None | None \<Rightarrow> monitored_pairs st pp)) \<and>
     best_paths st' = best_paths st \<and> whitelisted st' = whitelisted st \<and>
     unsigned_tx_nonce st' = unsigned_tx_nonce st \<and>
     (let evs = map operation_item (filter (effective (monitored_pairs st)) (last_operations ops)) in
      events st' = events st @ (if evs = [] then [] else [MonitoredPairsSubmitted evs]))"
proof -
  have "fold apply_operation (dedupe_operations ops) (monitored_pairs st, []) =
      (changed_pairs ops (monitored_pairs st),
       map operation_item (filter (effective (monitored_pairs st)) (last_operations ops)))"
    by (simp add: dedupe_last_operations fold_operations distinct_last_operations
        changed_pairs_def [abs_def] last_operation_last_operations)
  then show ?thesis
    by (simp add: submit_monitored_pairs_def ensure_root_def deposit_event_def Let_def changed_pairs_def)
qed

text \<open>The one-pass deduplication over the reversed list with a set of seen pairs computes the last
  operation of every pair, in order, once each.\<close>

theorem dedupe_operations_spec:
  "dedupe_operations ops = last_operations ops \<and> distinct (map provider_pair (dedupe_operations ops)) \<and>
     provider_pair ` set (dedupe_operations ops) = provider_pair ` set ops"
  by (simp add: dedupe_last_operations distinct_last_operations [simplified] provider_pair_last_operations)


section \<open>Trading\<close>

text \<open>The reported amount is not scaled back: a best path at rate one carries the cost
  \<open>10 ^ 12\<close>, and trading 5 units along it reports a target amount of \<open>5 * 10 ^ 12\<close>.\<close>

lemma trade_not_rescaled:
  "trade checks (Signed a) s t 5 (st\<lparr>best_paths := [(s, t) \<mapsto> \<lparr>total_cost = 1000000000000, steps = []\<rparr>]\<rparr>) =
     Some (Inr (st\<lparr>best_paths := [(s, t) \<mapsto> \<lparr>total_cost = 1000000000000, steps = []\<rparr>],
       events := events st @ [TradePerformed a s t 1000000000000 5 5000000000000]\<rparr>))"
  by (simp add: trade_def ensure_signed_def deposit_event_def rs_mul_def Let_def)

section \<open>Who may change what\<close>

lemma dispatch_cases:
  assumes "dispatch checks log_on origin c st = Some (Inr st')"
  obtains (submit) payload sig paths ev where "c = OcwSubmitBestPathsChanges payload sig" "origin = NoOrigin"
      "unsigned_tx_nonce st = payload_nonce payload"
      "st' = st\<lparr>best_paths := paths, unsigned_tx_nonce := unsigned_tx_nonce st + 1, events := events st @ ev\<rparr>"
  | (monitor) ops pairs ev where "c = SubmitMonitoredPairs ops" "origin = Root"
      "st' = st\<lparr>monitored_pairs := pairs, events := events st @ ev\<rparr>"
  | (authorise) a where "c = AddWhitelistedOffchainAuthority a" "origin = Root"
      "st' = st\<lparr>whitelisted := (whitelisted st)(a \<mapsto> ()),
               events := events st @ [WhitelistedOffchainAuthorityAdded a]\<rparr>"
  | (trade) s t amount a ev where "c = Trade s t amount" "origin = Signed a"
      "st' = st\<lparr>events := events st @ ev\<rparr>"
proof (cases c)
  case (OcwSubmitBestPathsChanges payload sig)
  with assms have "ocw_submit_best_paths_changes checks log_on origin payload st = Some (Inr st')"
    by (simp add: dispatch_def)
  then show ?thesis by (rule ocw_submit_success) (use submit [OF OcwSubmitBestPathsChanges] in blast)
next
  case (SubmitMonitoredPairs ops)
  obtain pairs ev where f: "fold apply_operation (dedupe_operations ops) (monitored_pairs st, []) = (pairs, ev)"
    by (cases "fold apply_operation (dedupe_operations ops) (monitored_pairs st, [])")
  from assms SubmitMonitoredPairs have "origin = Root"
    by (auto simp: dispatch_def submit_monitored_pairs_def ensure_root_def split: origin.splits)
  with assms SubmitMonitoredPairs f
    monitor [OF SubmitMonitoredPairs, where pairs = pairs
      and ev = "if ev = [] then [] else [MonitoredPairsSubmitted ev]"]
  show ?thesis
    by (cases st) (auto simp: dispatch_def submit_monitored_pairs_def ensure_root_def deposit_event_def Let_def)
next
  case (AddWhitelistedOffchainAuthority a)
  with assms show ?thesis
    using authorise [OF AddWhitelistedOffchainAuthority]
    by (auto simp: dispatch_def add_whitelisted_offchain_authority_def ensure_root_def Let_def
        deposit_event_def split: origin.splits)
next
  case (Trade s t amount)
  with assms show ?thesis
    using trade [OF Trade]
    by (auto simp: dispatch_def trade_def ensure_signed_def Let_def deposit_event_def
        split: origin.splits option.splits Option.bind_splits)
qed

text \<open>C25: Access control over the storage: a successful call changes best paths or the nonce only as an
  unsigned submission that carries the stored nonce, monitored pairs and the whitelist only as
  root; no call ever takes an authority off the whitelist, and events are only appended.\<close>

theorem dispatch_authorised:
  assumes "dispatch checks log_on origin c st = Some (Inr st')"
  shows "(best_paths st' \<noteq> best_paths st \<or> unsigned_tx_nonce st' \<noteq> unsigned_tx_nonce st \<longrightarrow>
        origin = NoOrigin \<and> (\<exists>payload sig. c = OcwSubmitBestPathsChanges payload sig \<and>
          payload_nonce payload = unsigned_tx_nonce st)) \<and>
     (monitored_pairs st' \<noteq> monitored_pairs st \<longrightarrow> origin = Root \<and> (\<exists>ops. c = SubmitMonitoredPairs ops)) \<and>
     (whitelisted st' \<noteq> whitelisted st \<longrightarrow> origin = Root \<and> (\<exists>a. c = AddWhitelistedOffchainAuthority a)) \<and>
     dom (whitelisted st) \<subseteq> dom (whitelisted st') \<and> (\<exists>evs. events st' = events st @ evs)"
  using assms by (cases rule: dispatch_cases) auto

theorem dispatch_authorised_witness:
  "\<exists>st'. dispatch True True Root (AddWhitelistedOffchainAuthority 8 :: (nat, nat, unit) call) sample_storage =
       Some (Inr st') \<and> whitelisted st' \<noteq> whitelisted sample_storage \<and> 7 \<in> dom (whitelisted st')"
proof -
  obtain st' where st': "dispatch True True Root (AddWhitelistedOffchainAuthority 8 :: (nat, nat, unit) call)
      sample_storage = Some (Inr st')" "whitelisted st' = [7 \<mapsto> (), 8 \<mapsto> ()]"
    by (simp add: dispatch_def add_whitelisted_offchain_authority_def ensure_root_def deposit_event_def
        sample_storage_def Let_def)
  with dispatch_authorised [OF st'(1)] show ?thesis by (auto simp: sample_storage_def fun_upd_def fun_eq_iff)
qed

end
