(* ===== verification/Ocw_Results.thy ===== *)
theory Ocw_Results
  imports Ocw Pallet_Results
begin

text \<open>
  What the offchain worker submits: exactly the new and the significantly changed best paths and
  never a removal; and when the comparison panics.
\<close>

section \<open>The comparison\<close>

definition significant :: "('acc, 'pub, 'sig) ocw_env \<Rightarrow> best_path \<Rightarrow> best_path \<Rightarrow> bool" where
  "significant env old p \<longleftrightarrow> breaches_tolerance (total_cost old) (total_cost p) (tolerance env) = Some True"

text \<open>A storage iterator visits every key once.\<close>

definition iterates :: "('k set \<Rightarrow> 'k list) \<Rightarrow> bool" where
  "iterates f \<longleftrightarrow> (\<forall>A. finite A \<longrightarrow> set (f A) = A \<and> distinct (f A))"

text \<open>What the comparison needs in order not to panic: readable currencies if they are logged, and no
  stored path of cost zero that has a new price.\<close>

definition comparable ::
  "('acc, 'pub, 'sig) ocw_env \<Rightarrow> 'acc storage \<Rightarrow> (currency, amount) best_paths \<Rightarrow> bool" where
  "comparable env st new \<longleftrightarrow>
     (\<forall>s t old p. best_paths st (s, t) = Some old \<longrightarrow> bm_get new (Pair s t) = Some p \<longrightarrow> total_cost old \<noteq> 0) \<and>
     (log_debug env \<longrightarrow> (\<forall>s t. best_paths st (s, t) \<noteq> None \<or> bm_get new (Pair s t) \<noteq> None \<longrightarrow> utf8_valid s \<and> utf8_valid t))"

lemma changed_entries_Some:
  "changed_entries env new es = Some cs \<Longrightarrow>
     (s, t, np) \<in> set cs \<longleftrightarrow>
       (\<exists>old p. (s, t, old) \<in> set es \<and> np = Some p \<and> bm_get new (Pair s t) = Some p \<and> significant env old p)"
proof (induction es arbitrary: cs)
  case (Cons e es)
  obtain s' t' old where e: "e = (s', t', old)" by (cases e)
  show ?case
  proof (cases "bm_get new (Pair s' t')")
    case None
    with Cons e show ?thesis by (auto split: Option.bind_splits)
  next
    case (Some p)
    with Cons.prems e obtain b rest where b:
      "breaches_tolerance (total_cost old) (total_cost p) (tolerance env) = Some b"
      "changed_entries env new es = Some rest" "cs = (if b then (s', t', Some p) # rest else rest)"
      by (auto split: Option.bind_splits)
    with Cons.IH [OF b(2)] Some e show ?thesis by (auto simp: significant_def)
  qed
qed simp

lemma changed_entries_keys:
  "changed_entries env new es = Some cs \<Longrightarrow> distinct (map (\<lambda>(s, t, _). (s, t)) es) \<Longrightarrow>
     distinct (map (\<lambda>(s, t, _). (s, t)) cs)"
proof (induction es arbitrary: cs)
  case (Cons e es)
  obtain s t old where e: "e = (s, t, old)" by (cases e)
  show ?case
  proof (cases "bm_get new (Pair s t)")
    case None
    with Cons e show ?thesis by (auto split: Option.bind_splits)
  next
    case (Some p)
    with Cons.prems e obtain b rest where b:
      "changed_entries env new es = Some rest" "cs = (if b then (s, t, Some p) # rest else rest)"
      by (auto split: Option.bind_splits)
    have "(s, t, np) \<notin> set rest" for np
      using changed_entries_Some [OF b(1), of s t np] Cons.prems(2) e by force
    with Cons b e show ?thesis by force
  qed
qed simp

lemma changed_entries_total:
  assumes "\<forall>(s, t, old) \<in> set es. (\<forall>p. bm_get new (Pair s t) = Some p \<longrightarrow> total_cost old \<noteq> 0) \<and>
      (log_debug env \<longrightarrow> utf8_valid s \<and> utf8_valid t)"
  shows "\<exists>cs. changed_entries env new es = Some cs"
  using assms
proof (induction es)
  case (Cons e es)
  obtain s t old where e: "e = (s, t, old)" by (cases e)
  have "log_currencies (log_debug env) [s, t] = Some ()"
    using Cons.prems by (auto simp: e log_currencies_def to_str_def)
  with Cons e show ?case by (auto simp: breaches_tolerance_unat split: option.split)
qed simp

lemma new_entries_Some:
  "new_entries env stored es = Some cs \<Longrightarrow>
     cs = map (\<lambda>(pr, p). (source pr, target pr, Some p)) (filter (\<lambda>e. stored (source (fst e), target (fst e)) = None) es)"
  by (induction es arbitrary: cs) (auto split: Option.bind_splits if_splits)

lemma new_entries_total:
  assumes "log_debug env \<longrightarrow> (\<forall>e \<in> set es. utf8_valid (source (fst e)) \<and> utf8_valid (target (fst e)))"
  shows "\<exists>cs. new_entries env stored es = Some cs"
  using assms
proof (induction es)
  case (Cons e es)
  have "log_currencies (log_debug env) [source (fst e), target (fst e)] = Some ()"
    using Cons.prems by (auto simp: log_currencies_def to_str_def)
  with Cons show ?case by (cases e) auto
qed simp

lemma stored_entries_iff:
  assumes "iterates (iter_paths env)" "finite (dom (best_paths st))"
  shows "(s, t, old) \<in> set (stored_entries env st) \<longleftrightarrow> best_paths st (s, t) = Some old"
    "distinct (map (\<lambda>(s, t, _). (s, t)) (stored_entries env st))"
proof -
  have it: "set (iter_paths env (dom (best_paths st))) = dom (best_paths st)"
    "distinct (iter_paths env (dom (best_paths st)))"
    using assms by (auto simp: iterates_def)
  then show "(s, t, old) \<in> set (stored_entries env st) \<longleftrightarrow> best_paths st (s, t) = Some old"
    by (force simp: stored_entries_def image_iff)
  show "distinct (map (\<lambda>(s, t, _). (s, t)) (stored_entries env st))"
    using it(2) by (simp add: stored_entries_def comp_def)
qed

lemma best_path_changes_iff:
  assumes "iterates (iter_paths env)" "finite (dom (best_paths st))" "bm_wf new"
    and "best_path_changes env st new = Some cs"
  shows "(s, t, np) \<in> set cs \<longleftrightarrow>
     (\<exists>p. np = Some p \<and> bm_get new (Pair s t) = Some p \<and>
        (case best_paths st (s, t) of None \<Rightarrow> True | Some old \<Rightarrow> significant env old p))"
proof -
  from assms(4) obtain cs1 cs2 where cs: "changed_entries env new (stored_entries env st) = Some cs1"
    "new_entries env (best_paths st) new = Some cs2" "cs = cs1 @ cs2"
    by (auto simp: best_path_changes_def split: Option.bind_splits)
  have "(s, t, np) \<in> set cs2 \<longleftrightarrow> (\<exists>p. np = Some p \<and> (Pair s t, p) \<in> set new \<and> best_paths st (s, t) = None)"
    unfolding new_entries_Some [OF cs(2)] by (force simp: image_iff)
  then show ?thesis
    using changed_entries_Some [OF cs(1), of s t np] stored_entries_iff(1) [OF assms(1,2), of s t]
      bm_entries_iff [OF assms(3), of "Pair s t"] cs(3)
    by (auto split: option.splits)
qed

lemma best_path_changes_distinct:
  assumes "iterates (iter_paths env)" "finite (dom (best_paths st))" "bm_wf new"
    and "best_path_changes env st new = Some cs"
  shows "distinct (map (\<lambda>(s, t, _). (s, t)) cs)"
proof -
  from assms(4) obtain cs1 cs2 where cs: "changed_entries env new (stored_entries env st) = Some cs1"
    "new_entries env (best_paths st) new = Some cs2" "cs = cs1 @ cs2"
    by (auto simp: best_path_changes_def split: Option.bind_splits)
  let ?key = "\<lambda>(s, t, _ :: best_path option). (s, t)"
  have d1: "distinct (map ?key cs1)"
    using changed_entries_keys [OF cs(1)] stored_entries_iff(2) [OF assms(1,2)] by simp
  have "distinct (map fst new)" using assms(3) by (simp add: bm_wf_def strict_sorted_iff)
  then have "distinct (map (\<lambda>e. (source (fst e), target (fst e))) new)"
    by (auto simp: distinct_map inj_on_def intro: pair.expand)
  then have d2: "distinct (map ?key cs2)"
    unfolding new_entries_Some [OF cs(2)] by (simp add: comp_def case_prod_beta distinct_map_filter)
  have "k \<notin> set (map ?key cs2)" if "k \<in> set (map ?key cs1)" for k
  proof -
    from that obtain s t np where "k = (s, t)" "(s, t, np) \<in> set cs1" by auto
    then have "best_paths st k \<noteq> None"
      using changed_entries_Some [OF cs(1), of s t np] stored_entries_iff(1) [OF assms(1,2), of s t] by auto
    then show ?thesis unfolding new_entries_Some [OF cs(2)] by auto
  qed
  with d1 d2 show ?thesis unfolding cs(3) map_append distinct_append by blast
qed

lemma best_path_changes_total:
  assumes "iterates (iter_paths env)" "finite (dom (best_paths st))" "bm_wf new" "comparable env st new"
  shows "\<exists>cs. best_path_changes env st new = Some cs"
proof -
  have nz: "total_cost old \<noteq> 0" if "best_paths st (s, t) = Some old" "bm_get new (Pair s t) = Some p" for s t old p
    using assms(4) that unfolding comparable_def by blast
  have u1: "utf8_valid s \<and> utf8_valid t" if "log_debug env" "best_paths st (s, t) = Some old" for s t old
    using assms(4) that unfolding comparable_def by (metis option.distinct(1))
  have u2: "utf8_valid s \<and> utf8_valid t" if "log_debug env" "bm_get new (Pair s t) = Some p" for s t p
    using assms(4) that unfolding comparable_def by (metis option.distinct(1))
  have "\<exists>cs. changed_entries env new (stored_entries env st) = Some cs"
    by (intro changed_entries_total ballI) (auto simp: stored_entries_iff [OF assms(1,2)] dest: nz u1)
  moreover have "\<exists>cs. new_entries env (best_paths st) new = Some cs"
  proof (intro new_entries_total impI ballI)
    fix e
    assume "log_debug env" "e \<in> set new"
    with u2 [of "source (fst e)" "target (fst e)" "snd e"] bm_entries_iff [OF assms(3), of "fst e" "snd e"]
    show "utf8_valid (source (fst e)) \<and> utf8_valid (target (fst e))" by simp
  qed
  ultimately show ?thesis by (auto simp: best_path_changes_def)
qed

section \<open>A sample environment\<close>

definition sample_env :: "(nat, nat, unit) ocw_env" where
  "sample_env = \<lparr>calculate = noop_calc_best_paths, fetch_price = (\<lambda>_ _ _. Some (Inr 7)),
     call_weights = SubstrateWeight \<lparr>reads = (\<lambda>n. n), writes = (\<lambda>n. n)\<rparr>, trigger_delay = 5,
     max_tx_pool_stay_time = 5, unsigned_tx_priority = 0, tolerance = 10000, checks = True, log_debug = True,
     iter_pairs = sorted_list_of_set, iter_paths = sorted_list_of_set, local_key = Some 7, sign = (\<lambda>_. ()), submit_ok = (\<lambda>_. True)\<rparr>"

definition sample_monitored :: "nat storage" where
  "sample_monitored = sample_storage\<lparr>monitored_pairs := [ProviderPair (Pair BTC USD) CRYPTOCOMPARE \<mapsto> ()]\<rparr>"

definition sample_path :: best_path where
  "sample_path = \<lparr>total_cost = 7, steps = []\<rparr>"

definition sample_changes :: "change list" where
  "sample_changes = [(BTC, USD, Some sample_path)]"

lemma iterates_sorted_list [simp]: "iterates sorted_list_of_set"
  by (simp add: iterates_def)

lemma sample_env_iterates [simp]: "iterates (iter_paths sample_env)" "iterates (iter_pairs sample_env)"
  by (simp_all add: sample_env_def)

lemma sample_changes_found:
  "best_path_changes sample_env sample_monitored [(Pair BTC USD, sample_path)] = Some sample_changes"
  by (simp add: best_path_changes_def stored_entries_def sample_env_def sample_monitored_def sample_storage_def
      sample_changes_def)

lemma sample_fetched:
  "fetched_pairs sample_env sample_monitored = Some [(ProviderPair (Pair BTC USD) CRYPTOCOMPARE, 7)]"
  "calculate sample_env [(ProviderPair (Pair BTC USD) CRYPTOCOMPARE, 7)] = Some (Inr [(Pair BTC USD, sample_path)])"
  by (simp_all add: fetched_pairs_def sample_env_def sample_monitored_def noop_calc_best_paths_def
      bm_collect_def sample_path_def)

lemma sample_comparable: "comparable sample_env sample_monitored [(Pair BTC USD, sample_path)]"
  by (auto simp: comparable_def sample_monitored_def sample_storage_def bm_get_def split: if_splits)

lemma sample_run:
  "fetch_prices_and_update_best_paths sample_env 10 sample_monitored =
     Some (Inr (), [OcwSubmitBestPathsChanges (sample_payload sample_changes) ()])"
  by (simp add: fetch_prices_and_update_best_paths_def sample_fetched sample_changes_found submit_changes_def)
    (simp add: sample_changes_def sample_env_def sample_payload_def sample_monitored_def sample_storage_def)

section \<open>What is submitted\<close>

text \<open>C18: The offchain worker submits exactly the best paths that are new and those whose total cost
  moved by more than the tolerance, each pair once, always with a path: it never asks for the
  removal of a best path, even if the calculation no longer finds one.\<close>

theorem best_path_changes_spec:
  assumes "iterates (iter_paths env)" "finite (dom (best_paths st))" "bm_wf new"
    and "best_path_changes env st new = Some cs"
  shows "distinct (map (\<lambda>(s, t, _). (s, t)) cs) \<and>
     (\<forall>s t np. (s, t, np) \<in> set cs \<longleftrightarrow>
        (\<exists>p. np = Some p \<and> bm_get new (Pair s t) = Some p \<and>
           (\<forall>old. best_paths st (s, t) = Some old \<longrightarrow>
              breaches_tolerance (total_cost old) (total_cost p) (tolerance env) = Some True)))"
  using best_path_changes_distinct [OF assms] best_path_changes_iff [OF assms]
  by (auto simp: significant_def split: option.split)

theorem best_path_changes_spec_witness:
  "(BTC, USD, Some sample_path) \<in> set sample_changes \<and> distinct (map (\<lambda>(s, t, _). (s, t)) sample_changes)"
  using best_path_changes_spec [OF sample_env_iterates(1) _ _ sample_changes_found]
  by (simp add: sample_monitored_def sample_storage_def bm_wf_def bm_get_def)

text \<open>C36: A stored best path of cost zero stops the worker: as soon as the calculation has a path for the
  same pair, the comparison divides by zero and panics, in every build.\<close>

theorem best_path_changes_zero_cost:
  assumes "iterates (iter_paths env)" "finite (dom (best_paths st))"
    and "best_paths st (s, t) = Some old" "total_cost old = 0" "bm_get new (Pair s t) = Some p"
  shows "best_path_changes env st new = None"
proof -
  have "changed_entries env new es = None" if "(s, t, old) \<in> set es" for es
    using that
  proof (induction es)
    case (Cons e es)
    obtain s' t' old' where e: "e = (s', t', old')" by (cases e)
    show ?case
    proof (cases "e = (s, t, old)")
      case True
      with assms(4,5) show ?thesis by (simp add: breaches_tolerance_unat)
    next
      case False
      with Cons have "changed_entries env new es = None" by auto
      with e show ?thesis by (auto split: option.split Option.bind_split)
    qed
  qed simp
  with stored_entries_iff(1) [OF assms(1,2)] assms(3) show ?thesis by (simp add: best_path_changes_def)
qed

theorem best_path_changes_zero_cost_witness:
  "best_path_changes sample_env (sample_storage\<lparr>best_paths := [(BTC, USD) \<mapsto> \<lparr>total_cost = 0, steps = []\<rparr>]\<rparr>)
     [(Pair BTC USD, sample_path)] = None"
  using best_path_changes_zero_cost [of sample_env
      "sample_storage\<lparr>best_paths := [(BTC, USD) \<mapsto> \<lparr>total_cost = 0, steps = []\<rparr>]\<rparr>" BTC USD
      "\<lparr>total_cost = 0, steps = []\<rparr>" "[(Pair BTC USD, sample_path)]" sample_path]
  by (simp add: sample_storage_def bm_get_def)

end
