(* ===== verification/Worker_Results.thy ===== *)
theory Worker_Results
  imports Ocw_Results
begin

text \<open>
  The worker and the chain together: the worker settles (once its submission has been executed the
  same prices give nothing more to submit), what a submitted transaction holds, and that the pool
  accepts it when its signer is whitelisted.
\<close>

section \<open>The worker settles\<close>

lemma stored_after:
  assumes "iterates (iter_paths env)" "finite (dom (best_paths st))" "bm_wf new"
    and cs: "best_path_changes env st new = Some cs"
  shows "changed_paths cs (best_paths st) (s, t) =
     (if \<exists>np. (s, t, np) \<in> set cs then bm_get new (Pair s t) else best_paths st (s, t))"
proof -
  let ?entries = "map (\<lambda>(s, t, new_path). ((s, t), new_path)) cs"
  have "map fst ?entries = map (\<lambda>(s, t, _). (s, t)) cs" by (simp add: case_prod_beta comp_def)
  then have d: "distinct (map fst (rev ?entries))"
    using best_path_changes_distinct [OF assms] by (simp only: rev_map [symmetric] distinct_rev)
  have last: "last_change cs (s, t) = Some np \<longleftrightarrow> (s, t, np) \<in> set cs" for np
    unfolding last_change_def map_of_eq_Some_iff [OF d] by force
  show ?thesis
  proof (cases "last_change cs (s, t)")
    case None
    with last show ?thesis by (simp add: changed_paths_last)
  next
    case (Some np)
    with last have "(s, t, np) \<in> set cs" by blast
    with best_path_changes_iff [OF assms, of s t np] Some show ?thesis by (auto simp: changed_paths_last)
  qed
qed

lemma comparable_after:
  assumes it: "iterates (iter_paths env)" and fin: "finite (dom (best_paths st))" and wf: "bm_wf new"
    and cmp: "comparable env st new" and nz: "\<forall>k p. bm_get new k = Some p \<longrightarrow> total_cost p \<noteq> 0"
    and cs: "best_path_changes env st new = Some cs" and st': "best_paths st' = changed_paths cs (best_paths st)"
  shows "finite (dom (best_paths st')) \<and> comparable env st' new"
proof -
  note after = stored_after [OF it fin wf cs, folded st']
  have "dom (best_paths st') \<subseteq> dom (best_paths st) \<union> (\<lambda>(s, t, _). (s, t)) ` set cs"
    using after by (force split: if_splits)
  then have "finite (dom (best_paths st'))" using fin finite_subset by blast
  moreover have "comparable env st' new"
    unfolding comparable_def
  proof (intro conjI allI impI)
    fix s t old p
    assume "best_paths st' (s, t) = Some old" "bm_get new (Pair s t) = Some p"
    with after have "best_paths st (s, t) = Some old \<or> bm_get new (Pair s t) = Some old"
      by (auto split: if_splits)
    with cmp nz \<open>bm_get new (Pair s t) = Some p\<close> show "total_cost old \<noteq> 0"
      unfolding comparable_def by blast
  next
    fix s t
    assume "log_debug env" "best_paths st' (s, t) \<noteq> None \<or> bm_get new (Pair s t) \<noteq> None"
    with after have "best_paths st (s, t) \<noteq> None \<or> bm_get new (Pair s t) \<noteq> None"
      by (auto split: if_splits)
    with cmp \<open>log_debug env\<close> show "utf8_valid s" "utf8_valid t"
      unfolding comparable_def by blast+
  qed
  ultimately show ?thesis by blast
qed

lemma settled:
  assumes it: "iterates (iter_paths env)" and fin: "finite (dom (best_paths st))" and wf: "bm_wf new"
    and cmp: "comparable env st new" and nz: "\<forall>k p. bm_get new k = Some p \<longrightarrow> total_cost p \<noteq> 0"
    and cs: "best_path_changes env st new = Some cs" and st': "best_paths st' = changed_paths cs (best_paths st)"
  shows "best_path_changes env st' new = Some []"
proof -
  note after = stored_after [OF it fin wf cs, folded st']
  note iff = best_path_changes_iff [OF it fin wf cs]
  have fin': "finite (dom (best_paths st'))" and "comparable env st' new"
    using comparable_after [OF assms] by simp_all
  then obtain cs' where cs': "best_path_changes env st' new = Some cs'"
    using best_path_changes_total [OF it fin' wf] by blast
  have "(s, t, np) \<notin> set cs'" for s t np
  proof
    assume "(s, t, np) \<in> set cs'"
    with best_path_changes_iff [OF it fin' wf cs'] obtain p where p: "bm_get new (Pair s t) = Some p"
      "case best_paths st' (s, t) of None \<Rightarrow> True | Some old \<Rightarrow> significant env old p" by blast
    show False
    proof (cases "\<exists>np. (s, t, np) \<in> set cs")
      case True
      with after p have "significant env p p" by simp
      with nz p(1) show False by (simp add: significant_def)
    next
      case False
      with after p iff [of s t "Some p"] show False by simp
    qed
  qed
  then have "cs' = []" by (cases cs') auto
  with cs' show ?thesis by simp
qed

lemma fetch_submits:
  assumes "fetch_prices_and_update_best_paths env b st = Some (r, txs)" "tx \<in> set txs"
  obtains ps new cs key payload where "fetched_pairs env st = Some ps" "ps \<noteq> []" "calculate env ps = Some (Inr new)"
    "best_path_changes env st new = Some cs" "cs \<noteq> []" "local_key env = Some key"
    "payload = \<lparr>changes = cs, payload_nonce = unsigned_tx_nonce st, payload_block = b, public = key\<rparr>"
    "tx = OcwSubmitBestPathsChanges payload (sign env payload)" "txs = [tx]" "r = Inr ()"
proof -
  from assms obtain ps new cs where *: "fetched_pairs env st = Some ps" "ps \<noteq> []" "calculate env ps = Some (Inr new)"
    "best_path_changes env st new = Some cs" "submit_changes env b st cs = (r, txs)"
    by (auto simp: fetch_prices_and_update_best_paths_def split: Option.bind_splits if_splits sum.splits)
  with assms(2) that show thesis
    by (auto simp: submit_changes_def Let_def split: if_splits option.splits)
qed

lemma fetched_pairs_result:
  assumes "fetched_pairs env st = Some ps" "iterates (iter_pairs env)" "finite (dom (monitored_pairs st))"
    and "(pp, price) \<in> set ps"
  shows "monitored_pairs st pp \<noteq> None \<and>
    fetch_price env (pp_provider pp) (source (pp_pair pp)) (target (pp_pair pp)) = Some (Inr price)"
proof -
  let ?keys = "iter_pairs env (dom (monitored_pairs st))"
  let ?f = "\<lambda>pp. map_option (\<lambda>r. (pp, r)) (fetch_price env (pp_provider pp) (source (pp_pair pp)) (target (pp_pair pp)))"
  from assms(1) obtain rs where rs: "run_map ?f ?keys = Some rs"
    "ps = concat (map (\<lambda>(pp, r). case r of Inr price \<Rightarrow> [(pp, price)] | Inl _ \<Rightarrow> []) rs)"
    by (auto simp: fetched_pairs_def split: Option.bind_splits)
  from assms(4) have "(pp, Inr price) \<in> set rs" unfolding rs(2) by (auto split: sum.splits)
  with run_map_member [OF rs(1)] obtain k where "k \<in> set ?keys" "?f k = Some (pp, Inr price)"
    by blast
  with assms(2,3) show ?thesis by (auto simp: iterates_def)
qed

text \<open>The worker settles: after its submission has been executed on chain, a run at the same prices
  submits nothing, provided the run could compare (readable currencies if they are logged, no path
  of cost zero).\<close>

lemma worker_settles:
  assumes "iterates (iter_paths env)" "finite (dom (best_paths st))"
    and "fetched_pairs env st = Some ps" "calculate env ps = Some (Inr new)" "bm_wf new"
    and "comparable env st new" "\<forall>k p. bm_get new k = Some p \<longrightarrow> total_cost p \<noteq> 0"
    and run: "fetch_prices_and_update_best_paths env b st = Some (r, txs)"
    and tx: "OcwSubmitBestPathsChanges payload sig \<in> set txs"
    and exec: "ocw_submit_best_paths_changes overflow_checks log_on NoOrigin payload st = Some (Inr st')"
  shows "fetch_prices_and_update_best_paths env b' st' = Some (Inr (), [])"
proof -
  have cs: "best_path_changes env st new = Some (changes payload)" "ps \<noteq> []"
    by (rule fetch_submits [OF run tx], use assms(3,4) in simp)+
  from exec obtain paths evs where "apply_changes log_on (changes payload) (best_paths st, []) = Some (paths, evs)"
    "st' = st\<lparr>best_paths := paths, unsigned_tx_nonce := unsigned_tx_nonce st + 1,
       events := events st @ (if evs = [] then [] else [BestPricesSubmitted evs])\<rparr>"
    by (rule ocw_submit_success)
  with apply_changes_Some have "best_paths st' = changed_paths (changes payload) (best_paths st)"
    and same: "monitored_pairs st' = monitored_pairs st" by fastforce+
  with settled [OF assms(1,2,5-7) cs(1)] have "best_path_changes env st' new = Some []" by blast
  moreover have "fetched_pairs env st' = Some ps" using assms(3) same by (simp add: fetched_pairs_def)
  ultimately show ?thesis
    using assms(4) cs(2) by (simp add: fetch_prices_and_update_best_paths_def submit_changes_def)
qed

section \<open>What a submission holds\<close>

definition monitored_currency :: "'acc storage \<Rightarrow> currency \<Rightarrow> bool" where
  "monitored_currency st c \<longleftrightarrow>
     (\<exists>pp. monitored_pairs st pp \<noteq> None \<and> (c = source (pp_pair pp) \<or> c = target (pp_pair pp)))"

text \<open>A worker whose calculator fulfils the contract of a best path calculator.\<close>

locale worker = best_path_calculator calc
  for calc :: "(currency, amount) priced list \<Rightarrow> (calculator_error, (currency, amount) best_paths) result run" +
  fixes env :: "('acc, 'pub, 'sig) ocw_env"
  assumes calculates: "calculate env = calc"
    and visits_pairs: "iterates (iter_pairs env)"
    and visits_paths: "iterates (iter_paths env)"
begin

lemma submitted_path:
  assumes fin: "finite (dom (monitored_pairs st))" "finite (dom (best_paths st))"
    and run: "fetch_prices_and_update_best_paths env b st = Some (r, txs)"
    and tx: "OcwSubmitBestPathsChanges payload sig \<in> set txs" and c: "(s, t, np) \<in> set (changes payload)"
  shows "monitored_currency st s \<and> monitored_currency st t \<and>
    (\<exists>path. np = Some path \<and> (\<forall>hop \<in> set (steps path). monitored_pairs st (ProviderPair (step_pair hop) (step_provider hop)) \<noteq> None))"
proof (rule fetch_submits [OF run tx])
  fix ps new cs key payload'
  assume ps: "fetched_pairs env st = Some ps" and new: "calculate env ps = Some (Inr new)"
    and cs: "best_path_changes env st new = Some cs"
    and payload': "payload' = \<lparr>changes = cs, payload_nonce = unsigned_tx_nonce st, payload_block = b, public = key\<rparr>"
    and tx': "OcwSubmitBestPathsChanges payload sig = OcwSubmitBestPathsChanges payload' (sign env payload')"
  from new have new': "calc ps = Some (Inr new)" by (simp add: calculates)
  from c payload' tx' have "(s, t, np) \<in> set cs" by simp
  with best_path_changes_iff [OF visits_paths fin(2) wf [OF new'] cs, of s t np]
  obtain path where path: "np = Some path" "bm_get new (Pair s t) = Some path" by blast
  have key: "monitored_pairs st (fst x) \<noteq> None" if "x \<in> set ps" for x
    using fetched_pairs_result [OF ps visits_pairs fin(1), of "fst x" "snd x"] that by simp
  have cur: "monitored_currency st c" if "c \<in> set (currencies_of ps)" for c
    using that key unfolding monitored_currency_def set_currencies_of by blast
  have "monitored_currency st s \<and> monitored_currency st t"
    using keys [OF new' path(2)] cur by simp
  moreover have "monitored_pairs st (ProviderPair (step_pair hop) (step_provider hop)) \<noteq> None"
    if hop: "hop \<in> set (steps path)" for hop
  proof -
    from hops [OF new' path(2) hop] obtain x where "x \<in> set ps" "step_pair hop = pp_pair (fst x)"
      "step_provider hop = pp_provider (fst x)" by blast
    with key [of x] show ?thesis by (metis provider_pair.collapse)
  qed
  ultimately show ?thesis using path(1) by blast
qed

end

interpretation fw_worker: worker "calc_best_paths log2 Some Some"
    "env\<lparr>calculate := calc_best_paths log2 Some Some, iter_pairs := sorted_list_of_set, iter_paths := sorted_list_of_set\<rparr>"
    for log2 :: "f64 \<Rightarrow> f64" and env :: "('acc, 'pub, 'sig) ocw_env"
  by unfold_locales simp_all

interpretation noop_worker: worker noop_calc_best_paths
    "env\<lparr>calculate := noop_calc_best_paths, iter_pairs := sorted_list_of_set, iter_paths := sorted_list_of_set\<rparr>"
    for env :: "('acc, 'pub, 'sig) ocw_env"
  by unfold_locales simp_all

lemma worker_fw:
  assumes "calculate env = calc_best_paths log2 Some Some" "iterates (iter_pairs env)" "iterates (iter_paths env)"
  shows "worker (calc_best_paths log2 Some Some) env"
  using assms by (intro worker.intro fw.best_path_calculator_axioms worker_axioms.intro)

text \<open>C14: Whatever a worker with the Floyd-Warshall calculator submits is one signed transaction with the
  stored nonce, the current block and a local key, whose changes are not empty, name every pair
  once, only mention monitored currencies, never remove a path, and only route over monitored
  pairs at their provider.\<close>

theorem worker_submission:
  assumes "calculate env = calc_best_paths log2 Some Some" "iterates (iter_pairs env)" "iterates (iter_paths env)"
    and "finite (dom (monitored_pairs st))" "finite (dom (best_paths st))"
    and run: "fetch_prices_and_update_best_paths env b st = Some (r, txs)" and tx: "tx \<in> set txs"
  shows "\<exists>payload. txs = [OcwSubmitBestPathsChanges payload (sign env payload)] \<and>
     payload_nonce payload = unsigned_tx_nonce st \<and> payload_block payload = b \<and>
     local_key env = Some (public payload) \<and> changes payload \<noteq> [] \<and>
     distinct (map (\<lambda>(s, t, _). (s, t)) (changes payload)) \<and>
     (\<forall>(s, t, np) \<in> set (changes payload). monitored_currency st s \<and> monitored_currency st t \<and>
        (\<exists>path. np = Some path \<and>
           (\<forall>hop \<in> set (steps path). monitored_pairs st (ProviderPair (step_pair hop) (step_provider hop)) \<noteq> None)))"
proof (rule fetch_submits [OF run tx])
  fix ps new cs key payload
  assume *: "calculate env ps = Some (Inr new)" "best_path_changes env st new = Some cs" "cs \<noteq> []"
    "local_key env = Some key"
    "payload = \<lparr>changes = cs, payload_nonce = unsigned_tx_nonce st, payload_block = b, public = key\<rparr>"
    "tx = OcwSubmitBestPathsChanges payload (sign env payload)" "txs = [tx]"
  have "bm_wf new" using *(1) assms(1) fw.wf by metis
  then have "distinct (map (\<lambda>(s, t, _). (s, t)) cs)"
    by (rule best_path_changes_distinct [OF assms(3,5) _ *(2)])
  moreover note worker.submitted_path [OF worker_fw [OF assms(1-3)] assms(4,5) run]
  ultimately show ?thesis using tx *(3-7) by auto
qed

definition sample_fw_env :: "(nat, nat, unit) ocw_env" where
  "sample_fw_env = sample_env\<lparr>log_debug := False, calculate := calc_best_paths rounded_log2 Some Some,
     fetch_price := (\<lambda>_ _ _. Some (Inr 4000000000000))\<rparr>"

lemma sample_fw_run:
  obtains cs where "cs \<noteq> []" "fetch_prices_and_update_best_paths sample_fw_env 10 sample_monitored =
     Some (Inr (), [OcwSubmitBestPathsChanges (sample_payload cs) ()])"
proof -
  have "BTC < USD" by (simp add: BTC_def USD_def)
  then obtain m pp where m: "calc_best_paths rounded_log2 Some Some (sample_pair BTC USD) = Some (Inr m)"
    "bm_get m (Pair BTC USD) = Some pp" by (rule sample_pair_calc)
  have fetched: "fetched_pairs sample_fw_env sample_monitored = Some (sample_pair BTC USD)"
    by (simp add: fetched_pairs_def sample_fw_env_def sample_env_def sample_monitored_def sample_pair_def)
  obtain cs where cs: "best_path_changes sample_fw_env sample_monitored m = Some cs"
    using best_path_changes_total [of sample_fw_env sample_monitored m] fw.wf [OF m(1)]
    by (auto simp: comparable_def sample_fw_env_def sample_env_def sample_monitored_def sample_storage_def)
  have "(BTC, USD, Some pp) \<in> set cs"
    using best_path_changes_iff [OF _ _ fw.wf [OF m(1)] cs, of BTC USD "Some pp"] m(2)
    by (simp add: sample_fw_env_def sample_env_def sample_monitored_def sample_storage_def)
  then have "cs \<noteq> []" by auto
  moreover have "calculate sample_fw_env = calc_best_paths rounded_log2 Some Some" "sample_pair BTC USD \<noteq> []"
    by (simp_all add: sample_fw_env_def sample_pair_def)
  ultimately have "fetch_prices_and_update_best_paths sample_fw_env 10 sample_monitored =
      Some (submit_changes sample_fw_env 10 sample_monitored cs)"
    by (simp add: fetch_prices_and_update_best_paths_def fetched m cs)
  with \<open>cs \<noteq> []\<close> have "fetch_prices_and_update_best_paths sample_fw_env 10 sample_monitored =
      Some (Inr (), [OcwSubmitBestPathsChanges (sample_payload cs) ()])"
    by (simp add: submit_changes_def sample_fw_env_def sample_env_def sample_payload_def sample_monitored_def
        sample_storage_def)
  with \<open>cs \<noteq> []\<close> show thesis by (rule that)
qed

theorem worker_submission_witness:
  "\<exists>payload. fetch_prices_and_update_best_paths sample_fw_env 10 sample_monitored =
       Some (Inr (), [OcwSubmitBestPathsChanges payload ()]) \<and>
     payload_nonce payload = 3 \<and> payload_block payload = 10 \<and> changes payload \<noteq> []"
proof -
  obtain cs where run: "fetch_prices_and_update_best_paths sample_fw_env 10 sample_monitored =
      Some (Inr (), [OcwSubmitBestPathsChanges (sample_payload cs) ()])"
    using sample_fw_run by metis
  have "\<exists>payload. [OcwSubmitBestPathsChanges (sample_payload cs) ()] =
       [OcwSubmitBestPathsChanges payload (sign sample_fw_env payload)] \<and>
     payload_nonce payload = unsigned_tx_nonce sample_monitored \<and> payload_block payload = 10 \<and> changes payload \<noteq> []"
    using worker_submission [OF _ _ _ _ _ run, of rounded_log2]
    by (simp add: sample_fw_env_def sample_env_def sample_monitored_def sample_storage_def)
  with run show ?thesis by (auto simp: sample_monitored_def sample_storage_def)
qed

section \<open>The submission is accepted\<close>

text \<open>A worker whose key is whitelisted gets its submission through: the transaction passes the
  validation of unsigned transactions from the block of the run until the stay in the pool is
  over, and executing it in the state it was computed from succeeds and bumps the nonce.\<close>

theorem worker_accepted:
  assumes run: "fetch_prices_and_update_best_paths env b st = Some (r, txs)" and tx: "tx \<in> set txs"
    and "\<forall>payload. verify payload (sign env payload)"
    and "\<forall>key. local_key env = Some key \<longrightarrow> whitelisted st (into_account key) \<noteq> None"
    and "unat b + unat max_stay < 2 ^ 32" "unat now \<le> unat b + unat max_stay"
    and "unsigned_tx_nonce st \<noteq> - 1"
    and "\<forall>payload sig. tx = OcwSubmitBestPathsChanges payload sig \<longrightarrow> log_on \<longrightarrow> (\<forall>c \<in> set (changes payload). utf8_change c)"
  shows "(\<exists>v. validate_unsigned overflow_checks verify into_account max_stay prio now tx st = Some (Inr v)) \<and>
     (\<exists>st'. dispatch overflow_checks log_on NoOrigin tx st = Some (Inr st') \<and>
        unat (unsigned_tx_nonce st') = unat (unsigned_tx_nonce st) + 1)"
proof (rule fetch_submits [OF run tx])
  fix key payload cs
  assume key: "local_key env = Some key"
    and payload: "payload = \<lparr>changes = cs, payload_nonce = unsigned_tx_nonce st, payload_block = b, public = key\<rparr>"
    and tx': "tx = OcwSubmitBestPathsChanges payload (sign env payload)"
  have "rs_add overflow_checks b max_stay = Some (b + max_stay)" "\<not> b + max_stay < now"
    using assms(5,6) by (simp_all add: rs_add_def word_less_nat_alt unat_add_fits)
  with key payload assms(3,4) have "\<exists>v. validate_unsigned overflow_checks verify into_account max_stay prio now tx st = Some (Inr v)"
    by (simp add: tx' validate_unsigned_def)
  moreover have "\<exists>st'. ocw_submit_best_paths_changes overflow_checks log_on NoOrigin payload st = Some (Inr st') \<and>
      unat (unsigned_tx_nonce st') = unat (unsigned_tx_nonce st) + 1"
    using assms(7,8) tx' payload by (intro ocw_submit_bumps) simp_all
  ultimately show ?thesis by (simp add: tx' dispatch_def)
qed

theorem worker_accepted_witness:
  "\<exists>st'. dispatch True True NoOrigin (OcwSubmitBestPathsChanges (sample_payload sample_changes) ()) sample_monitored =
     Some (Inr (st' :: nat storage)) \<and> unat (unsigned_tx_nonce st') = 4"
proof -
  have "\<exists>st'. dispatch True True NoOrigin (OcwSubmitBestPathsChanges (sample_payload sample_changes) ()) sample_monitored =
     Some (Inr (st' :: nat storage)) \<and> unat (unsigned_tx_nonce st') = unat (unsigned_tx_nonce sample_monitored) + 1"
    using worker_accepted [OF sample_run, of _ "\<lambda>_ _. True" id 5 14 True True 0]
    by (simp add: sample_env_def sample_monitored_def sample_storage_def sample_payload_def sample_changes_def
        utf8_change_def)
  then show ?thesis by (simp add: sample_monitored_def sample_storage_def)
qed

text \<open>What the next comparison finds unchanged is within the tolerance.\<close>

lemma unchanged_within_tolerance:
  assumes "iterates (iter_paths env)" "finite (dom (best_paths st))" "bm_wf new" "comparable env st new"
    and "best_path_changes env st new = Some []" "bm_get new k = Some p"
  shows "\<exists>old. best_paths st (source k, target k) = Some old \<and>
     breaches_tolerance (total_cost old) (total_cost p) (tolerance env) = Some False"
proof -
  have "bm_get new (Pair (source k) (target k)) = Some p" using assms(6) by simp
  with best_path_changes_iff [OF assms(1-3,5), of "source k" "target k" "Some p"]
  obtain old where old: "best_paths st (source k, target k) = Some old" "\<not> significant env old p"
    by (auto split: option.splits)
  have "total_cost old \<noteq> 0"
    using assms(4) old(1) \<open>bm_get new (Pair (source k) (target k)) = Some p\<close> unfolding comparable_def by blast
  then have "breaches_tolerance (total_cost old) (total_cost p) (tolerance env) \<noteq> None"
    by (simp add: breaches_tolerance_unat)
  with old show ?thesis by (auto simp: significant_def)
qed

lemma submitted_readable:
  assumes "iterates (iter_paths env)" "finite (dom (best_paths st))" "bm_wf new" "comparable env st new" "log_debug env"
    and "best_path_changes env st new = Some cs" "c \<in> set cs"
  shows "utf8_change c"
proof -
  obtain s t np where c: "c = (s, t, np)" by (cases c)
  with best_path_changes_iff [OF assms(1-3,6), of s t np] assms(7) have "bm_get new (Pair s t) \<noteq> None" by auto
  with assms(4,5) c show ?thesis unfolding comparable_def utf8_change_def by simp
qed

end
