(* ===== verification/Ocw_Lock.thy ===== *)
theory Ocw_Lock
  imports Worker_Results
begin

text \<open>
  The workers of one node over time (\<open>offchain_worker\<close> in \<open>pallets/aggregator/src/lib.rs\<close>): a run
  checks the trigger block, takes the storage lock for \<open>OCW_LOCK_DURATION\<close>, fetches and submits, sets
  the next trigger block, and releases the lock. Each of these is a step of its own. The client
  starts a run for every imported block, so the steps of several runs interleave; the runs share the
  lock and the trigger block in the node's local storage. The lock itself (\<open>sp_runtime\<close>'s
  \<open>StorageLock\<close>) is a parameter, \<open>lock_contract\<close> what its documentation says of it.
\<close>

section \<open>The lock\<close>

text \<open>Times and durations are in milliseconds. \<open>try_lock\<close> gets the time and the duration, and returns the
  lock as taken or nothing.\<close>

record 'l lock_ops =
  try_lock :: "nat \<Rightarrow> nat \<Rightarrow> 'l \<Rightarrow> 'l option"
  unlock :: "'l \<Rightarrow> 'l"

definition lock_contract :: "'l lock_ops \<Rightarrow> ('l \<Rightarrow> nat option) \<Rightarrow> bool" where
  "lock_contract ops deadline \<longleftrightarrow>
     (\<forall>now d l. try_lock ops now d l = None \<longleftrightarrow> (\<exists>t. deadline l = Some t \<and> now \<le> t)) \<and>
     (\<forall>now d l l'. try_lock ops now d l = Some l' \<longrightarrow> deadline l' = Some (now + d)) \<and>
     (\<forall>l. deadline (unlock ops l) = None)"

lemma lock_contractD:
  assumes "lock_contract ops deadline"
  shows "try_lock ops now d l = None \<longleftrightarrow> (\<exists>t. deadline l = Some t \<and> now \<le> t)"
    "try_lock ops now d l = Some l' \<Longrightarrow> deadline l' = Some (now + d)"
    "deadline (unlock ops l) = None"
  using assms unfolding lock_contract_def by blast+

definition OCW_LOCK_DURATION :: nat where
  "OCW_LOCK_DURATION = 100"

section \<open>One run\<close>

text \<open>The node's local storage has a key for the lock and one for the trigger block.\<close>

definition OCW_WORKER_LOCK :: "u8 list" where
  "OCW_WORKER_LOCK = ascii ''aggregator::ocw_lock''"

definition NEXT_OFFCHAIN_TRIGGER_BLOCK :: "u8 list" where
  "NEXT_OFFCHAIN_TRIGGER_BLOCK = ascii ''aggregator::next_offchain_trigger_block''"

lemma storage_keys_differ: "OCW_WORKER_LOCK \<noteq> NEXT_OFFCHAIN_TRIGGER_BLOCK"
  by (simp add: OCW_WORKER_LOCK_def NEXT_OFFCHAIN_TRIGGER_BLOCK_def ascii_def)

record 'l local_storage =
  ocw_lock :: 'l
  next_offchain_trigger :: stored_block

text \<open>After the check of the trigger block (\<open>should_trigger_offchain\<close>): the attempt to take the lock.\<close>

definition worker_lock :: "'l lock_ops \<Rightarrow> nat \<Rightarrow> 'l local_storage \<Rightarrow> 'l local_storage option" where
  "worker_lock ops now nd =
     map_option (\<lambda>l. nd\<lparr>ocw_lock := l\<rparr>) (try_lock ops now OCW_LOCK_DURATION (ocw_lock nd))"

text \<open>Under the lock, after the transactions: the next trigger block.\<close>

definition worker_bump :: "('acc, 'pub, 'sig) ocw_env \<Rightarrow> u32 \<Rightarrow> 'l local_storage \<Rightarrow> 'l local_storage run" where
  "worker_bump env b nd = do {
     next_trigger \<leftarrow> rs_add (checks env) b (trigger_delay env);
     Some (nd\<lparr>next_offchain_trigger := Stored next_trigger\<rparr>)
   }"

text \<open>The guard goes out of scope.\<close>

definition worker_release :: "'l lock_ops \<Rightarrow> 'l local_storage \<Rightarrow> 'l local_storage" where
  "worker_release ops nd = nd\<lparr>ocw_lock := unlock ops (ocw_lock nd)\<rparr>"

text \<open>All of it with nothing in between.\<close>

definition worker_at_once ::
  "('acc, 'pub, 'sig) ocw_env \<Rightarrow> 'l lock_ops \<Rightarrow> nat \<Rightarrow> u32 \<Rightarrow> 'acc storage \<Rightarrow> 'l local_storage \<Rightarrow>
     (('acc, 'pub, 'sig) call list \<times> 'l local_storage) run" where
  "worker_at_once env ops t b st nd =
     (if should_trigger_offchain (next_offchain_trigger nd) b then
        (case worker_lock ops t nd of
           None \<Rightarrow> Some ([], nd)
         | Some nd1 \<Rightarrow> do {
             (_, txs) \<leftarrow> fetch_prices_and_update_best_paths env b st;
             nd2 \<leftarrow> worker_bump env b nd1;
             Some (txs, worker_release ops nd2)
           })
      else Some ([], nd))"

text \<open>The worker as steps agrees with the worker as one function: without interruption it submits the
  same transactions and sets the same trigger block as \<open>offchain_worker\<close>, with the lock found free or
  not.\<close>

lemma worker_steps_compose:
  "offchain_worker env (try_lock ops t OCW_LOCK_DURATION (ocw_lock nd) \<noteq> None) b (next_offchain_trigger nd) st =
     map_option (\<lambda>(txs, nd'). (txs, next_offchain_trigger nd')) (worker_at_once env ops t b st nd)"
  by (cases "try_lock ops t OCW_LOCK_DURATION (ocw_lock nd)")
    (auto simp: offchain_worker_def worker_at_once_def worker_lock_def worker_bump_def worker_release_def
      split: Option.bind_split)

lemma worker_lock_Some:
  assumes "worker_lock ops t nd = Some nd'"
  obtains l where "try_lock ops t OCW_LOCK_DURATION (ocw_lock nd) = Some l" "nd' = nd\<lparr>ocw_lock := l\<rparr>"
  using assms by (auto simp: worker_lock_def)

lemma worker_bump_Some:
  assumes "worker_bump env b nd = Some nd'"
  obtains n where "rs_add (checks env) b (trigger_delay env) = Some n" "nd' = nd\<lparr>next_offchain_trigger := Stored n\<rparr>"
  using assms by (auto simp: worker_bump_def split: Option.bind_splits)

section \<open>Interleaved runs\<close>

text \<open>Where a run stands: it has passed the check and is about to try the lock; it holds the lock since
  some time and is fetching, about to set the trigger, or about to release; or it is over. The
  storage of a run is that of the block it was started for. A run that panics traps in its own
  instance: its guard is never dropped. \<open>workers\<close> are all runs that passed the check.\<close>

datatype phase = AtLock | Fetching nat | Bumping nat | Releasing nat | Over

record 'acc worker_run =
  run_block :: u32
  run_storage :: "'acc storage"
  run_phase :: phase

record ('acc, 'l) node_state =
  clock :: nat
  local :: "'l local_storage"
  workers :: "'acc worker_run list"

datatype ('acc, 'pub, 'sig) node_event =
    Allowed u32
  | TooEarly u32
  | Locked u32 nat
  | Refused u32
  | Sent u32 "('acc, 'pub, 'sig) call list"
  | Bumped u32
  | Released u32
  | Panicked u32

definition at_phase :: "('acc, 'l) node_state \<Rightarrow> nat \<Rightarrow> phase \<Rightarrow> bool" where
  "at_phase nd i ph \<longleftrightarrow> i < length (workers nd) \<and> run_phase (workers nd ! i) = ph"

definition enter :: "nat \<Rightarrow> phase \<Rightarrow> ('acc, 'l) node_state \<Rightarrow> ('acc, 'l) node_state" where
  "enter i ph nd = nd\<lparr>workers := (workers nd)[i := (workers nd ! i)\<lparr>run_phase := ph\<rparr>]\<rparr>"

definition join :: "u32 \<Rightarrow> 'acc storage \<Rightarrow> ('acc, 'l) node_state \<Rightarrow> ('acc, 'l) node_state" where
  "join b st nd = nd\<lparr>workers := workers nd @ [\<lparr>run_block = b, run_storage = st, run_phase = AtLock\<rparr>]\<rparr>"

abbreviation block_of :: "('acc, 'l) node_state \<Rightarrow> nat \<Rightarrow> u32" where
  "block_of nd i \<equiv> run_block (workers nd ! i)"

abbreviation fetch_of ::
  "('acc, 'pub, 'sig) ocw_env \<Rightarrow> ('acc, 'l) node_state \<Rightarrow> nat \<Rightarrow> ((ocw_error, unit) result \<times> ('acc, 'pub, 'sig) call list) run" where
  "fetch_of env nd i \<equiv> fetch_prices_and_update_best_paths env (block_of nd i) (run_storage (workers nd ! i))"

inductive node_step ::
  "('acc, 'pub, 'sig) ocw_env \<Rightarrow> 'l lock_ops \<Rightarrow>
     ('acc, 'l) node_state \<Rightarrow> ('acc, 'pub, 'sig) node_event \<Rightarrow> ('acc, 'l) node_state \<Rightarrow> bool"
  for env ops where
  allows: "clock nd \<le> t \<Longrightarrow> should_trigger_offchain (next_offchain_trigger (local nd)) b \<Longrightarrow>
     node_step env ops nd (Allowed b) (join b st (nd\<lparr>clock := t\<rparr>))"
| declines: "clock nd \<le> t \<Longrightarrow> \<not> should_trigger_offchain (next_offchain_trigger (local nd)) b \<Longrightarrow>
     node_step env ops nd (TooEarly b) (nd\<lparr>clock := t\<rparr>)"
| locks: "clock nd \<le> t \<Longrightarrow> at_phase nd i AtLock \<Longrightarrow> worker_lock ops t (local nd) = Some ls \<Longrightarrow>
     node_step env ops nd (Locked (block_of nd i) t) (enter i (Fetching t) (nd\<lparr>clock := t, local := ls\<rparr>))"
| refuses: "clock nd \<le> t \<Longrightarrow> at_phase nd i AtLock \<Longrightarrow> worker_lock ops t (local nd) = None \<Longrightarrow>
     node_step env ops nd (Refused (block_of nd i)) (enter i Over (nd\<lparr>clock := t\<rparr>))"
| sends: "clock nd \<le> t \<Longrightarrow> at_phase nd i (Fetching t0) \<Longrightarrow> fetch_of env nd i = Some (r, txs) \<Longrightarrow>
     node_step env ops nd (Sent (block_of nd i) txs) (enter i (Bumping t0) (nd\<lparr>clock := t\<rparr>))"
| bumps: "clock nd \<le> t \<Longrightarrow> at_phase nd i (Bumping t0) \<Longrightarrow> worker_bump env (block_of nd i) (local nd) = Some ls \<Longrightarrow>
     node_step env ops nd (Bumped (block_of nd i)) (enter i (Releasing t0) (nd\<lparr>clock := t, local := ls\<rparr>))"
| releases: "clock nd \<le> t \<Longrightarrow> at_phase nd i (Releasing t0) \<Longrightarrow>
     node_step env ops nd (Released (block_of nd i)) (enter i Over (nd\<lparr>clock := t, local := worker_release ops (local nd)\<rparr>))"
| panics: "clock nd \<le> t \<Longrightarrow> at_phase nd i (Fetching t0) \<and> fetch_of env nd i = None \<or>
       at_phase nd i (Bumping t0) \<and> worker_bump env (block_of nd i) (local nd) = None \<Longrightarrow>
     node_step env ops nd (Panicked (block_of nd i)) (enter i Over (nd\<lparr>clock := t\<rparr>))"

text \<open>A run of the node with its events, the latest last; \<open>ok\<close> holds of all its states.\<close>

inductive node_run ::
  "('acc, 'pub, 'sig) ocw_env \<Rightarrow> 'l lock_ops \<Rightarrow> (('acc, 'l) node_state \<Rightarrow> bool) \<Rightarrow>
     ('acc, 'l) node_state \<Rightarrow> ('acc, 'pub, 'sig) node_event list \<Rightarrow> ('acc, 'l) node_state \<Rightarrow> bool"
  for env ops ok where
  start: "ok nd \<Longrightarrow> node_run env ops ok nd [] nd"
| step: "node_run env ops ok nd trace nd' \<Longrightarrow> node_step env ops nd' e nd'' \<Longrightarrow> ok nd'' \<Longrightarrow>
     node_run env ops ok nd (trace @ [e]) nd''"

text \<open>A node without runs under way and with the lock free.\<close>

definition idle :: "('l \<Rightarrow> nat option) \<Rightarrow> ('acc, 'l) node_state \<Rightarrow> bool" where
  "idle deadline nd \<longleftrightarrow> workers nd = [] \<and> deadline (ocw_lock (local nd)) = None"

text \<open>Since when a run holds the lock.\<close>

definition held_since :: "('acc, 'l) node_state \<Rightarrow> nat \<Rightarrow> nat option" where
  "held_since nd i =
     (if i < length (workers nd)
      then (case run_phase (workers nd ! i) of
              Fetching t \<Rightarrow> Some t | Bumping t \<Rightarrow> Some t | Releasing t \<Rightarrow> Some t | _ \<Rightarrow> None)
      else None)"

definition prompt :: "('acc, 'l) node_state \<Rightarrow> bool" where
  "prompt nd \<longleftrightarrow> (\<forall>i t. held_since nd i = Some t \<longrightarrow> clock nd \<le> t + OCW_LOCK_DURATION)"

text \<open>No run waits for the lock that the trigger block would by now turn away.\<close>

definition checks_current :: "('acc, 'l) node_state \<Rightarrow> bool" where
  "checks_current nd \<longleftrightarrow>
     (\<forall>i. at_phase nd i AtLock \<longrightarrow> should_trigger_offchain (next_offchain_trigger (local nd)) (block_of nd i))"

section \<open>Basic facts of the steps\<close>

inductive_cases node_stepE: "node_step env ops nd e nd'"
inductive_cases allowed_stepE: "node_step env ops nd (Allowed b) nd'"
inductive_cases locked_stepE: "node_step env ops nd (Locked b t) nd'"

lemma run_ok: "node_run env ops ok nd trace nd' \<Longrightarrow> ok nd'"
  by (induction rule: node_run.induct) simp_all

inductive_cases run_NilE: "node_run env ops ok nd [] nd'"

lemma run_Nil [simp]: "node_run env ops ok nd [] nd' \<longleftrightarrow> nd' = nd \<and> ok nd"
  by (auto elim: run_NilE intro: node_run.start)

lemma run_snoc [simp]:
  "node_run env ops ok nd (trace @ [e]) nd'' \<longleftrightarrow> (\<exists>nd'. node_run env ops ok nd trace nd' \<and> node_step env ops nd' e nd'' \<and> ok nd'')"
proof
  assume "node_run env ops ok nd (trace @ [e]) nd''"
  then show "\<exists>nd'. node_run env ops ok nd trace nd' \<and> node_step env ops nd' e nd'' \<and> ok nd''"
    by cases auto
qed (blast intro: node_run.step)

lemma run_append:
  "node_run env ops ok nd (trace @ trace') nd'' \<longleftrightarrow>
     (\<exists>nd'. node_run env ops ok nd trace nd' \<and> node_run env ops ok nd' trace' nd'')"
proof (induction trace' arbitrary: nd'' rule: rev_induct)
  case Nil
  then show ?case by (auto dest: run_ok)
next
  case (snoc e trace')
  then show ?case by (simp only: append_assoc [symmetric] run_snoc) blast
qed

lemma run_start_ok: "node_run env ops ok nd trace nd' \<Longrightarrow> ok nd"
  by (induction rule: node_run.induct) simp_all

lemma run_Cons:
  "node_run env ops ok nd (e # trace) nd'' \<longleftrightarrow>
     ok nd \<and> (\<exists>nd'. node_step env ops nd e nd' \<and> node_run env ops ok nd' trace nd'')"
  using run_append [of env ops ok nd "[e]" trace nd''] run_snoc [of env ops ok nd "[]" e]
  by (auto dest: run_start_ok)

lemma enter_nth:
  "workers (enter i ph nd) ! j = (if j = i \<and> i < length (workers nd) then (workers nd ! i)\<lparr>run_phase := ph\<rparr> else workers nd ! j)"
proof (cases "i < length (workers nd)")
  case True
  then show ?thesis by (cases "j = i") (simp_all add: enter_def)
next
  case False
  then show ?thesis by (simp add: enter_def list_update_beyond)
qed

lemma enter_simps [simp]:
  "clock (enter i ph nd) = clock nd" "local (enter i ph nd) = local nd"
  "length (workers (enter i ph nd)) = length (workers nd)"
  "block_of (enter i ph nd) j = block_of nd j"
  by (simp_all only: enter_nth) (simp_all add: enter_def)

lemma phase_enter:
  "i < length (workers nd) \<Longrightarrow> at_phase (enter i ph nd) j q \<longleftrightarrow> (if j = i then q = ph else at_phase nd j q)"
  by (auto simp: at_phase_def enter_def)

lemma phase_index: "at_phase nd i ph \<Longrightarrow> i < length (workers nd)"
  by (simp add: at_phase_def)

lemma held_phase: "held_since nd i = Some t \<longleftrightarrow> at_phase nd i (Fetching t) \<or> at_phase nd i (Bumping t) \<or> at_phase nd i (Releasing t)"
  by (auto simp: held_since_def at_phase_def split: phase.splits)

lemma held_None:
  "held_since nd i = None \<Longrightarrow> \<not> at_phase nd i (Fetching t) \<and> \<not> at_phase nd i (Bumping t) \<and> \<not> at_phase nd i (Releasing t)"
  by (auto simp: held_since_def at_phase_def)

lemma held_enter:
  "i < length (workers nd) \<Longrightarrow> held_since (enter i ph nd) j =
     (if j = i then (case ph of Fetching t \<Rightarrow> Some t | Bumping t \<Rightarrow> Some t | Releasing t \<Rightarrow> Some t | _ \<Rightarrow> None)
      else held_since nd j)"
  by (auto simp: held_since_def enter_def)

lemma node_updates [simp]:
  "at_phase (nd\<lparr>clock := t\<rparr>) i ph = at_phase nd i ph" "at_phase (nd\<lparr>local := ls\<rparr>) i ph = at_phase nd i ph"
  "held_since (nd\<lparr>clock := t\<rparr>) i = held_since nd i" "held_since (nd\<lparr>local := ls\<rparr>) i = held_since nd i"
  by (simp_all add: at_phase_def held_since_def)

text \<open>A run that starts is the last one in the list.\<close>

lemma join_simps [simp]:
  "clock (join b st nd) = clock nd" "local (join b st nd) = local nd"
  "length (workers (join b st nd)) = Suc (length (workers nd))"
  "held_since (join b st nd) i = held_since nd i"
  by (auto simp: join_def held_since_def nth_append less_Suc_eq)

lemma phase_join: "at_phase (join b st nd) i ph \<longleftrightarrow> at_phase nd i ph \<or> i = length (workers nd) \<and> ph = AtLock"
  by (auto simp: at_phase_def join_def nth_append)

lemma join_nth:
  "i < length (workers nd) \<Longrightarrow> workers (join b st nd) ! i = workers nd ! i"
  "i = length (workers nd) \<Longrightarrow>
     workers (join b st nd) ! i = \<lparr>run_block = b, run_storage = st, run_phase = AtLock\<rparr>"
  by (simp_all add: join_def nth_append)

end
