(* ===== verification/Ocw_Runs.thy ===== *)
theory Ocw_Runs
  imports Ocw_Lock
begin

text \<open>
  What the interleaved runs of one node's workers guarantee: runs that keep within the lock's duration
  exclude each other, and submit at blocks the trigger delay apart if no check is outdated; the
  trigger limits the rate of checks in every run; the lock ends by itself. And what they do not: a run
  slower than the lock, and a check made before the lock is taken, let two runs act.
\<close>

section \<open>Prompt runs exclude each other\<close>

text \<open>At most one run holds the lock, and the deadline of the lock is that of its holder.\<close>

definition exclusive :: "('l \<Rightarrow> nat option) \<Rightarrow> ('acc, 'l) node_state \<Rightarrow> bool" where
  "exclusive deadline nd \<longleftrightarrow>
     (\<forall>i t. held_since nd i = Some t \<longrightarrow> deadline (ocw_lock (local nd)) = Some (t + OCW_LOCK_DURATION)) \<and>
     (\<forall>i j. held_since nd i \<noteq> None \<and> held_since nd j \<noteq> None \<longrightarrow> i = j)"

lemma lock_free_alone:
  assumes "lock_contract ops deadline" "exclusive deadline nd" "worker_lock ops t (local nd) = Some ls"
    and "prompt (nd\<lparr>clock := t\<rparr>)"
  shows "held_since nd i = None"
proof (rule ccontr)
  assume "held_since nd i \<noteq> None"
  then obtain t0 where t0: "held_since nd i = Some t0" by blast
  with assms(2) have "deadline (ocw_lock (local nd)) = Some (t0 + OCW_LOCK_DURATION)" by (simp add: exclusive_def)
  moreover from assms(4) t0 have "t \<le> t0 + OCW_LOCK_DURATION" by (auto simp: prompt_def)
  ultimately have "try_lock ops t OCW_LOCK_DURATION (ocw_lock (local nd)) = None"
    using lock_contractD(1) [OF assms(1)] by auto
  with assms(3) show False by (simp add: worker_lock_def)
qed

lemma exclusive_alone: "exclusive deadline nd \<Longrightarrow> held_since nd i = Some t \<Longrightarrow> j \<noteq> i \<Longrightarrow> held_since nd j = None"
  unfolding exclusive_def by (metis option.distinct(1))

lemma exclusive_deadline:
  "exclusive deadline nd \<Longrightarrow> held_since nd i = Some t \<Longrightarrow> deadline (ocw_lock (local nd)) = Some (t + OCW_LOCK_DURATION)"
  unfolding exclusive_def by blast

lemma prompt_before_lock:
  assumes "at_phase nd i AtLock" "prompt (enter i (Fetching t) (nd\<lparr>clock := t, local := ls\<rparr>))"
  shows "prompt (nd\<lparr>clock := t\<rparr>)"
proof -
  have "clock (nd\<lparr>clock := t\<rparr>) \<le> t0 + OCW_LOCK_DURATION" if "held_since nd j = Some t0" for j t0
  proof -
    from that assms(1) have "j \<noteq> i" by (auto simp: held_phase at_phase_def)
    with that phase_index [OF assms(1)] have "held_since (enter i (Fetching t) (nd\<lparr>clock := t, local := ls\<rparr>)) j = Some t0"
      by (simp add: held_enter)
    with assms(2) show ?thesis by (force simp: prompt_def)
  qed
  then show ?thesis by (simp add: prompt_def)
qed

lemma step_exclusive:
  assumes "lock_contract ops deadline" "node_step env ops nd e nd'" "exclusive deadline nd" "prompt nd'"
  shows "exclusive deadline nd'"
  using assms(2)
proof cases
  case (locks t i ls)
  from locks(5) obtain l where l: "try_lock ops t OCW_LOCK_DURATION (ocw_lock (local nd)) = Some l"
    "ls = (local nd)\<lparr>ocw_lock := l\<rparr>" by (rule worker_lock_Some)
  have "prompt (nd\<lparr>clock := t\<rparr>)" using prompt_before_lock [OF locks(4)] assms(4) locks(2) by simp
  note alone = lock_free_alone [OF assms(1,3) locks(5) this]
  show ?thesis using lock_contractD(2) [OF assms(1) l(1)] phase_index [OF locks(4)]
    by (auto simp: locks(2) exclusive_def held_enter l(2) alone)
next
  case (releases t i t0)
  then have "held_since nd i = Some t0" by (simp add: held_phase)
  note alone = exclusive_alone [OF assms(3) this]
  with phase_index [OF releases(4)] show ?thesis by (simp add: releases(2) exclusive_def held_enter)
next
  case (sends t i t0 r txs)
  then have held: "held_since nd i = Some t0" by (simp add: held_phase)
  note alone = exclusive_alone [OF assms(3) held]
  with phase_index [OF sends(4)] exclusive_deadline [OF assms(3) held] show ?thesis
    by (simp add: sends(2) exclusive_def held_enter)
next
  case (bumps t i t0 ls)
  then have held: "held_since nd i = Some t0" by (simp add: held_phase)
  note alone = exclusive_alone [OF assms(3) held]
  from bumps(5) obtain n where "ls = (local nd)\<lparr>next_offchain_trigger := Stored n\<rparr>" by (rule worker_bump_Some)
  with alone phase_index [OF bumps(4)] exclusive_deadline [OF assms(3) held] show ?thesis
    by (simp add: bumps(2) exclusive_def held_enter)
next
  case (panics t i t0)
  then have "i < length (workers nd)" by (auto dest: phase_index)
  with assms(3) show ?thesis by (auto simp: panics(2) exclusive_def held_enter split: if_splits)
next
  case (refuses t i)
  with assms(3) phase_index [OF refuses(4)] show ?thesis
    by (auto simp: refuses(2) exclusive_def held_enter split: if_splits)
qed (use assms(3) in \<open>simp_all add: exclusive_def\<close>)

section \<open>Orderly runs are the delay apart\<close>

definition sent_block :: "('acc, 'pub, 'sig) node_event \<Rightarrow> u32 list" where
  "sent_block e = (case e of Sent b _ \<Rightarrow> [b] | _ \<Rightarrow> [])"

definition sent_blocks :: "('acc, 'pub, 'sig) node_event list \<Rightarrow> u32 list" where
  "sent_blocks trace = concat (map sent_block trace)"

definition allowed_blocks :: "('acc, 'pub, 'sig) node_event list \<Rightarrow> u32 set" where
  "allowed_blocks trace = {b. Allowed b \<in> set trace}"

lemma sent_blocks_simps [simp]:
  "sent_blocks [] = []" "sent_blocks (e # trace) = sent_block e @ sent_blocks trace"
  "sent_blocks (trace @ trace') = sent_blocks trace @ sent_blocks trace'"
  by (simp_all add: sent_blocks_def)

lemma allowed_blocks_append: "allowed_blocks (trace @ trace') = allowed_blocks trace \<union> allowed_blocks trace'"
  by (auto simp: allowed_blocks_def)

lemma sent_blocks_iff: "b \<in> set (sent_blocks trace) \<longleftrightarrow> (\<exists>txs. Sent b txs \<in> set trace)"
  by (induction trace) (auto simp: sent_block_def split: node_event.splits)

definition orderly :: "('acc, 'l) node_state \<Rightarrow> bool" where
  "orderly nd \<longleftrightarrow> prompt nd \<and> checks_current nd"

text \<open>The blocks of the submissions are \<open>d\<close> apart; the trigger is \<open>d\<close> after each of them, but for the one
  whose run is about to set it; and the run under the lock would still be allowed.\<close>

definition spaced :: "nat \<Rightarrow> u32 list \<Rightarrow> ('acc, 'l) node_state \<Rightarrow> bool" where
  "spaced d bs nd \<longleftrightarrow> sorted_wrt (\<lambda>b b'. unat b + d \<le> unat b') bs \<and>
     (\<forall>i t. at_phase nd i (Fetching t) \<or> at_phase nd i (Bumping t) \<longrightarrow>
        should_trigger_offchain (next_offchain_trigger (local nd)) (block_of nd i)) \<and>
     (\<forall>b \<in> set bs. (\<exists>n. next_offchain_trigger (local nd) = Stored n \<and> unat b + d \<le> unat n) \<or>
        (\<exists>i t. at_phase nd i (Bumping t) \<and> block_of nd i = b))"

lemma spacedD:
  assumes "spaced d bs nd"
  shows "at_phase nd i (Fetching t) \<Longrightarrow> should_trigger_offchain (next_offchain_trigger (local nd)) (block_of nd i)"
    "at_phase nd i (Bumping t) \<Longrightarrow> should_trigger_offchain (next_offchain_trigger (local nd)) (block_of nd i)"
    "b \<in> set bs \<Longrightarrow> (\<exists>n. next_offchain_trigger (local nd) = Stored n \<and> unat b + d \<le> unat n) \<or>
        (\<exists>i t. at_phase nd i (Bumping t) \<and> block_of nd i = b)"
    "sorted_wrt (\<lambda>b b'. unat b + d \<le> unat b') bs"
  using assms unfolding spaced_def by blast+

lemma trigger_bound: "should_trigger_offchain (Stored n) b \<longleftrightarrow> unat n \<le> unat b"
  by (simp add: should_trigger_offchain_def word_le_nat_alt)

text \<open>Steps that neither send nor touch the trigger, and put no run under the lock.\<close>

lemma spaced_mono:
  assumes "spaced d bs nd" "next_offchain_trigger (local nd') = next_offchain_trigger (local nd)"
    and "\<And>j t. at_phase nd' j (Fetching t) \<Longrightarrow> at_phase nd j (Fetching t) \<and> block_of nd' j = block_of nd j"
    and "\<And>j t. at_phase nd' j (Bumping t) \<longleftrightarrow> at_phase nd j (Bumping t)"
    and "\<And>j t. at_phase nd j (Bumping t) \<Longrightarrow> block_of nd' j = block_of nd j"
  shows "spaced d bs nd'"
  unfolding spaced_def
proof (intro conjI ballI allI impI)
  show "sorted_wrt (\<lambda>b b'. unat b + d \<le> unat b') bs" using assms(1) by (rule spacedD(4))
next
  fix i t
  assume "at_phase nd' i (Fetching t) \<or> at_phase nd' i (Bumping t)"
  then show "should_trigger_offchain (next_offchain_trigger (local nd')) (block_of nd' i)"
    using spacedD(1,2) [OF assms(1)] assms(2-5) by metis
next
  fix b
  assume "b \<in> set bs"
  from spacedD(3) [OF assms(1) this] assms(2,4,5)
  show "(\<exists>n. next_offchain_trigger (local nd') = Stored n \<and> unat b + d \<le> unat n) \<or>
      (\<exists>i t. at_phase nd' i (Bumping t) \<and> block_of nd' i = b)" by metis
qed

lemma spaced_send:
  assumes "spaced d bs nd" "exclusive deadline nd" "at_phase nd i (Fetching t0)"
  shows "spaced d (bs @ [block_of nd i]) (enter i (Bumping t0) (nd\<lparr>clock := t\<rparr>))"
proof -
  have "held_since nd i = Some t0" using assms(3) by (simp add: held_phase)
  note alone = exclusive_alone [OF assms(2) this]
  have bumping: "\<not> at_phase nd j (Bumping t1)" for j t1
    using held_None [OF alone, of j] assms(3) by (cases "j = i") (auto simp: at_phase_def)
  have fetching: "\<not> at_phase nd j (Fetching t1)" if "j \<noteq> i" for j t1
    using held_None [OF alone [OF that]] by blast
  have allowed: "should_trigger_offchain (next_offchain_trigger (local nd)) (block_of nd i)"
    using spacedD(1) [OF assms(1,3)] .
  have "\<exists>n. next_offchain_trigger (local nd) = Stored n \<and> unat b + d \<le> unat n" if "b \<in> set bs" for b
    using spacedD(3) [OF assms(1) that] bumping by blast
  moreover from this have "unat b + d \<le> unat (block_of nd i)" if "b \<in> set bs" for b
    using allowed that by (force simp: trigger_bound)
  ultimately show ?thesis
    using spacedD(4) [OF assms(1)] allowed bumping fetching phase_index [OF assms(3)]
    by (auto simp: spaced_def sorted_wrt_append phase_enter)
qed

lemma spaced_bump:
  assumes "spaced d bs nd" "exclusive deadline nd" "at_phase nd i (Bumping t0)"
    and "worker_bump env (block_of nd i) (local nd) = Some ls" "d = unat (trigger_delay env)"
    and "unat (block_of nd i) + d < 2 ^ 32"
  shows "spaced d bs (enter i (Releasing t0) (nd\<lparr>clock := t, local := ls\<rparr>))"
proof -
  have "held_since nd i = Some t0" using assms(3) by (simp add: held_phase)
  note alone = exclusive_alone [OF assms(2) this]
  have others: "\<not> at_phase nd j (Fetching t1)" "\<not> at_phase nd j (Bumping t1)" if "j \<noteq> i" for j t1
    using held_None [OF alone [OF that]] by blast+
  from assms(4) obtain n where n: "rs_add (checks env) (block_of nd i) (trigger_delay env) = Some n"
    "ls = (local nd)\<lparr>next_offchain_trigger := Stored n\<rparr>" by (rule worker_bump_Some)
  have "unat n = unat (block_of nd i) + d" using rs_add_exact [OF n(1)] assms(5,6) by simp
  moreover have "unat b \<le> unat (block_of nd i)" if b: "b \<in> set bs" for b
  proof (cases "\<exists>m. next_offchain_trigger (local nd) = Stored m \<and> unat b + d \<le> unat m")
    case True
    with spacedD(2) [OF assms(1,3)] show ?thesis by (auto simp: trigger_bound)
  next
    case False
    then obtain j t1 where "at_phase nd j (Bumping t1)" "block_of nd j = b" using spacedD(3) [OF assms(1) b] by blast
    with others show ?thesis by (cases "j = i") auto
  qed
  ultimately have "unat b + d \<le> unat n" if "b \<in> set bs" for b using that by simp
  with spacedD(4) [OF assms(1)] others phase_index [OF assms(3)] show ?thesis
    by (auto simp: spaced_def phase_enter n(2))
qed

lemma step_spaced:
  assumes "node_step env ops nd e nd'" "exclusive deadline nd" "checks_current nd"
    and "spaced (unat (trigger_delay env)) bs nd"
    and "\<forall>i < length (workers nd). unat (block_of nd i) + unat (trigger_delay env) < 2 ^ 32"
  shows "spaced (unat (trigger_delay env)) (bs @ sent_block e) nd'"
  using assms(1)
proof cases
  case (sends t i t0 r txs)
  with spaced_send [OF assms(4,2) sends(4), of t] show ?thesis by (simp add: sent_block_def)
next
  case (bumps t i t0 ls)
  with spaced_bump [OF assms(4,2) bumps(4,5) refl] assms(5) phase_index [OF bumps(4)] show ?thesis
    by (simp add: sent_block_def)
next
  case (locks t i ls)
  from locks(5) obtain l where l: "ls = (local nd)\<lparr>ocw_lock := l\<rparr>" by (rule worker_lock_Some)
  have i: "i < length (workers nd)" "run_phase (workers nd ! i) = AtLock" using locks(4) by (simp_all add: at_phase_def)
  have "should_trigger_offchain (next_offchain_trigger (local nd)) (block_of nd i)"
    using assms(3) locks(4) by (simp add: checks_current_def)
  moreover have "at_phase nd' j (Bumping t1) \<longleftrightarrow> at_phase nd j (Bumping t1)"
    "at_phase nd' j (Fetching t1) \<Longrightarrow> j = i \<or> at_phase nd j (Fetching t1)" for j t1
    using i by (auto simp: locks(2) enter_nth at_phase_def split: if_splits)
  moreover have "block_of nd' j = block_of nd j" for j by (simp add: locks(2))
  moreover have "next_offchain_trigger (local nd') = next_offchain_trigger (local nd)" by (simp add: locks(2) l)
  ultimately show ?thesis
    using assms(4) unfolding spaced_def locks(1) sent_block_def node_event.case append_Nil2 by metis
next
  case (panics t i t0)
  have "\<not> at_phase nd i (Bumping t0)"
  proof
    assume bumping: "at_phase nd i (Bumping t0)"
    with panics(4) have "worker_bump env (block_of nd i) (local nd) = None" by (auto simp: at_phase_def)
    moreover from assms(5) phase_index [OF bumping] have "unat (block_of nd i) + unat (trigger_delay env) < 2 ^ 32" by simp
    ultimately show False by (auto simp: worker_bump_def rs_add_def)
  qed
  with panics(4) have "at_phase nd i (Fetching t0)" by blast
  then have i: "i < length (workers nd)" "run_phase (workers nd ! i) = Fetching t0" by (simp_all add: at_phase_def)
  show ?thesis unfolding panics(1,2) sent_block_def node_event.case append_Nil2
    by (rule spaced_mono [OF assms(4)]) (use i in \<open>auto simp: enter_nth at_phase_def split: if_splits\<close>)
next
  case (refuses t i)
  then have i: "i < length (workers nd)" "run_phase (workers nd ! i) = AtLock" by (simp_all add: at_phase_def)
  show ?thesis unfolding refuses(1,2) sent_block_def node_event.case append_Nil2
    by (rule spaced_mono [OF assms(4)]) (use i in \<open>auto simp: enter_nth at_phase_def split: if_splits\<close>)
next
  case (releases t i t0)
  then have i: "i < length (workers nd)" "run_phase (workers nd ! i) = Releasing t0" by (simp_all add: at_phase_def)
  show ?thesis unfolding releases(1,2) sent_block_def node_event.case append_Nil2
    by (rule spaced_mono [OF assms(4)]) (use i in \<open>auto simp: enter_nth at_phase_def worker_release_def split: if_splits\<close>)
next
  case (allows t b st)
  show ?thesis unfolding allows(1,2) sent_block_def node_event.case append_Nil2
    by (rule spaced_mono [OF assms(4)]) (auto simp: phase_join join_nth dest: phase_index)
next
  case (declines t b)
  show ?thesis unfolding declines(1,2) sent_block_def node_event.case append_Nil2
    by (rule spaced_mono [OF assms(4)]) simp_all
qed

lemma run_exclusive:
  assumes "lock_contract ops deadline" "\<forall>nd. ok nd \<longrightarrow> prompt nd"
  shows "node_run env ops ok nd trace nd' \<Longrightarrow> idle deadline nd \<Longrightarrow> exclusive deadline nd'"
proof (induction rule: node_run.induct)
  case (start nd)
  then show ?case by (simp add: idle_def exclusive_def held_since_def)
next
  case (step nd trace nd' e nd'')
  with step_exclusive [OF assms(1) step.hyps(2)] assms(2) show ?case by blast
qed

lemma run_worker_blocks:
  "node_run env ops ok nd trace nd' \<Longrightarrow> workers nd = [] \<Longrightarrow> i < length (workers nd') \<Longrightarrow>
     block_of nd' i \<in> allowed_blocks trace"
proof (induction arbitrary: i rule: node_run.induct)
  case (step nd trace nd' e nd'')
  from step.hyps(2) show ?case
  proof cases
    case (allows t b st)
    with step.IH [of i] step.prems show ?thesis
      by (cases "i = length (workers nd')") (auto simp: join_nth less_Suc_eq allowed_blocks_def)
  qed (use step.IH [of i] step.prems in \<open>auto simp: allowed_blocks_def\<close>)
qed simp

lemma run_spaced:
  assumes "lock_contract ops deadline"
  shows "node_run env ops orderly nd trace nd' \<Longrightarrow> idle deadline nd \<Longrightarrow>
     \<forall>b \<in> allowed_blocks trace. unat b + unat (trigger_delay env) < 2 ^ 32 \<Longrightarrow>
     spaced (unat (trigger_delay env)) (sent_blocks trace) nd'"
proof (induction rule: node_run.induct)
  case (start nd)
  then show ?case by (simp add: spaced_def idle_def at_phase_def)
next
  case (step nd trace nd' e nd'')
  then have IH: "spaced (unat (trigger_delay env)) (sent_blocks trace) nd'" by (simp add: allowed_blocks_append)
  have excl: "exclusive deadline nd'"
    by (rule run_exclusive [OF assms _ step.hyps(1) step.prems(1)]) (simp add: orderly_def)
  have "checks_current nd'" using run_ok [OF step.hyps(1)] by (simp add: orderly_def)
  moreover have "\<forall>i < length (workers nd'). unat (block_of nd' i) + unat (trigger_delay env) < 2 ^ 32"
    using run_worker_blocks [OF step.hyps(1)] step.prems by (simp add: idle_def allowed_blocks_append)
  ultimately show ?case using step_spaced [OF step.hyps(2) excl _ IH] by simp
qed

text \<open>C20: Mutual exclusion and spacing over time: as long as no run holds the lock for longer than
  \<open>OCW_LOCK_DURATION\<close>, at most one run is between taking and releasing the lock at any time, whatever
  the order of the steps. If moreover no run takes the lock on a check that has become outdated, the
  blocks of the runs that submit are at least the trigger delay apart.\<close>

theorem prompt_runs_exclude:
  assumes "lock_contract ops deadline" "idle deadline nd"
  shows "(\<forall>trace nd' i j. node_run env ops prompt nd trace nd' \<and>
       held_since nd' i \<noteq> None \<and> held_since nd' j \<noteq> None \<longrightarrow> i = j) \<and>
     (\<forall>trace nd'. node_run env ops orderly nd trace nd' \<and>
       (\<forall>b \<in> allowed_blocks trace. unat b + unat (trigger_delay env) < 2 ^ 32) \<longrightarrow>
       sorted_wrt (\<lambda>b b'. unat b + unat (trigger_delay env) \<le> unat b') (sent_blocks trace))"
proof (intro conjI allI impI)
  fix trace nd' i j
  assume "node_run env ops prompt nd trace nd' \<and> held_since nd' i \<noteq> None \<and> held_since nd' j \<noteq> None"
  moreover from this have "exclusive deadline nd'" using run_exclusive [OF assms(1) _ _ assms(2)] by blast
  ultimately show "i = j" unfolding exclusive_def by blast
next
  fix trace nd'
  assume "node_run env ops orderly nd trace nd' \<and> (\<forall>b \<in> allowed_blocks trace. unat b + unat (trigger_delay env) < 2 ^ 32)"
  with run_spaced [OF assms(1) _ assms(2)] spacedD(4)
  show "sorted_wrt (\<lambda>b b'. unat b + unat (trigger_delay env) \<le> unat b') (sent_blocks trace)" by blast
qed

section \<open>The trigger after the last run\<close>

lemma run_trigger:
  "node_run env ops ok nd trace nd' \<Longrightarrow> \<forall>b. Bumped b \<notin> set trace \<Longrightarrow>
     next_offchain_trigger (local nd') = next_offchain_trigger (local nd)"
proof (induction rule: node_run.induct)
  case (step nd trace nd' e nd'')
  from step.hyps(2) have "next_offchain_trigger (local nd'') = next_offchain_trigger (local nd')"
  proof cases
    case (locks t i ls)
    then show ?thesis by (auto elim: worker_lock_Some)
  qed (use step.prems in \<open>auto simp: worker_release_def\<close>)
  with step show ?case by simp
qed simp

text \<open>C19: Rate limiting, whatever happens on the node, runs that overlap, outlast the lock or panic
  included: once a run has set the trigger, and until another one sets it again, a block's worker
  passes the check exactly when its block is at least the configured delay after that run's.\<close>

theorem worker_rate_limited:
  assumes "node_run env ops ok nd (us @ Bumped b # vs @ e # ws) nd'"
    and "e \<in> {Allowed b', TooEarly b'}" "\<forall>c. Bumped c \<notin> set vs" "unat b + unat (trigger_delay env) < 2 ^ 32"
  shows "e = Allowed b' \<longleftrightarrow> unat b + unat (trigger_delay env) \<le> unat b'"
proof -
  from assms(1) obtain n1 n2 n3 n4 where run: "node_step env ops n1 (Bumped b) n2" "node_run env ops ok n2 vs n3"
    "node_step env ops n3 e n4" by (auto simp: run_append run_Cons)
  from run(1) obtain n where n: "rs_add (checks env) b (trigger_delay env) = Some n"
    "next_offchain_trigger (local n2) = Stored n"
    by cases (auto elim: worker_bump_Some)
  with run_trigger [OF run(2) assms(3)] have trigger: "next_offchain_trigger (local n3) = Stored n" by simp
  have "unat n = unat b + unat (trigger_delay env)" using rs_add_exact [OF n(1)] assms(4) by simp
  moreover have "e = Allowed b' \<longleftrightarrow> should_trigger_offchain (Stored n) b'"
    using run(3) assms(2) trigger by cases auto
  ultimately show ?thesis by (simp add: trigger_bound)
qed

section \<open>The lock ends by itself\<close>

lemma run_deadline:
  assumes "lock_contract ops deadline"
  shows "node_run env ops ok nd trace nd' \<Longrightarrow> idle deadline nd \<Longrightarrow>
     case deadline (ocw_lock (local nd')) of None \<Rightarrow> True | Some t \<Rightarrow> t \<le> clock nd' + OCW_LOCK_DURATION"
proof (induction rule: node_run.induct)
  case (step nd trace nd' e nd'')
  from step.hyps(2) step.IH [OF step.prems] show ?case
  proof cases
    case (locks t i ls)
    from locks(5) obtain l where "try_lock ops t OCW_LOCK_DURATION (ocw_lock (local nd')) = Some l"
      "ls = (local nd')\<lparr>ocw_lock := l\<rparr>" by (rule worker_lock_Some)
    with lock_contractD(2) [OF assms] locks(2) show ?thesis by simp
  next
    case (bumps t i t0 ls)
    from bumps(5) obtain n where "ls = (local nd')\<lparr>next_offchain_trigger := Stored n\<rparr>" by (rule worker_bump_Some)
    with step.IH [OF step.prems] bumps(2,3) show ?thesis by (auto split: option.splits)
  next
    case (releases t i t0)
    with lock_contractD(3) [OF assms] show ?thesis by (simp add: worker_release_def)
  qed (auto split: option.splits)
qed (simp add: idle_def)

lemma worker_lock_free:
  assumes "lock_contract ops deadline" "case deadline (ocw_lock ls) of None \<Rightarrow> True | Some t0 \<Rightarrow> t0 < t"
  obtains l where "worker_lock ops t ls = Some (ls\<lparr>ocw_lock := l\<rparr>)" "deadline l = Some (t + OCW_LOCK_DURATION)"
proof -
  have "try_lock ops t OCW_LOCK_DURATION (ocw_lock ls) \<noteq> None"
    using lock_contractD(1) [OF assms(1), of t OCW_LOCK_DURATION "ocw_lock ls"] assms(2)
    by (auto split: option.splits)
  then obtain l where "try_lock ops t OCW_LOCK_DURATION (ocw_lock ls) = Some l" by blast
  with that [of l] lock_contractD(2) [OF assms(1) this] show thesis by (simp add: worker_lock_def)
qed

text \<open>The steps with their results as hypotheses, for building runs.\<close>

lemma node_step_intros:
  "clock nd \<le> t \<Longrightarrow> should_trigger_offchain (next_offchain_trigger (local nd)) b \<Longrightarrow>
     nd' = join b st (nd\<lparr>clock := t\<rparr>) \<Longrightarrow> node_step env ops nd (Allowed b) nd'"
  "clock nd \<le> t \<Longrightarrow> at_phase nd i AtLock \<Longrightarrow> b = block_of nd i \<Longrightarrow> worker_lock ops t (local nd) = Some ls \<Longrightarrow>
     nd' = enter i (Fetching t) (nd\<lparr>clock := t, local := ls\<rparr>) \<Longrightarrow> node_step env ops nd (Locked b t) nd'"
  "at_phase nd i (Fetching t0) \<Longrightarrow> b = block_of nd i \<Longrightarrow> fetch_of env nd i = Some (r, txs) \<Longrightarrow>
     nd' = enter i (Bumping t0) nd \<Longrightarrow> node_step env ops nd (Sent b txs) nd'"
  "at_phase nd i (Bumping t0) \<Longrightarrow> b = block_of nd i \<Longrightarrow> worker_bump env b (local nd) = Some ls \<Longrightarrow>
     nd' = enter i (Releasing t0) (nd\<lparr>local := ls\<rparr>) \<Longrightarrow> node_step env ops nd (Bumped b) nd'"
  "at_phase nd i (Releasing t0) \<Longrightarrow> b = block_of nd i \<Longrightarrow>
     nd' = enter i Over (nd\<lparr>local := worker_release ops (local nd)\<rparr>) \<Longrightarrow> node_step env ops nd (Released b) nd'"
  "at_phase nd i (Fetching t0) \<Longrightarrow> b = block_of nd i \<Longrightarrow> fetch_of env nd i = None \<Longrightarrow>
     nd' = enter i Over nd \<Longrightarrow> node_step env ops nd (Panicked b) nd'"
  using node_step.allows [of nd t b env ops st] node_step.locks [of nd t i ops ls env]
    node_step.sends [of nd "clock nd" i t0 env r txs ops] node_step.bumps [of nd "clock nd" i t0 env ls ops]
    node_step.releases [of nd "clock nd" i t0 env ops] node_step.panics [of nd "clock nd" i t0 env ops]
  by simp_all

text \<open>C21: Nothing blocks the workers for good: whatever happened on the node, a panic under the lock
  included, once more than \<open>OCW_LOCK_DURATION\<close> has passed a new worker passes the check and takes the
  lock exactly when the trigger block allows it. The same holds while a slow run is still under way:
  it no longer excludes others.\<close>

theorem lock_expires:
  assumes "lock_contract ops deadline" "idle deadline nd" "node_run env ops ok nd trace nd'"
    and "clock nd' + OCW_LOCK_DURATION < t"
  shows "(\<exists>nd''. node_run env ops (\<lambda>_. True) nd' [Allowed b, Locked b t] nd'') \<longleftrightarrow>
     should_trigger_offchain (next_offchain_trigger (local nd')) b"
proof
  assume "\<exists>nd''. node_run env ops (\<lambda>_. True) nd' [Allowed b, Locked b t] nd''"
  then show "should_trigger_offchain (next_offchain_trigger (local nd')) b"
    by (auto simp: run_Cons elim: allowed_stepE)
next
  assume allowed: "should_trigger_offchain (next_offchain_trigger (local nd')) b"
  have "case deadline (ocw_lock (local nd')) of None \<Rightarrow> True | Some t0 \<Rightarrow> t0 < t"
    using run_deadline [OF assms(1,3,2)] assms(4) by (auto split: option.splits)
  then obtain l where l: "worker_lock ops t (local nd') = Some ((local nd')\<lparr>ocw_lock := l\<rparr>)"
    by (rule worker_lock_free [OF assms(1)])
  let ?n = "join b undefined (nd'\<lparr>clock := t\<rparr>)"
  have "node_step env ops nd' (Allowed b) ?n"
    using assms(4) allowed by (intro node_step_intros(1)) simp_all
  moreover have "node_step env ops ?n (Locked b t) (enter (length (workers nd')) (Fetching t) (?n\<lparr>clock := t, local := (local nd')\<lparr>ocw_lock := l\<rparr>\<rparr>))"
    using l by (intro node_step_intros(2)) (simp_all add: phase_join join_nth)
  ultimately show "\<exists>nd''. node_run env ops (\<lambda>_. True) nd' [Allowed b, Locked b t] nd''"
    by (auto simp: run_Cons)
qed

section \<open>A slow run\<close>

text \<open>C37: How long the lock excludes: let the run of one block take the lock at \<open>t0\<close> and still be fetching
  when a second run, that passed the check meanwhile, tries the lock at \<open>t1\<close>. The second run gets the
  lock, and then both submit, exactly when more than 100 milliseconds lie between, whatever blocks the
  two are for. (The code allows every single price request two seconds.)\<close>

theorem slow_runs_overlap:
  assumes "lock_contract ops deadline" "idle deadline nd" "clock nd \<le> t0" "t0 \<le> t1"
    and "should_trigger_offchain (next_offchain_trigger (local nd)) b"
      "should_trigger_offchain (next_offchain_trigger (local nd)) b'"
    and "fetch_prices_and_update_best_paths env b st = Some (r, txs)"
      "fetch_prices_and_update_best_paths env b' st' = Some (r', txs')"
  shows "(\<exists>nd'. node_run env ops (\<lambda>_. True) nd
       [Allowed b, Locked b t0, Allowed b', Locked b' t1, Sent b txs, Sent b' txs'] nd') \<longleftrightarrow> t0 + 100 < t1"
proof
  assume "\<exists>nd'. node_run env ops (\<lambda>_. True) nd
       [Allowed b, Locked b t0, Allowed b', Locked b' t1, Sent b txs, Sent b' txs'] nd'"
  then obtain n1 n2 n3 n4 where run: "node_step env ops n1 (Locked b t0) n2" "node_step env ops n2 (Allowed b') n3"
    "node_step env ops n3 (Locked b' t1) n4" by (auto simp: run_Cons)
  from run(1) obtain l where "deadline (ocw_lock (local n2)) = Some (t0 + OCW_LOCK_DURATION)"
    using lock_contractD(2) [OF assms(1)] by (auto elim!: locked_stepE worker_lock_Some)
  with run(2) have "deadline (ocw_lock (local n3)) = Some (t0 + OCW_LOCK_DURATION)" by (auto elim: allowed_stepE)
  moreover from run(3) have "try_lock ops t1 OCW_LOCK_DURATION (ocw_lock (local n3)) \<noteq> None"
    by (auto elim!: locked_stepE worker_lock_Some)
  ultimately show "t0 + 100 < t1"
    using lock_contractD(1) [OF assms(1), of t1 OCW_LOCK_DURATION "ocw_lock (local n3)"]
    by (auto simp: OCW_LOCK_DURATION_def not_le)
next
  assume late: "t0 + 100 < t1"
  have [simp]: "workers nd = []" "deadline (ocw_lock (local nd)) = None" using assms(2) by (simp_all add: idle_def)
  obtain l where l: "worker_lock ops t0 (local nd) = Some ((local nd)\<lparr>ocw_lock := l\<rparr>)" "deadline l = Some (t0 + OCW_LOCK_DURATION)"
    by (rule worker_lock_free [OF assms(1), where ls = "local nd" and t = t0]) simp_all
  obtain l' where l': "worker_lock ops t1 ((local nd)\<lparr>ocw_lock := l\<rparr>) = Some ((local nd)\<lparr>ocw_lock := l'\<rparr>)"
    by (rule worker_lock_free [OF assms(1), where ls = "(local nd)\<lparr>ocw_lock := l\<rparr>" and t = t1]) (use late in \<open>simp_all add: l(2) OCW_LOCK_DURATION_def\<close>)
  let ?n1 = "join b st (nd\<lparr>clock := t0\<rparr>)"
  let ?n2 = "enter 0 (Fetching t0) (?n1\<lparr>clock := t0, local := (local nd)\<lparr>ocw_lock := l\<rparr>\<rparr>)"
  let ?n3 = "join b' st' (?n2\<lparr>clock := t1\<rparr>)"
  let ?n4 = "enter 1 (Fetching t1) (?n3\<lparr>clock := t1, local := (local nd)\<lparr>ocw_lock := l'\<rparr>\<rparr>)"
  let ?n5 = "enter 0 (Bumping t0) ?n4"
  let ?n6 = "enter 1 (Bumping t1) ?n5"
  note facts = phase_join phase_enter join_nth enter_nth
  have "node_step env ops nd (Allowed b) ?n1" using assms(3,5) by (intro node_step_intros(1)) simp_all
  moreover have "node_step env ops ?n1 (Locked b t0) ?n2" using l(1) by (intro node_step_intros(2)) (simp_all add: facts)
  moreover have "node_step env ops ?n2 (Allowed b') ?n3" using assms(4,6) by (intro node_step_intros(1)) simp_all
  moreover have "node_step env ops ?n3 (Locked b' t1) ?n4" using l' by (intro node_step_intros(2)) (simp_all add: facts)
  moreover have "node_step env ops ?n4 (Sent b txs) ?n5" using assms(7) by (intro node_step_intros(3)) (simp_all add: facts)
  moreover have "node_step env ops ?n5 (Sent b' txs') ?n6" using assms(8) by (intro node_step_intros(3)) (simp_all add: facts)
  ultimately show "\<exists>nd'. node_run env ops (\<lambda>_. True) nd
       [Allowed b, Locked b t0, Allowed b', Locked b' t1, Sent b txs, Sent b' txs'] nd'"
    by (simp only: run_Cons run_Nil) blast
qed

section \<open>An outdated check\<close>

lemma worker_bump_fits:
  "unat b + unat (trigger_delay env) < 2 ^ 32 \<Longrightarrow>
     worker_bump env b ls = Some (ls\<lparr>next_offchain_trigger := Stored (b + trigger_delay env)\<rparr>)"
  by (simp add: worker_bump_def rs_add_fits)


section \<open>Sample runs\<close>

text \<open>A node whose runs are all over, and one more run on it from the check to the release.\<close>

definition quiet :: "('l \<Rightarrow> nat option) \<Rightarrow> ('acc, 'l) node_state \<Rightarrow> bool" where
  "quiet deadline nd \<longleftrightarrow> deadline (ocw_lock (local nd)) = None \<and>
     (\<forall>i. held_since nd i = None \<and> \<not> at_phase nd i AtLock)"

lemma idle_quiet: "idle deadline nd \<Longrightarrow> quiet deadline nd"
  by (simp add: idle_def quiet_def held_since_def at_phase_def)

lemma round_run:
  assumes "lock_contract ops deadline" "quiet deadline nd" "clock nd \<le> t"
    and "should_trigger_offchain (next_offchain_trigger (local nd)) b"
    and "fetch_prices_and_update_best_paths env b st = Some (r, txs)" "unat b + unat (trigger_delay env) < 2 ^ 32"
  obtains nd' where "node_run env ops orderly nd [Allowed b, Locked b t, Sent b txs, Bumped b, Released b] nd'"
    "quiet deadline nd'" "clock nd' = t" "next_offchain_trigger (local nd') = Stored (b + trigger_delay env)"
proof -
  have free: "deadline (ocw_lock (local nd)) = None" "held_since nd i = None" "\<not> at_phase nd i AtLock" for i
    using assms(2) by (simp_all add: quiet_def)
  obtain l where l: "worker_lock ops t (local nd) = Some ((local nd)\<lparr>ocw_lock := l\<rparr>)"
    by (rule worker_lock_free [OF assms(1), where ls = "local nd" and t = t]) (simp_all add: free)
  let ?i = "length (workers nd)"
  let ?s1 = "(local nd)\<lparr>ocw_lock := l\<rparr>"
  let ?s2 = "?s1\<lparr>next_offchain_trigger := Stored (b + trigger_delay env)\<rparr>"
  let ?n1 = "join b st (nd\<lparr>clock := t\<rparr>)"
  let ?n2 = "enter ?i (Fetching t) (?n1\<lparr>clock := t, local := ?s1\<rparr>)"
  let ?n3 = "enter ?i (Bumping t) ?n2"
  let ?n4 = "enter ?i (Releasing t) (?n3\<lparr>local := ?s2\<rparr>)"
  let ?n5 = "enter ?i Over (?n4\<lparr>local := worker_release ops ?s2\<rparr>)"
  note facts = phase_join phase_enter join_nth enter_nth
  have "node_step env ops nd (Allowed b) ?n1" using assms(3,4) by (intro node_step_intros(1)) simp_all
  moreover have "node_step env ops ?n1 (Locked b t) ?n2" using l by (intro node_step_intros(2)) (simp_all add: facts)
  moreover have "node_step env ops ?n2 (Sent b txs) ?n3" using assms(5) by (intro node_step_intros(3)) (simp_all add: facts)
  moreover have "node_step env ops ?n3 (Bumped b) ?n4"
    using worker_bump_fits [OF assms(6), of ?s1] by (intro node_step_intros(4)) (simp_all add: facts)
  moreover have "node_step env ops ?n4 (Released b) ?n5" by (intro node_step_intros(5)) (simp_all add: facts)
  moreover have "orderly nd" "orderly ?n1" "orderly ?n2" "orderly ?n3" "orderly ?n4" "orderly ?n5"
    using assms(4) by (simp_all add: orderly_def prompt_def checks_current_def held_enter facts free)
  ultimately have "node_run env ops orderly nd [Allowed b, Locked b t, Sent b txs, Bumped b, Released b] ?n5"
    by (simp only: run_Cons run_Nil) blast
  moreover have "quiet deadline ?n5"
    using lock_contractD(3) [OF assms(1)] by (simp add: quiet_def worker_release_def held_enter facts free)
  ultimately show thesis by (rule that) (simp_all add: worker_release_def)
qed

text \<open>A lock that fulfils the contract.\<close>

definition deadline_lock :: "nat option lock_ops" where
  "deadline_lock = \<lparr>try_lock = (\<lambda>now d l. case l of Some t \<Rightarrow> if now \<le> t then None else Some (Some (now + d))
       | None \<Rightarrow> Some (Some (now + d))), unlock = (\<lambda>_. None)\<rparr>"

lemma deadline_lock_contract: "lock_contract deadline_lock id"
  by (auto simp: lock_contract_def deadline_lock_def split: option.splits if_splits)

definition sample_node :: "(nat, nat option) node_state" where
  "sample_node = \<lparr>clock = 0, local = \<lparr>ocw_lock = None, next_offchain_trigger = Absent\<rparr>, workers = []\<rparr>"

lemma sample_node_idle: "idle id sample_node"
  by (simp add: idle_def sample_node_def)

lemma sample_node_allows: "should_trigger_offchain (next_offchain_trigger (local sample_node)) b"
  by (simp add: sample_node_def should_trigger_offchain_def)

definition sample_tx :: "u32 \<Rightarrow> (nat, nat, unit) call" where
  "sample_tx b = OcwSubmitBestPathsChanges ((sample_payload sample_changes)\<lparr>payload_block := b\<rparr>) ()"

lemma sample_fetch: "fetch_prices_and_update_best_paths sample_env b sample_monitored = Some (Inr (), [sample_tx b])"
  by (simp add: fetch_prices_and_update_best_paths_def sample_fetched sample_changes_found submit_changes_def)
    (simp add: sample_tx_def sample_changes_def sample_env_def sample_payload_def sample_monitored_def sample_storage_def)

definition round_events :: "u32 \<Rightarrow> (nat, nat, unit) node_event list" where
  "round_events b = [Allowed b, Locked b 0, Sent b [sample_tx b], Bumped b, Released b]"

lemma sample_rounds:
  obtains nd where "node_run sample_env deadline_lock orderly sample_node (round_events 10 @ round_events 15) nd"
proof -
  have delay: "trigger_delay sample_env = 5" by (simp add: sample_env_def)
  have start: "clock sample_node \<le> 0" by (simp add: sample_node_def)
  obtain n1 where n1: "node_run sample_env deadline_lock orderly sample_node (round_events 10) n1" "quiet id n1" "clock n1 = 0"
    "next_offchain_trigger (local n1) = Stored (10 + 5)"
    unfolding round_events_def
    by (rule round_run [OF deadline_lock_contract idle_quiet [OF sample_node_idle] start sample_node_allows sample_fetch [of 10]])
      (simp_all add: delay)
  obtain n2 where "node_run sample_env deadline_lock orderly n1 (round_events 15) n2"
    unfolding round_events_def
    by (rule round_run [OF deadline_lock_contract n1(2) _ _ sample_fetch, of 0 15])
      (simp_all add: delay n1(3,4) should_trigger_offchain_def)
  with n1(1) that show thesis unfolding run_append by blast
qed

theorem prompt_runs_exclude_witness:
  "\<exists>nd. node_run sample_env deadline_lock orderly sample_node (round_events 10 @ round_events 15) nd \<and>
     sorted_wrt (\<lambda>b b'. unat b + 5 \<le> unat b') [10, 15 :: u32]"
proof -
  obtain nd where run: "node_run sample_env deadline_lock orderly sample_node (round_events 10 @ round_events 15) nd"
    by (rule sample_rounds)
  have "\<forall>b \<in> allowed_blocks (round_events 10 @ round_events 15). unat b + unat (trigger_delay sample_env) < 2 ^ 32"
    by (auto simp: allowed_blocks_def round_events_def sample_env_def)
  with prompt_runs_exclude [OF deadline_lock_contract sample_node_idle, of sample_env] run
  have "sorted_wrt (\<lambda>b b'. unat b + unat (trigger_delay sample_env) \<le> unat b')
      (sent_blocks (round_events 10 @ round_events 15))" by blast
  moreover have "sent_blocks (round_events 10 @ round_events 15) = [10, 15]"
    by (simp add: round_events_def sent_block_def)
  moreover have "unat (trigger_delay sample_env) = 5" by (simp add: sample_env_def)
  ultimately show ?thesis using run by (intro exI conjI) simp_all
qed

theorem worker_rate_limited_witness:
  "\<exists>nd. node_run sample_env deadline_lock orderly sample_node (round_events 10 @ round_events 15) nd \<and>
     unat (10 :: u32) + unat (trigger_delay sample_env) \<le> unat (15 :: u32)"
proof -
  obtain nd where run: "node_run sample_env deadline_lock orderly sample_node (round_events 10 @ round_events 15) nd"
    by (rule sample_rounds)
  have split: "round_events 10 @ round_events 15 =
      [Allowed 10, Locked 10 0, Sent 10 [sample_tx 10]] @ Bumped 10 # [Released 10] @ Allowed 15 #
        [Locked 15 0, Sent 15 [sample_tx 15], Bumped 15, Released 15]"
    by (simp add: round_events_def)
  have "unat (10 :: u32) + unat (trigger_delay sample_env) < 2 ^ 32" by (simp add: sample_env_def)
  from worker_rate_limited [OF run [unfolded split], of 15] this run show ?thesis by auto
qed

text \<open>A worker that panics under the lock: the stored best path has cost zero.\<close>

definition sample_zero :: "nat storage" where
  "sample_zero = sample_monitored\<lparr>best_paths := [(BTC, USD) \<mapsto> \<lparr>total_cost = 0, steps = []\<rparr>]\<rparr>"

lemma sample_zero_panics: "fetch_prices_and_update_best_paths sample_env b sample_zero = None"
proof -
  have "fetched_pairs sample_env sample_zero = Some [(ProviderPair (Pair BTC USD) CRYPTOCOMPARE, 7)]"
    by (simp add: fetched_pairs_def sample_env_def sample_zero_def sample_monitored_def)
  moreover have "best_path_changes sample_env sample_zero [(Pair BTC USD, sample_path)] = None"
    by (simp add: best_path_changes_def stored_entries_def sample_env_def sample_zero_def sample_monitored_def
        sample_path_def bm_get_def breaches_tolerance_unat)
  ultimately show ?thesis by (simp add: fetch_prices_and_update_best_paths_def sample_fetched(2))
qed

lemma sample_panic:
  obtains nd where "node_run sample_env deadline_lock (\<lambda>_. True) sample_node [Allowed 10, Locked 10 0, Panicked 10] nd"
    "clock nd = 0" "next_offchain_trigger (local nd) = Absent"
proof -
  let ?ls = "\<lparr>ocw_lock = Some 100, next_offchain_trigger = Absent\<rparr>"
  let ?n1 = "join 10 sample_zero (sample_node\<lparr>clock := 0\<rparr>)"
  let ?n2 = "enter 0 (Fetching 0) (?n1\<lparr>clock := 0, local := ?ls\<rparr>)"
  let ?n3 = "enter 0 Over ?n2"
  note facts = phase_join phase_enter join_nth enter_nth
  have empty: "workers sample_node = []" "clock sample_node = 0" by (simp_all add: sample_node_def)
  have "worker_lock deadline_lock 0 (local sample_node) = Some ?ls"
    by (simp add: worker_lock_def deadline_lock_def OCW_LOCK_DURATION_def sample_node_def)
  then have "node_step sample_env deadline_lock ?n1 (Locked 10 0) ?n2"
    by (intro node_step_intros(2)) (simp_all add: facts empty)
  moreover have "node_step sample_env deadline_lock ?n2 (Panicked 10) ?n3"
    by (intro node_step_intros(6)) (simp_all add: facts empty sample_zero_panics)
  moreover have "node_step sample_env deadline_lock sample_node (Allowed 10) ?n1"
    by (intro node_step_intros(1)) (simp_all only: sample_node_allows empty)
  ultimately have "node_run sample_env deadline_lock (\<lambda>_. True) sample_node [Allowed 10, Locked 10 0, Panicked 10] ?n3"
    by (simp only: run_Cons run_Nil) blast
  then show thesis by (rule that) simp_all
qed

theorem lock_expires_witness:
  "\<exists>nd nd'. node_run sample_env deadline_lock (\<lambda>_. True) sample_node [Allowed 10, Locked 10 0, Panicked 10] nd \<and>
     node_run sample_env deadline_lock (\<lambda>_. True) nd [Allowed 11, Locked 11 101] nd'"
proof -
  obtain nd where run: "node_run sample_env deadline_lock (\<lambda>_. True) sample_node [Allowed 10, Locked 10 0, Panicked 10] nd"
    and nd: "clock nd = 0" "next_offchain_trigger (local nd) = Absent" by (rule sample_panic)
  from lock_expires [OF deadline_lock_contract sample_node_idle run, of 101 11] run nd show ?thesis
    by (auto simp: OCW_LOCK_DURATION_def should_trigger_offchain_def)
qed

theorem slow_runs_overlap_witness:
  "\<exists>nd. node_run sample_env deadline_lock (\<lambda>_. True) sample_node
     [Allowed 10, Locked 10 0, Allowed 11, Locked 11 2000, Sent 10 [sample_tx 10], Sent 11 [sample_tx 11]] nd"
  using slow_runs_overlap [OF deadline_lock_contract sample_node_idle _ _ sample_node_allows sample_node_allows
      sample_fetch sample_fetch, of 0 2000]
  by (simp add: sample_node_def)


end
