(* ===== verification/Chain.thy ===== *)
theory Chain
  imports Pallet_Results
begin

text \<open>
  The pallet on a chain: blocks, the extrinsics they hold, and every state the storage can reach.
  An unsigned extrinsic is executed only if it validates in the block that holds it (the default
  \<open>pre_dispatch\<close> of \<open>ValidateUnsigned\<close>), a signed one with the origin of its signer, and a call of
  root through the \<open>Sudo\<close> pallet of the runtime. A failing call leaves the storage as it was; a call
  that panics is in no block. The events are cleared when a block begins. Then what holds of all runs:
  the nonces and the origin of stored paths, replay, and how long a submission stays valid.
\<close>

section \<open>The step relation\<close>

record ('acc, 'pub, 'sig) chain_env =
  overflow_checks :: bool
  log_info :: bool
  verify_payload :: "'pub payload \<Rightarrow> 'sig \<Rightarrow> bool"
  account_of :: "'pub \<Rightarrow> 'acc"
  max_pool_stay :: u32
  unsigned_priority :: u64

record 'acc chain =
  block_number :: u32
  store :: "'acc storage"

datatype ('acc, 'pub, 'sig) label =
    Executed "'acc origin" "('acc, 'pub, 'sig) call"
  | Failed "'acc origin" "('acc, 'pub, 'sig) call"
  | NextBlock

definition valid_in_block :: "('acc, 'pub, 'sig) chain_env \<Rightarrow> 'acc chain \<Rightarrow> ('acc, 'pub, 'sig) call \<Rightarrow> bool" where
  "valid_in_block env s c =
     (case validate_unsigned (overflow_checks env) (verify_payload env) (account_of env) (max_pool_stay env)
        (unsigned_priority env) (block_number s) c (store s) of Some (Inr _) \<Rightarrow> True | _ \<Rightarrow> False)"

inductive chain_step ::
  "('acc, 'pub, 'sig) chain_env \<Rightarrow> 'acc chain \<Rightarrow> ('acc, 'pub, 'sig) label \<Rightarrow> 'acc chain \<Rightarrow> bool"
  for env where
  executed: "dispatch (overflow_checks env) (log_info env) origin c (store s) = Some (Inr st') \<Longrightarrow>
     (origin = NoOrigin \<longrightarrow> valid_in_block env s c) \<Longrightarrow>
     chain_step env s (Executed origin c) (s\<lparr>store := st'\<rparr>)"
| failed: "dispatch (overflow_checks env) (log_info env) origin c (store s) = Some (Inl err) \<Longrightarrow>
     (origin = NoOrigin \<longrightarrow> valid_in_block env s c) \<Longrightarrow>
     chain_step env s (Failed origin c) s"
| next_block: "chain_step env s NextBlock
     (s\<lparr>block_number := block_number s + 1, store := (store s)\<lparr>events := []\<rparr>\<rparr>)"

inductive_cases executed_stepE: "chain_step env s (Executed origin c) s'"
inductive_cases failed_stepE: "chain_step env s (Failed origin c) s'"
inductive_cases next_block_stepE: "chain_step env s NextBlock s'"

text \<open>A run with the labels of its steps, the latest last.\<close>

inductive chain_run ::
  "('acc, 'pub, 'sig) chain_env \<Rightarrow> 'acc chain \<Rightarrow> ('acc, 'pub, 'sig) label list \<Rightarrow> 'acc chain \<Rightarrow> bool"
  for env where
  start: "chain_run env s [] s"
| step: "chain_run env s trace s' \<Longrightarrow> chain_step env s' l s'' \<Longrightarrow> chain_run env s (trace @ [l]) s''"

definition chain_reachable :: "('acc, 'pub, 'sig) chain_env \<Rightarrow> 'acc chain \<Rightarrow> 'acc chain \<Rightarrow> bool" where
  "chain_reachable env s s' \<longleftrightarrow> (\<exists>trace. chain_run env s trace s')"

text \<open>The payloads executed in a run, and the accounts that root put on the whitelist.\<close>

definition submission :: "('acc, 'pub, 'sig) label \<Rightarrow> ('pub payload \<times> 'sig) list" where
  "submission l = (case l of Executed NoOrigin (OcwSubmitBestPathsChanges payload sig) \<Rightarrow> [(payload, sig)] | _ \<Rightarrow> [])"

definition submissions :: "('acc, 'pub, 'sig) label list \<Rightarrow> ('pub payload \<times> 'sig) list" where
  "submissions trace = concat (map submission trace)"

definition authorised :: "('acc, 'pub, 'sig) label list \<Rightarrow> 'acc set" where
  "authorised trace = {a. Executed Root (AddWhitelistedOffchainAuthority a) \<in> set trace}"

lemma submissions_simps [simp]:
  "submissions [] = []" "submissions (trace @ [l]) = submissions trace @ submission l"
  by (simp_all add: submissions_def)

section \<open>One step\<close>

lemma validate_unsigned_whitelist:
  "whitelisted st' = whitelisted st \<Longrightarrow>
     validate_unsigned checks verify into_account max_stay prio now c st' =
     validate_unsigned checks verify into_account max_stay prio now c st"
  by (simp only: validate_unsigned_def)

lemma valid_in_blockD:
  assumes "valid_in_block env s c"
  obtains payload sig where "c = OcwSubmitBestPathsChanges payload sig" "verify_payload env payload sig"
    "whitelisted (store s) (account_of env (public payload)) \<noteq> None"
    "overflow_checks env \<or> block_number s \<le> payload_block payload + max_pool_stay env"
  using assms
  by (auto simp: valid_in_block_def validate_unsigned_def rs_add_def not_less
      split: call.splits if_splits option.splits sum.splits Option.bind_splits)

lemma step_submission:
  assumes "chain_step env s l s'" "submission l = [(payload, sig)]"
  shows "payload_nonce payload = unsigned_tx_nonce (store s)"
    "unsigned_tx_nonce (store s') = unsigned_tx_nonce (store s) + 1"
    "verify_payload env payload sig" "whitelisted (store s) (account_of env (public payload)) \<noteq> None"
    "best_paths (store s') = changed_paths (changes payload) (best_paths (store s))"
proof -
  from assms(2) have l: "l = Executed NoOrigin (OcwSubmitBestPathsChanges payload sig)"
    by (auto simp: submission_def split: label.splits origin.splits call.splits)
  with assms(1) obtain st' where
    d: "ocw_submit_best_paths_changes (overflow_checks env) (log_info env) NoOrigin payload (store s) = Some (Inr st')"
    and v: "valid_in_block env s (OcwSubmitBestPathsChanges payload sig)" and s': "s' = s\<lparr>store := st'\<rparr>"
    by (auto elim!: executed_stepE simp: dispatch_def)
  from v show "verify_payload env payload sig" "whitelisted (store s) (account_of env (public payload)) \<noteq> None"
    by (auto elim: valid_in_blockD)
  from d obtain paths evs where p: "unsigned_tx_nonce (store s) = payload_nonce payload"
    "apply_changes (log_info env) (changes payload) (best_paths (store s), []) = Some (paths, evs)"
    "st' = (store s)\<lparr>best_paths := paths, unsigned_tx_nonce := unsigned_tx_nonce (store s) + 1,
       events := events (store s) @ (if evs = [] then [] else [BestPricesSubmitted evs])\<rparr>"
    by (rule ocw_submit_success)
  then show "payload_nonce payload = unsigned_tx_nonce (store s)"
    "unsigned_tx_nonce (store s') = unsigned_tx_nonce (store s) + 1" by (simp_all add: s')
  show "best_paths (store s') = changed_paths (changes payload) (best_paths (store s))"
    using apply_changes_Some [OF p(2)] by (simp add: s' p(3))
qed

lemma step_other:
  assumes "chain_step env s l s'" "submission l = []"
  shows "best_paths (store s') = best_paths (store s) \<and> unsigned_tx_nonce (store s') = unsigned_tx_nonce (store s)"
  using assms(1)
proof cases
  case (executed origin c st')
  from executed(3) assms(2) executed(1) have "best_paths st' = best_paths (store s) \<and>
      unsigned_tx_nonce st' = unsigned_tx_nonce (store s)"
    by (cases rule: dispatch_cases) (auto simp: submission_def)
  with executed(2) show ?thesis by simp
qed simp_all

lemma step_whitelist:
  assumes "chain_step env s l s'"
  shows "dom (whitelisted (store s')) = dom (whitelisted (store s)) \<union> authorised [l]"
  using assms
proof cases
  case (executed origin c st')
  from executed(3) have "dom (whitelisted st') = dom (whitelisted (store s)) \<union> authorised [l]"
    by (cases rule: dispatch_cases) (auto simp: authorised_def executed(1))
  with executed(2) show ?thesis by simp
qed (auto simp: authorised_def)

lemma submission_length: "submission l = [] \<or> (\<exists>payload sig. submission l = [(payload, sig)])"
  by (auto simp: submission_def split: label.split origin.split call.split)

lemma submission_cases:
  obtains (none) "submission l = []" | (one) payload sig where "submission l = [(payload, sig)]"
  using submission_length [of l] by blast

lemma authorised_append: "authorised (trace @ [l]) = authorised trace \<union> authorised [l]"
  by (auto simp: authorised_def)

section \<open>Every run\<close>

lemma run_whitelist:
  "chain_run env s trace s' \<Longrightarrow> dom (whitelisted (store s')) = dom (whitelisted (store s)) \<union> authorised trace"
proof (induction rule: chain_run.induct)
  case (step s trace s' l s'')
  then show ?case using step_whitelist [OF step.hyps(2)] authorised_append [of trace l] by auto
qed (simp add: authorised_def)

definition sample_chain_env :: "(nat, nat, unit) chain_env" where
  "sample_chain_env = \<lparr>overflow_checks = True, log_info = True, verify_payload = (\<lambda>_ _. True), account_of = id,
     max_pool_stay = 5, unsigned_priority = 0\<rparr>"

definition sample_chain :: "nat chain" where
  "sample_chain = \<lparr>block_number = 12, store = sample_storage\<rparr>"

abbreviation sample_submit :: "(nat, nat, unit) call" where
  "sample_submit \<equiv> OcwSubmitBestPathsChanges (sample_payload [(BTC, USD, Some \<lparr>total_cost = 5, steps = []\<rparr>)]) ()"

lemma sample_chain_run:
  obtains s' where "chain_run sample_chain_env sample_chain [Executed NoOrigin sample_submit] s'"
    "best_paths (store s') (BTC, USD) = Some \<lparr>total_cost = 5, steps = []\<rparr>"
proof -
  have valid: "valid_in_block sample_chain_env sample_chain sample_submit"
    by (simp add: valid_in_block_def validate_unsigned_def sample_chain_env_def sample_chain_def sample_storage_def
        sample_payload_def rs_add_def)
  obtain st' where "dispatch (overflow_checks sample_chain_env) (log_info sample_chain_env) NoOrigin sample_submit
      (store sample_chain) = Some (Inr st')" "best_paths st' (BTC, USD) = Some \<lparr>total_cost = 5, steps = []\<rparr>"
    by (simp add: dispatch_def ocw_submit_best_paths_changes_def ensure_none_def sample_payload_def sample_storage_def
        sample_chain_def sample_chain_env_def apply_change_def rs_add_def deposit_event_def)
  with chain_run.step [OF chain_run.start chain_step.executed [OF this(1)]] valid that show thesis by simp
qed

lemma run_nonces:
  assumes "chain_run env s trace s'"
  shows "map (payload_nonce \<circ> fst) (submissions trace) =
       map (\<lambda>i. unsigned_tx_nonce (store s) + of_nat i) [0..<length (submissions trace)] \<and>
     unsigned_tx_nonce (store s') = unsigned_tx_nonce (store s) + of_nat (length (submissions trace))"
  using assms
proof (induction rule: chain_run.induct)
  case (step s trace s' l s'')
  show ?case
  proof (cases l rule: submission_cases)
    case none
    with step step_other [OF step.hyps(2)] show ?thesis by simp
  next
    case (one payload sig)
    with step step_submission(1,2) [OF step.hyps(2) one] show ?thesis by (simp add: add.assoc)
  qed
qed simp

text \<open>C11: Every payload executes at most once, and in nonce order: along any run from any state the
  nonces of the executed submissions count up by one from the stored nonce, without a gap, and
  the stored nonce is always the next one. (In a build with overflow checks the count cannot wrap.)\<close>

theorem submissions_in_nonce_order:
  assumes "chain_run env s trace s'"
  shows "map (payload_nonce \<circ> fst) (submissions trace) =
       map (\<lambda>i. unsigned_tx_nonce (store s) + of_nat i) [0..<length (submissions trace)] \<and>
     unsigned_tx_nonce (store s') = unsigned_tx_nonce (store s) + of_nat (length (submissions trace))"
  using run_nonces [OF assms] .

theorem submissions_in_nonce_order_witness:
  "\<exists>s'. chain_run sample_chain_env sample_chain [Executed NoOrigin sample_submit] s' \<and>
     unsigned_tx_nonce (store s') = 4"
proof -
  obtain s' where run: "chain_run sample_chain_env sample_chain [Executed NoOrigin sample_submit] s'"
    by (rule sample_chain_run)
  with submissions_in_nonce_order [OF run] show ?thesis
    by (auto simp: submissions_def submission_def sample_chain_def sample_storage_def)
qed

lemma stored_path_submitted:
  assumes "chain_run env s trace s'" "best_paths (store s') k = Some p" "best_paths (store s) k \<noteq> Some p"
  shows "\<exists>(payload, sig) \<in> set (submissions trace). verify_payload env payload sig \<and>
     (fst k, snd k, Some p) \<in> set (changes payload) \<and>
     account_of env (public payload) \<in> dom (whitelisted (store s)) \<union> authorised trace"
  using assms
proof (induction rule: chain_run.induct)
  case (step s trace s' l s'')
  show ?case
  proof (cases "best_paths (store s') k = Some p")
    case True
    with step show ?thesis by (fastforce simp: authorised_append [of trace l])
  next
    case False
    show ?thesis
    proof (cases l rule: submission_cases)
      case none
      with step.prems(1) False step_other [OF step.hyps(2)] show ?thesis by simp
    next
      case (one payload sig)
      note sub = step_submission [OF step.hyps(2) one]
      from sub(5) step.prems(1) False have "last_change (changes payload) k = Some (Some p)"
        by (auto simp: changed_paths_last split: option.splits)
      then have "(fst k, snd k, Some p) \<in> set (changes payload)"
        by (auto simp: last_change_def dest!: map_of_SomeD)
      moreover have "account_of env (public payload) \<in> dom (whitelisted (store s)) \<union> authorised trace"
        using sub(4) run_whitelist [OF step.hyps(1)] by auto
      ultimately show ?thesis using one sub(3) by (auto simp: authorised_append [of trace l])
    qed
  qed
qed simp

lemma run_submitters:
  "chain_run env s trace s' \<Longrightarrow> (payload, sig) \<in> set (submissions trace) \<Longrightarrow>
     account_of env (public payload) \<in> dom (whitelisted (store s)) \<union> authorised trace"
proof (induction rule: chain_run.induct)
  case (step s trace s' l s'')
  show ?case
  proof (cases l rule: submission_cases)
    case none
    with step show ?thesis by (auto simp: authorised_append [of trace l])
  next
    case (one payload' sig')
    with step step_submission(4) [OF step.hyps(2) one] run_whitelist [OF step.hyps(1)] show ?thesis
      by (auto simp: authorised_append [of trace l])
  qed
qed simp

text \<open>C10: Provenance of every price: a best path that is stored in any reachable state, and was not there
  at the start, was submitted in an executed payload with a valid signature by an account that
  was on the whitelist at the start or was put there by root during the run.\<close>

theorem best_paths_authorised:
  assumes "chain_run env s trace s'" "best_paths (store s') (a, b) = Some p" "best_paths (store s) (a, b) \<noteq> Some p"
  shows "\<exists>(payload, sig) \<in> set (submissions trace). verify_payload env payload sig \<and>
     (a, b, Some p) \<in> set (changes payload) \<and>
     account_of env (public payload) \<in> dom (whitelisted (store s)) \<union> authorised trace"
  using stored_path_submitted [OF assms] by simp

theorem best_paths_authorised_witness:
  "(BTC, USD, Some \<lparr>total_cost = 5, steps = []\<rparr>) \<in>
     set (changes (sample_payload [(BTC, USD, Some \<lparr>total_cost = 5, steps = []\<rparr>)])) \<and>
   7 \<in> dom (whitelisted (store sample_chain))"
proof -
  obtain s' where run: "chain_run sample_chain_env sample_chain [Executed NoOrigin sample_submit] s'"
    "best_paths (store s') (BTC, USD) = Some \<lparr>total_cost = 5, steps = []\<rparr>"
    by (rule sample_chain_run)
  from best_paths_authorised [OF this] show ?thesis
    by (simp add: submissions_def submission_def sample_chain_def sample_storage_def sample_chain_env_def
        sample_payload_def authorised_def)
qed

section \<open>Replay\<close>

text \<open>C24: Replay: validation does not look at the nonce, so a submission that has just been executed
  still validates in the same block, and may be included again; but executing it again fails with
  \<open>StaleUnsignedTxError\<close> and leaves the chain as it is.\<close>

theorem replay_fails:
  assumes "chain_step env s (Executed NoOrigin c) s'"
  shows "valid_in_block env s' c \<and> chain_step env s' (Failed NoOrigin c) s' \<and>
     dispatch (overflow_checks env) (log_info env) NoOrigin c (store s') = Some (Inl StaleUnsignedTxError)"
proof -
  from assms obtain st' where d: "dispatch (overflow_checks env) (log_info env) NoOrigin c (store s) = Some (Inr st')"
    and v: "valid_in_block env s c" and s': "s' = s\<lparr>store := st'\<rparr>"
    by (auto elim!: executed_stepE)
  from v obtain payload sig where c: "c = OcwSubmitBestPathsChanges payload sig" by (rule valid_in_blockD)
  with d have "ocw_submit_best_paths_changes (overflow_checks env) (log_info env) NoOrigin payload (store s) = Some (Inr st')"
    by (simp add: dispatch_def)
  then have st': "unsigned_tx_nonce st' = payload_nonce payload + 1" "whitelisted st' = whitelisted (store s)"
    by (rule ocw_submit_success, simp)+
  then have fails: "dispatch (overflow_checks env) (log_info env) NoOrigin c (store s') = Some (Inl StaleUnsignedTxError)"
    by (simp add: c s' dispatch_def ocw_submit_best_paths_changes_def ensure_none_def Let_def)
  have valid: "valid_in_block env s' c"
    using v by (simp add: s' valid_in_block_def validate_unsigned_whitelist [OF st'(2)])
  from valid fails chain_step.failed [OF fails] show ?thesis by blast
qed

theorem replay_fails_witness:
  "\<exists>s'. chain_step sample_chain_env s' (Failed NoOrigin sample_submit) s' \<and> valid_in_block sample_chain_env s' sample_submit"
proof -
  obtain s' where "chain_run sample_chain_env sample_chain ([] @ [Executed NoOrigin sample_submit]) s'"
    by (rule sample_chain_run) simp
  then obtain s'' where "chain_step sample_chain_env s'' (Executed NoOrigin sample_submit) s'"
    by (cases rule: chain_run.cases) auto
  from replay_fails [OF this] show ?thesis by blast
qed

section \<open>The life of a submission\<close>

text \<open>A submission's age: in every build it is compared with the sum of its block and the pool stay,
  which wraps where nothing checks it, and panics where something does.\<close>

definition young_enough :: "('acc, 'pub, 'sig) chain_env \<Rightarrow> 'acc chain \<Rightarrow> 'pub payload \<Rightarrow> bool" where
  "young_enough env s payload \<longleftrightarrow>
     unat (block_number s) \<le> (unat (payload_block payload) + unat (max_pool_stay env)) mod 2 ^ 32 \<and>
     (overflow_checks env \<longrightarrow> unat (payload_block payload) + unat (max_pool_stay env) < 2 ^ 32)"

lemma young_enough_limit:
  "(\<exists>limit. rs_add (overflow_checks env) (payload_block payload) (max_pool_stay env) = Some limit \<and>
     \<not> limit < block_number s) \<longleftrightarrow> young_enough env s payload"
  by (auto simp: rs_add_def young_enough_def not_less not_le word_le_nat_alt unat_word_ariths)

lemma validate_unsigned_Some:
  "validate_unsigned checks verify into_account max_stay prio now c st = Some (Inr v) \<longleftrightarrow>
     (\<exists>payload sig limit. c = OcwSubmitBestPathsChanges payload sig \<and> verify payload sig \<and>
        rs_add checks (payload_block payload) max_stay = Some limit \<and> \<not> limit < now \<and>
        whitelisted st (into_account (public payload)) \<noteq> None) \<and>
     v = \<lparr>tag_prefix = ''AggregatorWorker'', priority = prio, provides = [(TX_TAG, now)],
          longevity = 5, propagate = True\<rparr>"
  by (cases c) (auto simp: validate_unsigned_def split: Option.bind_splits)

lemma valid_in_block_iff:
  "valid_in_block env s c \<longleftrightarrow>
     (\<exists>payload sig. c = OcwSubmitBestPathsChanges payload sig \<and> verify_payload env payload sig \<and>
        young_enough env s payload \<and> whitelisted (store s) (account_of env (public payload)) \<noteq> None)"
proof -
  have "valid_in_block env s c \<longleftrightarrow> (\<exists>v. validate_unsigned (overflow_checks env) (verify_payload env) (account_of env)
      (max_pool_stay env) (unsigned_priority env) (block_number s) c (store s) = Some (Inr v))"
    by (auto simp: valid_in_block_def split: option.splits sum.splits)
  then show ?thesis unfolding validate_unsigned_Some young_enough_limit [symmetric] by blast
qed

text \<open>C17: Which unsigned transactions are valid, over every run of the chain and in builds with and without
  overflow checks: exactly the submissions that are correctly signed by an account on the whitelist at
  the start or put there by root in the run, and that are no older than the pool stay. So a valid
  submission stays valid, whatever else happens on the chain, until it is too old. And whatever is
  valid in a block provides the same tag, which names the block and neither the payload nor its
  nonce, for five blocks.\<close>

theorem valid_submissions:
  assumes "chain_run env s trace s'"
  shows "(valid_in_block env s' c \<longleftrightarrow>
       (\<exists>payload sig. c = OcwSubmitBestPathsChanges payload sig \<and> verify_payload env payload sig \<and>
          account_of env (public payload) \<in> dom (whitelisted (store s)) \<union> authorised trace \<and>
          unat (block_number s') \<le> (unat (payload_block payload) + unat (max_pool_stay env)) mod 2 ^ 32 \<and>
          (overflow_checks env \<longrightarrow> unat (payload_block payload) + unat (max_pool_stay env) < 2 ^ 32))) \<and>
     (\<forall>payload sig. valid_in_block env s (OcwSubmitBestPathsChanges payload sig) \<longrightarrow>
        (valid_in_block env s' (OcwSubmitBestPathsChanges payload sig) \<longleftrightarrow>
           unat (block_number s') \<le> (unat (payload_block payload) + unat (max_pool_stay env)) mod 2 ^ 32)) \<and>
     (\<forall>v. validate_unsigned (overflow_checks env) (verify_payload env) (account_of env) (max_pool_stay env)
          (unsigned_priority env) (block_number s') c (store s') = Some (Inr v) \<longrightarrow>
        provides v = [(TX_TAG, block_number s')] \<and> longevity v = 5 \<and> priority v = unsigned_priority env)"
proof -
  have "whitelisted (store s') a \<noteq> None \<longleftrightarrow> a \<in> dom (whitelisted (store s)) \<union> authorised trace" for a
    using run_whitelist [OF assms] by blast
  then have "valid_in_block env s' c \<longleftrightarrow>
      (\<exists>payload sig. c = OcwSubmitBestPathsChanges payload sig \<and> verify_payload env payload sig \<and>
         young_enough env s' payload \<and> account_of env (public payload) \<in> dom (whitelisted (store s)) \<union> authorised trace)" for c
    unfolding valid_in_block_iff by simp
  note valid = this
  show ?thesis
    unfolding valid validate_unsigned_Some by (auto simp: young_enough_def valid_in_block_iff)
qed

theorem valid_submissions_witness:
  "\<exists>s'. chain_run sample_chain_env sample_chain [Executed NoOrigin sample_submit] s' \<and>
     valid_in_block sample_chain_env s' (OcwSubmitBestPathsChanges ((sample_payload [])\<lparr>payload_block := 7\<rparr>) ())"
proof -
  obtain s' where run: "chain_run sample_chain_env sample_chain [Executed NoOrigin sample_submit] s'"
    "block_number s' = 12"
  proof -
    obtain s' where "chain_run sample_chain_env sample_chain ([] @ [Executed NoOrigin sample_submit]) s'"
      by (rule sample_chain_run) simp
    moreover from this have "block_number s' = 12"
      by (cases rule: chain_run.cases) (auto elim!: executed_stepE chain_run.cases simp: sample_chain_def)
    ultimately show thesis using that by simp
  qed
  have "account_of sample_chain_env (public ((sample_payload [])\<lparr>payload_block := 7\<rparr>)) \<in> dom (whitelisted (store sample_chain))"
    "verify_payload sample_chain_env ((sample_payload [])\<lparr>payload_block := 7\<rparr>) ()"
    "max_pool_stay sample_chain_env = 5"
    by (simp_all add: sample_chain_env_def sample_chain_def sample_storage_def sample_payload_def)
  then have "valid_in_block sample_chain_env s' (OcwSubmitBestPathsChanges ((sample_payload [])\<lparr>payload_block := 7\<rparr>) ())"
    using valid_submissions [OF run(1), THEN conjunct1, of "OcwSubmitBestPathsChanges ((sample_payload [])\<lparr>payload_block := 7\<rparr>) ()"]
      run(2) by simp
  with run(1) show ?thesis by blast
qed

section \<open>The storage stays finite\<close>

definition finite_storage :: "'acc storage \<Rightarrow> bool" where
  "finite_storage st \<longleftrightarrow> finite (dom (best_paths st)) \<and> finite (dom (monitored_pairs st)) \<and> finite (dom (whitelisted st))"

lemma changed_paths_dom: "dom (changed_paths cs paths) \<subseteq> dom paths \<union> (\<lambda>(s, t, _). (s, t)) ` set cs"
proof
  fix k
  assume "k \<in> dom (changed_paths cs paths)"
  then have "k \<in> dom paths \<or> last_change cs k \<noteq> None" by (auto simp: changed_paths_last split: option.splits)
  then show "k \<in> dom paths \<union> (\<lambda>(s, t, _). (s, t)) ` set cs"
    by (force simp: last_change_def dest!: map_of_SomeD)
qed

lemma changed_paths_grow:
  "\<forall>(s, t, np) \<in> set cs. np \<noteq> None \<Longrightarrow> dom paths \<subseteq> dom (changed_paths cs paths)"
proof (induction cs arbitrary: paths)
  case (Cons c cs)
  obtain s t p where c: "c = (s, t, Some p)" using Cons.prems by (cases c) auto
  have "dom paths \<subseteq> dom (paths((s, t) \<mapsto> p))" by auto
  also have "\<dots> \<subseteq> dom (changed_paths cs (paths((s, t) \<mapsto> p)))" using Cons.prems by (intro Cons.IH) simp
  finally show ?case by (simp add: c)
qed simp

lemma fold_operations_finite:
  "finite (dom pairs) \<Longrightarrow> finite (dom (fst (fold apply_operation ops (pairs, ev))))"
  by (induction ops arbitrary: pairs ev) (simp_all add: apply_operation_result)

lemma dispatch_finite:
  assumes "dispatch checks log_on origin c st = Some (Inr st')" "finite_storage st"
  shows "finite_storage st'"
  using assms(1)
proof (cases rule: dispatch_cases)
  case (submit payload sig paths ev)
  with assms(1) have "ocw_submit_best_paths_changes checks log_on origin payload st = Some (Inr st')"
    by (simp add: dispatch_def)
  then obtain paths' evs where p: "apply_changes log_on (changes payload) (best_paths st, []) = Some (paths', evs)"
    "best_paths st' = paths'" by (rule ocw_submit_success) simp
  have "finite (dom (changed_paths (changes payload) (best_paths st)))"
    using assms(2) by (intro finite_subset [OF changed_paths_dom]) (simp add: finite_storage_def)
  with apply_changes_Some [OF p(1)] p(2) submit(4) assms(2) show ?thesis by (simp add: finite_storage_def)
next
  case (monitor ops pairs ev)
  with assms(1) have "submit_monitored_pairs Root ops st = Some (Inr st')" by (simp add: dispatch_def)
  then have "monitored_pairs st' = fst (fold apply_operation (dedupe_operations ops) (monitored_pairs st, []))"
    by (auto simp: submit_monitored_pairs_def ensure_root_def Let_def deposit_event_def split: prod.splits if_splits)
  with monitor(3) assms(2) fold_operations_finite [of "monitored_pairs st" "dedupe_operations ops" "[]"]
  show ?thesis by (simp add: finite_storage_def)
qed (use assms(2) in \<open>auto simp: finite_storage_def\<close>)

lemma run_finite: "chain_run env s trace s' \<Longrightarrow> finite_storage (store s) \<Longrightarrow> finite_storage (store s')"
proof (induction rule: chain_run.induct)
  case (step s trace s' l s'')
  from step.hyps(2) step.IH [OF step.prems] show ?case
  proof cases
    case (executed origin c st')
    with dispatch_finite [OF executed(3)] step.IH [OF step.prems] show ?thesis by simp
  qed (auto simp: finite_storage_def)
qed

end
