(* ===== verification/Runtime.thy ===== *)
theory Runtime
  imports Ocw_Runs Weights Chain
begin

text \<open>
  The runtime (\<open>runtime/src/lib.rs\<close>): its constants, the configuration of the aggregator pallet, the
  pallets it is composed of and what it configures for those of Substrate, and the construction of
  signed transactions. Mortal eras, the
  additional data a payload signs and the signature itself are parameters.
\<close>

section \<open>Constants\<close>

record runtime_version =
  spec_name :: string
  impl_name :: string
  authoring_version :: u32
  spec_version :: u32
  impl_version :: u32
  transaction_version :: u32
  state_version :: u8

definition VERSION :: runtime_version where
  "VERSION = \<lparr>spec_name = ''node-aggregator'', impl_name = ''node-aggregator'', authoring_version = 1,
     spec_version = 100, impl_version = 1, transaction_version = 1, state_version = 1\<rparr>"

text \<open>The native build's version, and the further authoring versions it could author with: none.\<close>

definition native_version :: "runtime_version \<times> u32 set" where
  "native_version = (VERSION, {})"

definition MILLISECS_PER_BLOCK :: u64 where
  "MILLISECS_PER_BLOCK = 6000"

definition SLOT_DURATION :: u64 where
  "SLOT_DURATION = MILLISECS_PER_BLOCK"

definition MINUTES :: u32 where
  "MINUTES = 60000 div ucast MILLISECS_PER_BLOCK"

definition HOURS :: u32 where
  "HOURS = MINUTES * 60"

definition DAYS :: u32 where
  "DAYS = HOURS * 24"

definition BlockHashCount :: u32 where
  "BlockHashCount = 2400"

definition SS58Prefix :: u8 where
  "SS58Prefix = 42"

definition MinimumPeriod :: u64 where
  "MinimumPeriod = SLOT_DURATION div 2"

definition TransactionByteFee :: u128 where
  "TransactionByteFee = 1"

definition OffchainTriggerDelay :: u32 where
  "OffchainTriggerDelay = 3"

definition MaxTxPoolStayTime :: u32 where
  "MaxTxPoolStayTime = 3"

definition UnsignedPriority :: u64 where
  "UnsignedPriority = push_bit 20 1"

definition PriceChangeTolerance :: u32 where
  "PriceChangeTolerance = 1"

lemma block_times:
  "unat MINUTES * unat MILLISECS_PER_BLOCK = 60 * 1000"
  "unat HOURS * unat MILLISECS_PER_BLOCK = 60 * 60 * 1000"
  "unat DAYS * unat MILLISECS_PER_BLOCK = 24 * 60 * 60 * 1000"
  by (simp_all add: MINUTES_def HOURS_def DAYS_def MILLISECS_PER_BLOCK_def)

section \<open>The configuration of the FRAME pallets\<close>

text \<open>The values the runtime gives the pallets of Substrate. The remaining associated types either are the
  model's own types (accounts, balances and block numbers at their widths), or name the runtime
  itself or \<open>()\<close>. \<open>Perbill\<close> counts parts per billion; \<open>WEIGHT_PER_SECOND\<close> is Substrate's.\<close>

definition NORMAL_DISPATCH_RATIO :: u32 where
  "NORMAL_DISPATCH_RATIO = 75 * 10000000"

record 'a limits =
  max_total :: 'a
  normal_ratio :: u32

definition BlockWeights :: "bool \<Rightarrow> u64 \<Rightarrow> u64 limits run" where
  "BlockWeights overflow WEIGHT_PER_SECOND = do {
     total \<leftarrow> rs_mul overflow 2 WEIGHT_PER_SECOND;
     Some \<lparr>max_total = total, normal_ratio = NORMAL_DISPATCH_RATIO\<rparr>
   }"

definition BlockLength :: "u32 limits" where
  "BlockLength = \<lparr>max_total = 5 * 1024 * 1024, normal_ratio = NORMAL_DISPATCH_RATIO\<rparr>"

record 'call system_config =
  base_call_filter :: "'call \<Rightarrow> bool"
  block_weights :: "u64 limits run"
  block_length :: "u32 limits"
  block_hash_count :: u32
  db_weights :: db_weight
  runtime_version :: runtime_version
  ss58_prefix :: u8
  max_consumers :: u32

definition system_config :: "bool \<Rightarrow> u64 \<Rightarrow> db_weight \<Rightarrow> 'call system_config" where
  "system_config overflow WEIGHT_PER_SECOND RocksDbWeight = \<lparr>
     base_call_filter = (\<lambda>_. True),
     block_weights = BlockWeights overflow WEIGHT_PER_SECOND,
     block_length = BlockLength,
     block_hash_count = BlockHashCount,
     db_weights = RocksDbWeight,
     runtime_version = VERSION,
     ss58_prefix = SS58Prefix,
     max_consumers = 16\<rparr>"

definition aura_max_authorities :: u32 where
  "aura_max_authorities = 32"

definition grandpa_max_authorities :: u32 where
  "grandpa_max_authorities = 32"

record balances_config =
  max_locks :: u32
  existential_deposit :: u128

definition balances_config :: balances_config where
  "balances_config = \<lparr>max_locks = 50, existential_deposit = 500\<rparr>"

text \<open>\<open>IdentityFee\<close> turns a weight into a fee of the same amount.\<close>

record transaction_payment_config =
  transaction_byte_fee :: u128
  operational_fee_multiplier :: u8
  weight_to_fee :: "u64 \<Rightarrow> u128"

definition transaction_payment_config :: transaction_payment_config where
  "transaction_payment_config =
     \<lparr>transaction_byte_fee = TransactionByteFee, operational_fee_multiplier = 5, weight_to_fee = (\<lambda>w. ucast w)\<rparr>"

section \<open>The pallets and the configuration of the aggregator\<close>

datatype runtime_pallet =
    System | RandomnessCollectiveFlip | Timestamp | Aura | Grandpa | Balances | TransactionPayment | Sudo | Aggregator

text \<open>The pallets in the order of \<open>construct_runtime!\<close>; a pallet's place is its index in calls and events.\<close>

definition runtime_pallets :: "runtime_pallet list" where
  "runtime_pallets =
     [System, RandomnessCollectiveFlip, Timestamp, Aura, Grandpa, Balances, TransactionPayment, Sudo, Aggregator]"

text \<open>The configuration of the aggregator. Prices and amounts are both \<open>u128\<close>, so the conversions between
  them never fail; \<open>RocksDbWeight\<close> are the weights of the runtime's database.\<close>

definition runtime_config ::
  "bool \<Rightarrow> (f64 \<Rightarrow> f64) \<Rightarrow> (u8 list \<Rightarrow> json_value option) \<Rightarrow> (u8 list \<Rightarrow> u64 \<Rightarrow> http_outcome) \<Rightarrow> u64 \<Rightarrow>
     db_weight \<Rightarrow> config" where
  "runtime_config overflow log2 parse_json http_get timestamp RocksDbWeight = \<lparr>
     calculate = calc_best_paths log2 Some Some,
     fetch_price = provider_get_price overflow parse_json http_get timestamp,
     call_weights = SubstrateWeight RocksDbWeight,
     trigger_delay = OffchainTriggerDelay,
     max_tx_pool_stay_time = MaxTxPoolStayTime,
     unsigned_tx_priority = UnsignedPriority,
     tolerance = PriceChangeTolerance\<rparr>"

text \<open>A node whose worker runs with a given configuration.\<close>

definition configured :: "config \<Rightarrow> ('acc, 'pub, 'sig) ocw_env \<Rightarrow> ('acc, 'pub, 'sig) ocw_env" where
  "configured cfg node = node\<lparr>
     calculate := calculate cfg, fetch_price := fetch_price cfg, call_weights := call_weights cfg,
     trigger_delay := trigger_delay cfg, max_tx_pool_stay_time := max_tx_pool_stay_time cfg,
     unsigned_tx_priority := unsigned_tx_priority cfg, tolerance := tolerance cfg\<rparr>"

text \<open>C33: The runtime's delay and pool stay fit together: in orderly runs of a node's workers (no run holds
  the lock for longer than it lasts, none takes it on an outdated check), when a worker submits, the
  only older submission of the node that can still be valid is that of its previous run, exactly
  three blocks ago; every earlier one is stale.\<close>

theorem runtime_submissions_overlap:
  assumes "cfg = runtime_config overflow log2 parse_json http_get timestamp rocksdb"
    and "lock_contract ops deadline" "idle deadline nd"
    and "node_run (configured cfg node) ops orderly nd (us @ Sent b txs # vs @ Sent now txs' # ws) nd'"
    and "\<forall>c \<in> allowed_blocks (us @ Sent b txs # vs @ Sent now txs' # ws). unat c + 3 < 2 ^ 32"
    and "validate_unsigned overflow verify into_account (max_tx_pool_stay_time cfg) (unsigned_tx_priority cfg) now
      (OcwSubmitBestPathsChanges payload sig) st = Some (Inr v)"
    and "payload_block payload = b"
  shows "sent_blocks vs = [] \<and> now = b + 3"
proof -
  let ?env = "configured cfg node" and ?trace = "us @ Sent b txs # vs @ Sent now txs' # ws"
  have delay: "unat (trigger_delay ?env) = 3" and stay: "max_tx_pool_stay_time cfg = 3"
    by (simp_all add: assms(1) configured_def runtime_config_def OffchainTriggerDelay_def MaxTxPoolStayTime_def)
  have spaced: "sorted_wrt (\<lambda>b b'. unat b + 3 \<le> unat b') (sent_blocks ?trace)"
    using run_spaced [OF assms(2,4,3)] spacedD(4) assms(5) unfolding delay by blast
  have blocks: "sent_blocks ?trace = sent_blocks us @ b # sent_blocks vs @ now # sent_blocks ws"
    by (simp add: sent_block_def)
  have far: "unat b + 3 \<le> unat now" and between: "\<And>c. c \<in> set (sent_blocks vs) \<Longrightarrow> unat b + 3 \<le> unat c \<and> unat c + 3 \<le> unat now"
    using spaced unfolding blocks by (auto simp: sorted_wrt_append)
  have "unat now < 2 ^ 32" using unsigned_less [of now] by simp
  with far have "unat (b + 3) = unat b + 3" by (simp add: unat_add_fits)
  moreover have "now \<le> b + 3"
    using assms(6,7) by (auto simp: validate_unsigned_def stay rs_add_def not_less split: if_splits Option.bind_splits)
  ultimately have near: "unat now \<le> unat b + 3" by (simp add: word_le_nat_alt)
  with far \<open>unat (b + 3) = unat b + 3\<close> have "now = b + 3" by (simp add: word_unat_eq_iff)
  moreover have "sent_blocks vs = []" using between near by (cases "sent_blocks vs") fastforce+
  ultimately show ?thesis by simp
qed

definition sample_runtime_config :: config where
  "sample_runtime_config =
     runtime_config True rounded_log2 (\<lambda>_. None) (\<lambda>_ _. NoResponse) 0 \<lparr>reads = (\<lambda>n. n), writes = (\<lambda>n. n)\<rparr>"

text \<open>Two rounds of a worker of the runtime three blocks apart, with nothing to fetch.\<close>

definition quiet_round :: "u32 \<Rightarrow> (nat, nat, unit) node_event list" where
  "quiet_round b = [Allowed b, Locked b 0, Sent b [], Bumped b, Released b]"

lemma runtime_rounds:
  obtains nd where "node_run (configured sample_runtime_config sample_env) deadline_lock orderly sample_node
    (quiet_round 1 @ quiet_round 4) nd"
proof -
  let ?env = "configured sample_runtime_config sample_env"
  have delay: "trigger_delay ?env = 3"
    by (simp add: configured_def sample_runtime_config_def runtime_config_def OffchainTriggerDelay_def)
  have fetch: "fetch_prices_and_update_best_paths ?env b sample_storage = Some (Inr (), [])" for b
    by (simp add: fetch_prices_and_update_best_paths_def fetched_pairs_def configured_def sample_env_def sample_storage_def)
  have start: "clock sample_node \<le> 0" by (simp add: sample_node_def)
  obtain n1 where n1: "node_run ?env deadline_lock orderly sample_node (quiet_round 1) n1" "quiet id n1" "clock n1 = 0"
    "next_offchain_trigger (local n1) = Stored (1 + 3)"
    unfolding quiet_round_def
    by (rule round_run [OF deadline_lock_contract idle_quiet [OF sample_node_idle] start sample_node_allows fetch [of 1]])
      (simp_all add: delay)
  obtain n2 where "node_run ?env deadline_lock orderly n1 (quiet_round 4) n2"
    unfolding quiet_round_def
    by (rule round_run [OF deadline_lock_contract n1(2) _ _ fetch [of 4], of 0])
      (simp_all add: delay n1(3,4) should_trigger_offchain_def)
  with n1(1) that show thesis unfolding run_append by blast
qed

theorem runtime_submissions_overlap_witness:
  "\<exists>nd. node_run (configured sample_runtime_config sample_env) deadline_lock orderly sample_node
     (quiet_round 1 @ quiet_round 4) nd \<and> (4 :: u32) = 1 + 3"
proof -
  obtain nd where run: "node_run (configured sample_runtime_config sample_env) deadline_lock orderly sample_node
    (quiet_round 1 @ quiet_round 4) nd" by (rule runtime_rounds)
  have split: "quiet_round 1 @ quiet_round 4 =
      [Allowed 1, Locked 1 0] @ Sent 1 [] # [Bumped 1, Released 1, Allowed 4, Locked 4 0] @ Sent 4 [] # [Bumped 4, Released 4]"
    by (simp add: quiet_round_def)
  have valid: "validate_unsigned True (\<lambda>_ _. True) id (max_tx_pool_stay_time sample_runtime_config) (unsigned_tx_priority sample_runtime_config) 4
      (OcwSubmitBestPathsChanges \<lparr>changes = [], payload_nonce = 3, payload_block = 1, public = 7\<rparr> () :: (nat, nat, unit) call)
      sample_storage =
     Some (Inr \<lparr>tag_prefix = ''AggregatorWorker'', priority = UnsignedPriority, provides = [(TX_TAG, 4)],
       longevity = 5, propagate = True\<rparr>)"
    by (simp add: validate_unsigned_def sample_runtime_config_def runtime_config_def MaxTxPoolStayTime_def sample_storage_def rs_add_def)
  have "(4 :: u32) = 1 + 3"
    by (rule runtime_submissions_overlap [OF sample_runtime_config_def deadline_lock_contract sample_node_idle
          run [unfolded split] _ valid, THEN conjunct2]) (auto simp: allowed_blocks_def)
  with run show ?thesis by blast
qed

section \<open>Signed transactions\<close>

text \<open>The signed extension: of its eight checks three carry data.\<close>

record 'era signed_extra =
  check_era :: 'era
  check_nonce :: u32
  charge_tip :: u128

datatype 'acc multi_address = Id 'acc

definition create_transaction ::
  "(u64 \<Rightarrow> u64 \<Rightarrow> 'era) \<Rightarrow> ('call \<Rightarrow> 'era signed_extra \<Rightarrow> 'add option) \<Rightarrow>
     ('call \<times> 'era signed_extra \<times> 'add \<Rightarrow> 'pub \<Rightarrow> 'sig option) \<Rightarrow> u32 \<Rightarrow>
     'call \<Rightarrow> 'pub \<Rightarrow> 'acc \<Rightarrow> u32 \<Rightarrow> ('call \<times> 'acc multi_address \<times> 'sig \<times> 'era signed_extra) option" where
  "create_transaction mortal additional_signed sign_payload block call pub account index = do {
     let period = ucast BlockHashCount;
     let current_block = saturating_sub (ucast block) 1;
     let extra = \<lparr>check_era = mortal period current_block, check_nonce = index, charge_tip = 0\<rparr>;
     additional \<leftarrow> additional_signed call extra;
     signature \<leftarrow> sign_payload (call, extra, additional) pub;
     Some (call, Id account, signature, extra)
   }"

text \<open>A signed transaction is created exactly when its payload can be built and signed. It carries the
  call and the account unchanged, the index as nonce, no tip, an era of 2400 blocks that starts at
  the parent of the current block (block 0 at genesis, where the subtraction saturates), and the
  signature of exactly that payload.\<close>

theorem create_transaction_spec:
  "create_transaction mortal additional_signed sign_payload block call pub account index = Some (c, addr, sig, extra) \<longleftrightarrow>
     c = call \<and> addr = Id account \<and>
     extra = \<lparr>check_era = mortal 2400 (of_nat (unat block - 1)), check_nonce = index, charge_tip = 0\<rparr> \<and>
     (\<exists>additional. additional_signed call extra = Some additional \<and> sign_payload (call, extra, additional) pub = Some sig)"
proof -
  have "saturating_sub (ucast block) 1 = (of_nat (unat block - 1) :: u64)"
  proof -
    have "unat (saturating_sub (ucast block) (1 :: u64)) = unat block - 1"
      by (simp add: unat_saturating_sub unat_ucast_wider)
    then show ?thesis by (metis of_nat_unat ucast_id)
  qed
  then show ?thesis
    by (auto simp: create_transaction_def BlockHashCount_def Let_def split: Option.bind_splits)
qed

end
