(* ===== verification/Chain_Spec.thy ===== *)
theory Chain_Spec
  imports Runtime
begin

text \<open>
  The chain specifications of the node (\<open>node/src/chain_spec.rs\<close>): keys from seeds, the genesis
  state, and the development and local test networks. The derivation of a key pair from a secret
  string is a parameter for each key type (sr25519 for Aura and for accounts, ed25519 for
  Grandpa), \<open>None\<close> where it fails.
\<close>

section \<open>Keys\<close>

definition get_from_seed :: "(string \<Rightarrow> 'key option) \<Rightarrow> string \<Rightarrow> 'key run" where
  "get_from_seed from_string seed = from_string (''//'' @ seed)"

definition get_account_id_from_seed :: "(string \<Rightarrow> 'key option) \<Rightarrow> ('key \<Rightarrow> 'acc) \<Rightarrow> string \<Rightarrow> 'acc run" where
  "get_account_id_from_seed from_string into_account seed = map_option into_account (get_from_seed from_string seed)"

definition authority_keys_from_seed ::
  "(string \<Rightarrow> 'aura option) \<Rightarrow> (string \<Rightarrow> 'grandpa option) \<Rightarrow> string \<Rightarrow> ('aura \<times> 'grandpa) run" where
  "authority_keys_from_seed aura_from grandpa_from s = do {
     a \<leftarrow> get_from_seed aura_from s;
     g \<leftarrow> get_from_seed grandpa_from s;
     Some (a, g)
   }"

section \<open>Genesis\<close>

record ('acc, 'aura, 'grandpa) genesis_config =
  code :: "u8 list"
  balances :: "('acc \<times> u128) list"
  aura_authorities :: "'aura list"
  grandpa_authorities :: "('grandpa \<times> u64) list"
  sudo_key :: "'acc option"
  transaction_payment :: unit

definition testnet_genesis ::
  "u8 list \<Rightarrow> ('aura \<times> 'grandpa) list \<Rightarrow> 'acc \<Rightarrow> 'acc list \<Rightarrow> bool \<Rightarrow> ('acc, 'aura, 'grandpa) genesis_config" where
  "testnet_genesis wasm_binary initial_authorities root_key endowed_accounts enable_println = \<lparr>
     code = wasm_binary,
     balances = map (\<lambda>k. (k, push_bit 60 1)) endowed_accounts,
     aura_authorities = map (\<lambda>x. fst x) initial_authorities,
     grandpa_authorities = map (\<lambda>x. (snd x, 1)) initial_authorities,
     sudo_key = Some root_key,
     transaction_payment = ()\<rparr>"

datatype chain_type = Development | Local

text \<open>The genesis of a specification is built when it is first needed, so it may panic only then.\<close>

record ('acc, 'aura, 'grandpa) chain_spec =
  spec_title :: string
  spec_id :: string
  spec_type :: chain_type
  genesis :: "('acc, 'aura, 'grandpa) genesis_config run"
  boot_nodes :: "string list"
  telemetry :: "string option"
  protocol_id :: "string option"
  fork_id :: "string option"
  properties :: "string option"
  extensions :: "string option"

record ('key, 'acc, 'aura, 'grandpa) key_derivation =
  account_from :: "string \<Rightarrow> 'key option"
  key_account :: "'key \<Rightarrow> 'acc"
  aura_from :: "string \<Rightarrow> 'aura option"
  grandpa_from :: "string \<Rightarrow> 'grandpa option"

abbreviation authority_of :: "('key, 'acc, 'aura, 'grandpa) key_derivation \<Rightarrow> string \<Rightarrow> ('aura \<times> 'grandpa) run" where
  "authority_of kd \<equiv> authority_keys_from_seed (aura_from kd) (grandpa_from kd)"

abbreviation account :: "('key, 'acc, 'aura, 'grandpa) key_derivation \<Rightarrow> string \<Rightarrow> 'acc run" where
  "account kd \<equiv> get_account_id_from_seed (account_from kd) (key_account kd)"

definition development_config ::
  "('key, 'acc, 'aura, 'grandpa) key_derivation \<Rightarrow> u8 list option \<Rightarrow> string + ('acc, 'aura, 'grandpa) chain_spec" where
  "development_config kd wasm =
     (case wasm of
        None \<Rightarrow> Inl ''Development wasm not available''
      | Some wasm_binary \<Rightarrow> Inr \<lparr>spec_title = ''Development'', spec_id = ''dev'', spec_type = Development,
          genesis = do {
            authorities \<leftarrow> run_map (authority_of kd) [''Alice''];
            root_acc \<leftarrow> account kd ''Alice'';
            endowed \<leftarrow> run_map (account kd) [''Alice'', ''Bob'', ''Alice//stash'', ''Bob//stash''];
            Some (testnet_genesis wasm_binary authorities root_acc endowed True)
          },
          boot_nodes = [], telemetry = None, protocol_id = None, fork_id = None, properties = None,
          extensions = None\<rparr>)"

definition local_testnet_config ::
  "('key, 'acc, 'aura, 'grandpa) key_derivation \<Rightarrow> u8 list option \<Rightarrow> string + ('acc, 'aura, 'grandpa) chain_spec" where
  "local_testnet_config kd wasm =
     (case wasm of
        None \<Rightarrow> Inl ''Development wasm not available''
      | Some wasm_binary \<Rightarrow> Inr \<lparr>spec_title = ''Local Testnet'', spec_id = ''local_testnet'', spec_type = Local,
          genesis = do {
            authorities \<leftarrow> run_map (authority_of kd) [''Alice'', ''Bob''];
            root_acc \<leftarrow> account kd ''Alice'';
            endowed \<leftarrow> run_map (account kd)
              [''Alice'', ''Bob'', ''Charlie'', ''Dave'', ''Eve'', ''Ferdie'',
               ''Alice//stash'', ''Bob//stash'', ''Charlie//stash'', ''Dave//stash'', ''Eve//stash'', ''Ferdie//stash''];
            Some (testnet_genesis wasm_binary authorities root_acc endowed True)
          },
          boot_nodes = [], telemetry = None, protocol_id = None, fork_id = None, properties = None,
          extensions = None\<rparr>)"

definition total_issuance :: "('acc, 'aura, 'grandpa) genesis_config \<Rightarrow> nat" where
  "total_issuance g = sum_list (map (\<lambda>x. unat (snd x)) (balances g))"

definition sound_genesis :: "nat \<Rightarrow> ('acc, 'aura, 'grandpa) genesis_config \<Rightarrow> bool" where
  "sound_genesis authorities g \<longleftrightarrow>
     length (aura_authorities g) = authorities \<and> length (grandpa_authorities g) = authorities \<and>
     authorities \<le> unat aura_max_authorities \<and> authorities \<le> unat grandpa_max_authorities \<and>
     (\<exists>root_acc. sudo_key g = Some root_acc \<and> root_acc \<in> fst ` set (balances g)) \<and>
     list_all (\<lambda>x. existential_deposit balances_config \<le> snd x) (balances g) \<and> total_issuance g < 2 ^ 128"

text \<open>The seeds of the well-known accounts that the two networks use, and that each of them yields keys
  of all three types. Nothing is asked of other strings, on which the derivation may fail.\<close>

definition authority_seeds :: "string list" where
  "authority_seeds = [''Alice'', ''Bob'']"

definition account_seeds :: "string list" where
  "account_seeds = [''Alice'', ''Bob'', ''Charlie'', ''Dave'', ''Eve'', ''Ferdie'',
     ''Alice//stash'', ''Bob//stash'', ''Charlie//stash'', ''Dave//stash'', ''Eve//stash'', ''Ferdie//stash'']"

definition seeds_derive :: "('key, 'acc, 'aura, 'grandpa) key_derivation \<Rightarrow> bool" where
  "seeds_derive kd \<longleftrightarrow>
     (\<forall>s \<in> set account_seeds. account_from kd (''//'' @ s) \<noteq> None) \<and>
     (\<forall>s \<in> set authority_seeds. aura_from kd (''//'' @ s) \<noteq> None \<and> grandpa_from kd (''//'' @ s) \<noteq> None)"

definition account_key :: "('key, 'acc, 'aura, 'grandpa) key_derivation \<Rightarrow> string \<Rightarrow> 'acc" where
  "account_key kd s = key_account kd (the (account_from kd (''//'' @ s)))"

definition authority_key :: "('key, 'acc, 'aura, 'grandpa) key_derivation \<Rightarrow> string \<Rightarrow> 'aura \<times> 'grandpa" where
  "authority_key kd s = (the (aura_from kd (''//'' @ s)), the (grandpa_from kd (''//'' @ s)))"

lemma seeds_account: "seeds_derive kd \<Longrightarrow> s \<in> set account_seeds \<Longrightarrow> account kd s = Some (account_key kd s)"
  unfolding seeds_derive_def get_account_id_from_seed_def get_from_seed_def account_key_def by fastforce

lemma seeds_authority: "seeds_derive kd \<Longrightarrow> s \<in> set authority_seeds \<Longrightarrow> authority_of kd s = Some (authority_key kd s)"
  unfolding seeds_derive_def authority_keys_from_seed_def get_from_seed_def authority_key_def by fastforce

lemma run_map_seeds:
  "(\<And>s. s \<in> set xs \<Longrightarrow> f s = Some (g s)) \<Longrightarrow> run_map f xs = Some (map g xs)"
  by (induction xs) simp_all

lemma run_map_length: "run_map f xs = Some ys \<Longrightarrow> length ys = length xs"
  by (induction xs arbitrary: ys) (auto split: Option.bind_splits)

lemma testnet_issuance:
  "total_issuance (testnet_genesis wasm auths root_acc endowed pr) = length endowed * 2 ^ 60"
  by (simp add: total_issuance_def testnet_genesis_def comp_def sum_list_triv)

lemma testnet_sound:
  assumes "root_acc \<in> set endowed" "length endowed < 2 ^ 68" "length auths = n" "n \<le> 32"
  shows "sound_genesis n (testnet_genesis wasm auths root_acc endowed pr)"
proof -
  have "length endowed * 2 ^ 60 < 2 ^ 68 * 2 ^ 60" using assms(2) by simp
  then have "total_issuance (testnet_genesis wasm auths root_acc endowed pr) < 2 ^ 128"
    by (simp add: testnet_issuance)
  with assms(1,3,4) show ?thesis
    by (auto simp: sound_genesis_def testnet_genesis_def balances_config_def aura_max_authorities_def
        grandpa_max_authorities_def list_all_iff image_iff)
qed

text \<open>C40: Both networks start from a sound genesis whenever the well-known seeds they name yield keys: as
  many Aura as Grandpa authorities (one, two) and no more than the runtime admits, a sudo key that
  owns an endowed account, no balance below the runtime's existential deposit, and a total issuance
  that fits the balance type.\<close>

theorem testnet_genesis_sound:
  assumes "development_config kd (Some wasm) = Inr dev" "local_testnet_config kd (Some wasm) = Inr test"
    and "seeds_derive kd"
  shows "\<exists>g h. genesis dev = Some g \<and> sound_genesis 1 g \<and> genesis test = Some h \<and> sound_genesis 2 h"
proof -
  note account = seeds_account [OF assms(3)] and authority = seeds_authority [OF assms(3)]
  have dev_accounts: "run_map (account kd) [''Alice'', ''Bob'', ''Alice//stash'', ''Bob//stash''] =
      Some (map (account_key kd) [''Alice'', ''Bob'', ''Alice//stash'', ''Bob//stash''])"
    by (rule run_map_seeds) (auto simp: account_seeds_def intro!: account)
  have test_accounts: "run_map (account kd) account_seeds = Some (map (account_key kd) account_seeds)"
    by (rule run_map_seeds) (rule account)
  have dev_authorities: "run_map (authority_of kd) [''Alice''] = Some (map (authority_key kd) [''Alice''])"
    by (rule run_map_seeds) (auto simp: authority_seeds_def intro!: authority)
  have test_authorities: "run_map (authority_of kd) authority_seeds = Some (map (authority_key kd) authority_seeds)"
    by (rule run_map_seeds) (rule authority)
  have root: "account kd ''Alice'' = Some (account_key kd ''Alice'')"
    by (rule account) (simp add: account_seeds_def)
  from assms(1) have "genesis dev = Some (testnet_genesis wasm (map (authority_key kd) [''Alice'']) (account_key kd ''Alice'')
      (map (account_key kd) [''Alice'', ''Bob'', ''Alice//stash'', ''Bob//stash'']) True)"
    unfolding development_config_def option.case sum.inject
    by (auto simp only: chain_spec.simps dev_authorities root dev_accounts bind.bind_lunit)
  moreover from assms(2) have "genesis test = Some (testnet_genesis wasm (map (authority_key kd) authority_seeds)
      (account_key kd ''Alice'') (map (account_key kd) account_seeds) True)"
    unfolding local_testnet_config_def option.case sum.inject account_seeds_def [symmetric] authority_seeds_def [symmetric]
    by (auto simp only: chain_spec.simps test_authorities root test_accounts bind.bind_lunit)
  moreover have "account_key kd ''Alice'' \<in> set (map (account_key kd) account_seeds)"
    "length account_seeds = 12" "length authority_seeds = 2"
    by (simp_all add: account_seeds_def authority_seeds_def)
  ultimately show ?thesis by (simp add: testnet_sound)
qed

text \<open>A derivation that knows the well-known seeds only.\<close>

definition sample_derivation :: "(string, string, string, string) key_derivation" where
  "sample_derivation =
     (let from_string = (\<lambda>s. if s \<in> (@) ''//'' ` set account_seeds then Some s else None)
      in \<lparr>account_from = from_string, key_account = id, aura_from = from_string, grandpa_from = from_string\<rparr>)"

lemma sample_seeds_derive: "seeds_derive sample_derivation"
  unfolding seeds_derive_def sample_derivation_def Let_def authority_seeds_def account_seeds_def by simp

theorem testnet_genesis_sound_witness:
  "\<exists>dev g. development_config sample_derivation (Some [0]) = Inr dev \<and> genesis dev = Some g \<and> sound_genesis 1 g"
proof -
  obtain dev test where "development_config sample_derivation (Some [0]) = Inr dev"
    "local_testnet_config sample_derivation (Some [0]) = Inr test"
    by (simp add: development_config_def local_testnet_config_def)
  from testnet_genesis_sound [OF this sample_seeds_derive] this show ?thesis by blast
qed

section \<open>The aggregator at genesis\<close>

text \<open>The aggregator has no genesis configuration: its storage starts with the defaults.\<close>

definition genesis_storage :: "'acc storage" where
  "genesis_storage = \<lparr>best_paths = Map.empty, monitored_pairs = Map.empty, whitelisted = Map.empty,
     unsigned_tx_nonce = 0, events = []\<rparr>"

definition genesis_chain :: "'acc chain" where
  "genesis_chain = \<lparr>block_number = 0, store = genesis_storage\<rparr>"

lemma genesis_finite: "finite_storage (store genesis_chain)"
  by (simp add: finite_storage_def genesis_chain_def genesis_storage_def)

end
