(* ===== verification/Runtime_Api.thy ===== *)
theory Runtime_Api
  imports Runtime
begin

text \<open>
  The runtime APIs (\<open>impl_runtime_apis!\<close> in \<open>runtime/src/lib.rs\<close>): what a node may ask of the runtime.
  Blocks, headers, extrinsics and keys are encoded. The code of Substrate that the runtime hands
  most calls to is a parameter, over a state of its own.
\<close>

type_synonym bytes = "u8 list"

datatype api_call =
    CoreVersion
  | ExecuteBlock bytes
  | InitializeBlock bytes
  | RuntimeMetadata
  | ApplyExtrinsic bytes
  | FinalizeBlock
  | InherentExtrinsics bytes
  | CheckInherents bytes bytes
  | ValidateTransaction bytes bytes bytes
  | OffchainWorker bytes
  | SlotDuration
  | AuraAuthorities
  | GenerateSessionKeys "bytes option"
  | DecodeSessionKeys bytes
  | GrandpaAuthorities
  | CurrentSetId
  | SubmitReportEquivocation bytes bytes
  | GenerateKeyOwnershipProof u64 bytes
  | AccountNonce bytes
  | QueryInfo bytes u32
  | QueryFeeDetails bytes u32

datatype api_answer =
    Done
  | VersionIs runtime_version
  | Encoded bytes
  | Extrinsics "bytes list"
  | RawKeys "(bytes \<times> bytes) list option"
  | Milliseconds u64
  | AuthorityList "bytes list"
  | SetId u64
  | Reported "unit option"
  | OwnershipProof "bytes option"
  | NonceIs u32

record 'st substrate =
  exec_execute_block :: "bytes \<Rightarrow> 'st \<Rightarrow> 'st run"
  exec_initialize_block :: "bytes \<Rightarrow> 'st \<Rightarrow> 'st run"
  metadata_of :: bytes
  exec_apply_extrinsic :: "bytes \<Rightarrow> 'st \<Rightarrow> (bytes \<times> 'st) run"
  exec_finalize_block :: "'st \<Rightarrow> (bytes \<times> 'st) run"
  create_extrinsics :: "bytes \<Rightarrow> 'st \<Rightarrow> bytes list run"
  check_extrinsics :: "bytes \<Rightarrow> bytes \<Rightarrow> 'st \<Rightarrow> bytes run"
  exec_validate_transaction :: "bytes \<Rightarrow> bytes \<Rightarrow> bytes \<Rightarrow> 'st \<Rightarrow> (bytes \<times> 'st) run"
  exec_offchain_worker :: "bytes \<Rightarrow> 'st \<Rightarrow> 'st run"
  aura_slot_duration :: "u64 \<Rightarrow> u64"
  aura_list :: "'st \<Rightarrow> bytes list"
  generate_keys :: "bytes option \<Rightarrow> 'st \<Rightarrow> (bytes \<times> 'st) run"
  decode_keys :: "bytes \<Rightarrow> (bytes \<times> bytes) list option"
  grandpa_list :: "'st \<Rightarrow> bytes list"
  grandpa_set_id :: "'st \<Rightarrow> u64"
  system_account_nonce :: "bytes \<Rightarrow> 'st \<Rightarrow> u32"
  payment_query_info :: "bytes \<Rightarrow> u32 \<Rightarrow> 'st \<Rightarrow> bytes run"
  payment_query_fee_details :: "bytes \<Rightarrow> u32 \<Rightarrow> 'st \<Rightarrow> bytes run"

text \<open>Aura derives its slots from the \<open>MinimumPeriod\<close> of the timestamp pallet. Equivocations cannot be
  reported: the proof type of the runtime has no values, so both calls answer \<open>None\<close>.\<close>

definition runtime_api :: "'st substrate \<Rightarrow> api_call \<Rightarrow> 'st \<Rightarrow> (api_answer \<times> 'st) run" where
  "runtime_api sub call st =
     (case call of
        CoreVersion \<Rightarrow> Some (VersionIs VERSION, st)
      | ExecuteBlock block \<Rightarrow> do { st' \<leftarrow> exec_execute_block sub block st; Some (Done, st') }
      | InitializeBlock header \<Rightarrow> do { st' \<leftarrow> exec_initialize_block sub header st; Some (Done, st') }
      | RuntimeMetadata \<Rightarrow> Some (Encoded (metadata_of sub), st)
      | ApplyExtrinsic extrinsic \<Rightarrow> do { (res, st') \<leftarrow> exec_apply_extrinsic sub extrinsic st; Some (Encoded res, st') }
      | FinalizeBlock \<Rightarrow> do { (header, st') \<leftarrow> exec_finalize_block sub st; Some (Encoded header, st') }
      | InherentExtrinsics inherents \<Rightarrow> do { xts \<leftarrow> create_extrinsics sub inherents st; Some (Extrinsics xts, st) }
      | CheckInherents block inherents \<Rightarrow> do { res \<leftarrow> check_extrinsics sub inherents block st; Some (Encoded res, st) }
      | ValidateTransaction src tx block_hash \<Rightarrow>
          do { (validity, st') \<leftarrow> exec_validate_transaction sub src tx block_hash st; Some (Encoded validity, st') }
      | OffchainWorker header \<Rightarrow> do { st' \<leftarrow> exec_offchain_worker sub header st; Some (Done, st') }
      | SlotDuration \<Rightarrow> Some (Milliseconds (aura_slot_duration sub MinimumPeriod), st)
      | AuraAuthorities \<Rightarrow> Some (AuthorityList (aura_list sub st), st)
      | GenerateSessionKeys seed \<Rightarrow> do { (keys, st') \<leftarrow> generate_keys sub seed st; Some (Encoded keys, st') }
      | DecodeSessionKeys encoded \<Rightarrow> Some (RawKeys (decode_keys sub encoded), st)
      | GrandpaAuthorities \<Rightarrow> Some (AuthorityList (grandpa_list sub st), st)
      | CurrentSetId \<Rightarrow> Some (SetId (grandpa_set_id sub st), st)
      | SubmitReportEquivocation _ _ \<Rightarrow> Some (Reported None, st)
      | GenerateKeyOwnershipProof _ _ \<Rightarrow> Some (OwnershipProof None, st)
      | AccountNonce acc \<Rightarrow> Some (NonceIs (system_account_nonce sub acc st), st)
      | QueryInfo uxt len \<Rightarrow> do { info \<leftarrow> payment_query_info sub uxt len st; Some (Encoded info, st) }
      | QueryFeeDetails uxt len \<Rightarrow> do { fee \<leftarrow> payment_query_fee_details sub uxt len st; Some (Encoded fee, st) })"

text \<open>Pallet Aura documents its slot as twice the minimum period. Then the slot the node reads from the
  runtime is the block time the runtime counts its minutes, hours and days by.\<close>

lemma slot_duration_is_block_time:
  assumes "\<forall>period. unat (aura_slot_duration sub period) = min (2 * unat period) (2 ^ 64 - 1)"
  shows "runtime_api sub SlotDuration st = Some (Milliseconds MILLISECS_PER_BLOCK, st)"
proof -
  have "unat (aura_slot_duration sub MinimumPeriod) = 6000"
    by (simp add: assms MinimumPeriod_def SLOT_DURATION_def MILLISECS_PER_BLOCK_def)
  then have "aura_slot_duration sub MinimumPeriod = MILLISECS_PER_BLOCK"
    by (simp add: word_unat_eq_iff MILLISECS_PER_BLOCK_def)
  then show ?thesis by (simp add: runtime_api_def)
qed

text \<open>Nothing a peer sends can make this runtime report an equivocation.\<close>

lemma equivocations_unreported:
  "runtime_api sub (SubmitReportEquivocation evidence owner) st = Some (Reported None, st)"
  "runtime_api sub (GenerateKeyOwnershipProof set_id auth) st = Some (OwnershipProof None, st)"
  by (simp_all add: runtime_api_def)

end
