(* ===== verification/Node.thy ===== *)
theory Node
  imports Chain_Spec Runtime_Api
begin

text \<open>
  The node (\<open>node/src/service.rs\<close>, \<open>rpc.rs\<close> and \<open>command.rs\<close>): which chain specification an id names,
  which parts a subcommand builds, and how the service is put together: the order of its steps,
  the errors that end it, and the tasks it starts with what it sets in their parameters. Substrate's
  own constructors are parameters: \<open>fails\<close> tells for each of the calls whether it fails, and how.
\<close>

section \<open>Chain specifications by id\<close>

text \<open>\<open>from_json_file\<close> reads a specification from a file.\<close>

definition load_spec ::
  "('key, 'acc, 'aura, 'grandpa) key_derivation \<Rightarrow> u8 list option \<Rightarrow>
     (string \<Rightarrow> string + ('acc, 'aura, 'grandpa) chain_spec) \<Rightarrow> string \<Rightarrow> string + ('acc, 'aura, 'grandpa) chain_spec" where
  "load_spec kd wasm from_json_file spec =
     (if spec = ''dev'' then development_config kd wasm
      else if spec = '''' \<or> spec = ''local'' then local_testnet_config kd wasm
      else from_json_file spec)"

section \<open>The service\<close>

text \<open>The part of the node's configuration that decides what is started.\<close>

record configuration =
  keystore_remote :: "string option"
  telemetry_endpoints :: "string list option"
  offchain_worker_enabled :: bool
  is_authority :: bool
  disable_grandpa :: bool
  force_authoring :: bool
  node_name :: string
  extra_sets :: "string list"

datatype fallible =
    TelemetryWorkerNew
  | NewFullParts
  | GrandpaBlockImport
  | SlotDurationImport
  | AuraImportQueue
  | BuildNetwork
  | SpawnTasks
  | SlotDurationAuthoring
  | StartAura
  | RunGrandpaVoter

datatype 'e service_error =
    RemoteKeystoreUnsupported
  | RemoteKeystoreFailed string string
  | Substrate 'e

text \<open>What the service sets in the parameters of the authoring task and of the voter. The portion of a slot
  that a proposal may take is a single-precision number, \<open>2f32 / 3f32\<close>.\<close>

record start_aura_params =
  aura_force_authoring :: bool
  backoff_authoring_blocks :: "unit option"
  block_proposal_slot_portion :: f64
  max_block_proposal_slot_portion :: "f64 option"
  aura_telemetry :: bool

record grandpa_config =
  gossip_duration_millis :: u64
  justification_period :: u32
  voter_name :: "string option"
  observer_enabled :: bool
  voter_keystore :: bool
  local_authority :: bool
  voter_telemetry :: bool
  protocol_name :: string

datatype task =
    TelemetryTask
  | OffchainWorkers
  | RpcAndTasks
  | AuraTask start_aura_params
  | GrandpaVoterTask grandpa_config
  | NetworkStarted "string list"

definition try_call :: "(fallible \<Rightarrow> 'e option) \<Rightarrow> fallible \<Rightarrow> ('e service_error, unit) result" where
  "try_call fails f = (case fails f of None \<Rightarrow> Inr () | Some e \<Rightarrow> Inl (Substrate e))"

text \<open>Running calls one after the other, the first error ends them (the \<open>?\<close> operator).\<close>

definition and_then :: "('e, 'a) result \<Rightarrow> ('a \<Rightarrow> ('e, 'b) result) \<Rightarrow> ('e, 'b) result" where
  "and_then r f = (case r of Inl e \<Rightarrow> Inl e | Inr x \<Rightarrow> f x)"

definition wants_telemetry :: "configuration \<Rightarrow> bool" where
  "wants_telemetry config = (case telemetry_endpoints config of None \<Rightarrow> False | Some endpoints \<Rightarrow> endpoints \<noteq> [])"

text \<open>The tasks started by the partial service.\<close>

definition new_partial :: "(fallible \<Rightarrow> 'e option) \<Rightarrow> configuration \<Rightarrow> ('e service_error, task list) result" where
  "new_partial fails config =
     (if keystore_remote config \<noteq> None then Inl RemoteKeystoreUnsupported
      else
        and_then (if wants_telemetry config then try_call fails TelemetryWorkerNew else Inr ()) (\<lambda>_.
        and_then (try_call fails NewFullParts) (\<lambda>_.
        let tasks = if wants_telemetry config then [TelemetryTask] else [] in
        and_then (try_call fails GrandpaBlockImport) (\<lambda>_.
        and_then (try_call fails SlotDurationImport) (\<lambda>_.
        and_then (try_call fails AuraImportQueue) (\<lambda>_.
        Inr tasks))))))"

definition remote_keystore :: "string \<Rightarrow> (string, unit) result" where
  "remote_keystore url = Inl ''Remote Keystore not supported.''"

definition aura_params :: "configuration \<Rightarrow> start_aura_params" where
  "aura_params config = \<lparr>
     aura_force_authoring = force_authoring config,
     backoff_authoring_blocks = None,
     block_proposal_slot_portion = Fin (11184811 / 2 ^ 24),
     max_block_proposal_slot_portion = None,
     aura_telemetry = wants_telemetry config\<rparr>"

definition voter_config :: "string \<Rightarrow> configuration \<Rightarrow> grandpa_config" where
  "voter_config grandpa_protocol_name config = \<lparr>
     gossip_duration_millis = 333,
     justification_period = 512,
     voter_name = Some (node_name config),
     observer_enabled = False,
     voter_keystore = is_authority config,
     local_authority = is_authority config,
     voter_telemetry = wants_telemetry config,
     protocol_name = grandpa_protocol_name\<rparr>"

text \<open>The inherents of a block are the system time and the slot that Aura derives from it.\<close>

definition inherent_data :: "(u64 \<Rightarrow> u64 \<Rightarrow> 'slot) \<Rightarrow> u64 \<Rightarrow> u64 \<Rightarrow> u64 \<times> 'slot" where
  "inherent_data from_timestamp_and_duration raw_slot_duration timestamp =
     (timestamp, from_timestamp_and_duration timestamp raw_slot_duration)"

definition start_voter ::
  "(fallible \<Rightarrow> 'e option) \<Rightarrow> string \<Rightarrow> configuration \<Rightarrow> task list \<Rightarrow> ('e service_error, task list) result" where
  "start_voter fails grandpa_protocol_name config tasks =
     (if \<not> disable_grandpa config
      then and_then (try_call fails RunGrandpaVoter) (\<lambda>_.
             Inr (tasks @ [GrandpaVoterTask (voter_config grandpa_protocol_name config)]))
      else Inr tasks)"

text \<open>\<open>genesis_hash\<close> is the hash of the block with number 0, if it is found; if not, \<open>expect\<close> panics. The name
  of the Grandpa protocol derives from it; its set of peers is added to those of the network.\<close>

definition new_full ::
  "(fallible \<Rightarrow> 'e option) \<Rightarrow> 'hash option \<Rightarrow> ('hash \<Rightarrow> string) \<Rightarrow> configuration \<Rightarrow>
     ('e service_error, task list) result run" where
  "new_full fails genesis_hash protocol_standard_name config =
     (case new_partial fails config of
        Inl e \<Rightarrow> Some (Inl e)
      | Inr tasks \<Rightarrow>
          (case (case keystore_remote config of None \<Rightarrow> Inr () | Some url \<Rightarrow>
                   (case remote_keystore url of Inr k \<Rightarrow> Inr k | Inl e \<Rightarrow> Inl (RemoteKeystoreFailed url e))) of
             Inl e \<Rightarrow> Some (Inl e)
           | Inr _ \<Rightarrow>
               (case genesis_hash of
                  None \<Rightarrow> None
                | Some hash \<Rightarrow>
                    let grandpa_protocol_name = protocol_standard_name hash;
                        config = config\<lparr>extra_sets := extra_sets config @ [grandpa_protocol_name]\<rparr>
                    in Some (
                      and_then (try_call fails BuildNetwork) (\<lambda>_.
                      let tasks = (if offchain_worker_enabled config then tasks @ [OffchainWorkers] else tasks) in
                      and_then (try_call fails SpawnTasks) (\<lambda>_.
                      let tasks = tasks @ [RpcAndTasks] in
                      and_then (if is_authority config
                                then and_then (try_call fails SlotDurationAuthoring) (\<lambda>_.
                                     and_then (try_call fails StartAura) (\<lambda>_. Inr (tasks @ [AuraTask (aura_params config)])))
                                else Inr tasks) (\<lambda>tasks.
                      and_then (start_voter fails grandpa_protocol_name config tasks) (\<lambda>tasks.
                      Inr (tasks @ [NetworkStarted (extra_sets config)])))))))))"

text \<open>How a task is spawned: its name and group, and whether it is essential, so that the node goes down
  with it, and blocking. The other tasks are spawned by Substrate.\<close>

definition spawned_as :: "task \<Rightarrow> (string \<times> string option \<times> bool \<times> bool) option" where
  "spawned_as task =
     (case task of
        TelemetryTask \<Rightarrow> Some (''telemetry'', None, False, False)
      | AuraTask _ \<Rightarrow> Some (''aura'', Some ''block-authoring'', True, True)
      | GrandpaVoterTask _ \<Rightarrow> Some (''grandpa-voter'', None, True, True)
      | _ \<Rightarrow> None)"

section \<open>Subcommands\<close>

datatype subcommand =
    Key | BuildSpec | CheckBlock | ExportBlocks | ExportState | ImportBlocks | PurgeChain | Revert | Benchmark

text \<open>The parts of the partial service that a command is handed.\<close>

datatype part = ClientPart | ImportQueuePart | BackendPart | DatabasePart | ChainSpecPart | NetworkPart

datatype 'e command_outcome =
    RunsCommand subcommand "part list" bool
  | RunsNode "('e service_error, task list) result run"
  | RunnerFailed
  | PartialFailed "'e service_error"
  | BenchmarkingDisabled

text \<open>The last field of \<open>RunsCommand\<close> tells whether the command runs asynchronously, with a task manager.\<close>

definition with_partial ::
  "(fallible \<Rightarrow> 'e option) \<Rightarrow> configuration \<Rightarrow> subcommand \<Rightarrow> part list \<Rightarrow> 'e command_outcome" where
  "with_partial fails config cmd parts =
     (case new_partial fails config of Inl e \<Rightarrow> PartialFailed e | Inr _ \<Rightarrow> RunsCommand cmd parts True)"

definition run ::
  "(fallible \<Rightarrow> 'e option) \<Rightarrow> 'hash option \<Rightarrow> ('hash \<Rightarrow> string) \<Rightarrow> bool \<Rightarrow> bool \<Rightarrow> configuration \<Rightarrow> subcommand option \<Rightarrow> 'e command_outcome" where
  "run fails genesis_hash protocol_standard_name benchmarks runner_ok config subcommand =
     (case subcommand of
        Some Key \<Rightarrow> RunsCommand Key [] False
      | Some BuildSpec \<Rightarrow>
          if runner_ok then RunsCommand BuildSpec [ChainSpecPart, NetworkPart] False else RunnerFailed
      | Some CheckBlock \<Rightarrow>
          if runner_ok then with_partial fails config CheckBlock [ClientPart, ImportQueuePart] else RunnerFailed
      | Some ExportBlocks \<Rightarrow>
          if runner_ok then with_partial fails config ExportBlocks [ClientPart, DatabasePart] else RunnerFailed
      | Some ExportState \<Rightarrow>
          if runner_ok then with_partial fails config ExportState [ClientPart, ChainSpecPart] else RunnerFailed
      | Some ImportBlocks \<Rightarrow>
          if runner_ok then with_partial fails config ImportBlocks [ClientPart, ImportQueuePart] else RunnerFailed
      | Some PurgeChain \<Rightarrow>
          if runner_ok then RunsCommand PurgeChain [DatabasePart] False else RunnerFailed
      | Some Revert \<Rightarrow>
          if runner_ok then with_partial fails config Revert [ClientPart, BackendPart] else RunnerFailed
      | Some Benchmark \<Rightarrow>
          if benchmarks then if runner_ok then RunsCommand Benchmark [] False else RunnerFailed
          else BenchmarkingDisabled
      | None \<Rightarrow> if runner_ok then RunsNode (new_full fails genesis_hash protocol_standard_name config) else RunnerFailed)"

section \<open>The command line and the RPC\<close>

text \<open>What the command line says of itself; three entries come from the build's environment.\<close>

record cli_info =
  cli_impl_name :: string
  cli_impl_version :: string
  cli_description :: string
  cli_author :: string
  cli_support_url :: string
  cli_copyright_start_year :: int
  cli_native_runtime_version :: runtime_version

definition Cli :: "(string \<Rightarrow> string) \<Rightarrow> cli_info" where
  "Cli env = \<lparr>
     cli_impl_name = ''Substrate Node'',
     cli_impl_version = env ''SUBSTRATE_CLI_IMPL_VERSION'',
     cli_description = env ''CARGO_PKG_DESCRIPTION'',
     cli_author = env ''CARGO_PKG_AUTHORS'',
     cli_support_url = ''support.anonymous.an'',
     cli_copyright_start_year = 2017,
     cli_native_runtime_version = VERSION\<rparr>"

text \<open>The native executor answers a call like the runtime it was compiled with.\<close>

definition executor_dispatch :: "'st substrate \<Rightarrow> api_call \<Rightarrow> 'st \<Rightarrow> (api_answer \<times> 'st) run" where
  "executor_dispatch sub call st = runtime_api sub call st"

definition executor_native_version :: "runtime_version \<times> u32 set" where
  "executor_native_version = native_version"

record ('client, 'pool) full_deps =
  rpc_client :: 'client
  rpc_pool :: 'pool
  deny_unsafe :: bool

datatype ('client, 'pool) rpc_extension =
    SystemRpc 'client 'pool bool
  | TransactionPaymentRpc 'client

definition create_full :: "('client, 'pool) full_deps \<Rightarrow> ('client, 'pool) rpc_extension list" where
  "create_full deps =
     [SystemRpc (rpc_client deps) (rpc_pool deps) (deny_unsafe deps), TransactionPaymentRpc (rpc_client deps)]"

text \<open>The version on the command line is the one of the native executor and the one it answers with.\<close>

lemma native_version_consistent:
  "executor_dispatch sub CoreVersion st = Some (VersionIs (cli_native_runtime_version (Cli env)), st)"
  "fst executor_native_version = cli_native_runtime_version (Cli env)"
  by (simp_all add: executor_native_version_def executor_dispatch_def runtime_api_def Cli_def native_version_def)

text \<open>The unsafe calls are denied to a client of the RPC exactly when its connection denies them.\<close>

lemma create_full_unsafe:
  "SystemRpc c p d \<in> set (create_full deps) \<longleftrightarrow> c = rpc_client deps \<and> p = rpc_pool deps \<and> d = deny_unsafe deps"
  by (auto simp: create_full_def)

section \<open>What is started\<close>

text \<open>The calls a full service makes, in order, and the tasks it runs.\<close>

definition service_calls :: "configuration \<Rightarrow> fallible list" where
  "service_calls config =
     (if wants_telemetry config then [TelemetryWorkerNew] else []) @
     [NewFullParts, GrandpaBlockImport, SlotDurationImport, AuraImportQueue, BuildNetwork, SpawnTasks] @
     (if is_authority config then [SlotDurationAuthoring, StartAura] else []) @
     (if disable_grandpa config then [] else [RunGrandpaVoter])"

definition service_tasks :: "string \<Rightarrow> configuration \<Rightarrow> task list" where
  "service_tasks protocol config =
     (if wants_telemetry config then [TelemetryTask] else []) @
     (if offchain_worker_enabled config then [OffchainWorkers] else []) @ [RpcAndTasks] @
     (if is_authority config then [AuraTask (aura_params config)] else []) @
     (if disable_grandpa config then [] else [GrandpaVoterTask (voter_config protocol config)]) @
     [NetworkStarted (extra_sets config @ [protocol])]"

lemma try_call_simps [simp]:
  "fails f = None \<Longrightarrow> try_call fails f = Inr ()"
  "fails f = Some e \<Longrightarrow> try_call fails f = Inl (Substrate e)"
  by (simp_all add: try_call_def)

lemma and_then_simps [simp]: "and_then (Inl e) f = Inl e" "and_then (Inr x) f = f x"
  by (simp_all add: and_then_def)

text \<open>The node with a genesis block starts exactly when it has no remote keystore and none of the calls it
  makes fails, and then runs the offchain workers if they are enabled, Aura as an authority, the
  Grandpa voter unless disabled, and the network last; otherwise it returns the error of the
  first call that fails. Any remote keystore is refused up front, so the branch that would
  report a failing one is never taken.\<close>

theorem new_full_spec:
  "new_full fails (Some hash) protocol_standard_name config =
     (if keystore_remote config \<noteq> None then Some (Inl RemoteKeystoreUnsupported)
      else case find (\<lambda>f. fails f \<noteq> None) (service_calls config) of
        None \<Rightarrow> Some (Inr (service_tasks (protocol_standard_name hash) config))
      | Some f \<Rightarrow> Some (Inl (Substrate (the (fails f)))))"
  by (cases "wants_telemetry config"; cases "is_authority config"; cases "disable_grandpa config";
      cases "offchain_worker_enabled config")
    (simp_all add: new_full_def new_partial_def start_voter_def service_calls_def service_tasks_def try_call_def and_then_def Let_def
        aura_params_def voter_config_def wants_telemetry_def
      split: option.split)

text \<open>The node votes with its keys exactly if it is an authority, never as an observer; and the tasks whose
  end takes the node down are the authoring task and the voter.\<close>

lemma voter_keys:
  assumes "GrandpaVoterTask c \<in> set (service_tasks protocol config)"
  shows "voter_keystore c \<longleftrightarrow> is_authority config" "local_authority c = voter_keystore c" "\<not> observer_enabled c"
    "protocol_name c \<in> {p. NetworkStarted (extra_sets config @ [p]) \<in> set (service_tasks protocol config)}"
  using assms by (auto simp: service_tasks_def voter_config_def split: if_splits)

lemma essential_tasks:
  "t \<in> set (service_tasks protocol config) \<Longrightarrow>
     (\<exists>name group blocking. spawned_as t = Some (name, group, True, blocking)) \<longleftrightarrow>
       is_authority config \<and> t = AuraTask (aura_params config) \<or>
       \<not> disable_grandpa config \<and> t = GrandpaVoterTask (voter_config protocol config)"
  by (auto simp: service_tasks_def spawned_as_def split: if_splits)

end
