(* ===== verification/Template_Pallet.thy ===== *)
theory Template_Pallet
  imports Weights
begin

text \<open>
  The template pallet (\<open>pallets/template/src/lib.rs\<close>): one optional 32-bit value, set by
  \<open>do_something\<close> and incremented, with a check for overflow, by \<open>cause_error\<close>; the weights the two
  calls are charged, and the benchmark of the first (\<open>benchmarking.rs\<close> beside it).
\<close>

datatype 'acc template_event = SomethingStored u32 'acc

datatype template_error = TemplateBadOrigin | NoneValue | StorageOverflow

record 'acc template_storage =
  something :: "u32 option"
  template_events :: "'acc template_event list"

definition template_signed :: "'acc origin \<Rightarrow> (template_error, 'acc) result" where
  "template_signed origin = (case ensure_signed origin of Inl _ \<Rightarrow> Inl TemplateBadOrigin | Inr who \<Rightarrow> Inr who)"

definition do_something ::
  "'acc origin \<Rightarrow> u32 \<Rightarrow> 'acc template_storage \<Rightarrow> (template_error, 'acc template_storage) result" where
  "do_something origin value st =
     (case template_signed origin of
        Inl err \<Rightarrow> Inl err
      | Inr who \<Rightarrow>
          let st1 = st\<lparr>something := Some value\<rparr> in
          Inr (st1\<lparr>template_events := template_events st1 @ [SomethingStored value who]\<rparr>))"

definition cause_error ::
  "'acc origin \<Rightarrow> 'acc template_storage \<Rightarrow> (template_error, 'acc template_storage) result" where
  "cause_error origin st =
     (case template_signed origin of
        Inl err \<Rightarrow> Inl err
      | Inr _ \<Rightarrow>
          (case something st of
             None \<Rightarrow> Inl NoneValue
           | Some old \<Rightarrow>
               (case checked_add old 1 of
                  None \<Rightarrow> Inl StorageOverflow
                | Some new \<Rightarrow> Inr (st\<lparr>something := Some new\<rparr>))))"

text \<open>\<open>n\<close> increments, the first error ends them.\<close>

primrec increments :: "'acc \<Rightarrow> nat \<Rightarrow> 'acc template_storage \<Rightarrow> (template_error, 'acc template_storage) result" where
  "increments a 0 st = Inr st"
| "increments a (Suc n) st = (case cause_error (Signed a) st of Inl err \<Rightarrow> Inl err | Inr st' \<Rightarrow> increments a n st')"

lemma cause_error_signed:
  "cause_error (Signed a) st =
     (case something st of
        None \<Rightarrow> Inl NoneValue
      | Some old \<Rightarrow> if unat old = 2 ^ 32 - 1 then Inl StorageOverflow else Inr (st\<lparr>something := Some (old + 1)\<rparr>))"
proof -
  have "2 ^ 32 \<le> unat old + 1 \<longleftrightarrow> unat old = 2 ^ 32 - 1" for old :: u32
  proof -
    have "unat old < 2 ^ 32" using unsigned_less [of old] by simp
    then show ?thesis by auto
  qed
  then show ?thesis
    by (simp add: cause_error_def template_signed_def ensure_signed_def checked_add_def split: option.split)
qed

text \<open>The stored value of the template pallet counts: after \<open>do_something(v)\<close>, \<open>n\<close> calls of
  \<open>cause_error\<close> succeed exactly when \<open>v + n\<close> fits 32 bits and leave \<open>v + n\<close>; otherwise one of
  them fails with \<open>StorageOverflow\<close>. Without a value they fail with \<open>NoneValue\<close>.\<close>

theorem template_counts:
  "(case increments a n st of
      Inr st' \<Rightarrow> (case something st of
         None \<Rightarrow> n = 0 \<and> st' = st
       | Some v \<Rightarrow> unat v + n < 2 ^ 32 \<and> st' = st\<lparr>something := Some (v + of_nat n)\<rparr>)
    | Inl err \<Rightarrow> 0 < n \<and> (case something st of
         None \<Rightarrow> err = NoneValue | Some v \<Rightarrow> 2 ^ 32 \<le> unat v + n \<and> err = StorageOverflow))"
proof (induction n arbitrary: st)
  case 0
  then show ?case using unsigned_less [of "the (something st)"] by (cases st) (auto split: option.split)
next
  case (Suc n)
  show ?case
  proof (cases "something st")
    case None
    then show ?thesis by (simp add: cause_error_signed)
  next
    case (Some v)
    show ?thesis
    proof (cases "unat v = 2 ^ 32 - 1")
      case True
      with Some show ?thesis by (simp add: cause_error_signed)
    next
      case False
      have "unat v < 2 ^ 32" using unsigned_less [of v] by simp
      with False have "unat v + 1 < 2 ^ 32" by linarith
      then have v: "unat (v + 1) = unat v + 1" by (simp add: unat_add_fits)
      have "increments a (Suc n) st = increments a n (st\<lparr>something := Some (v + 1)\<rparr>)"
        using Some False by (simp add: cause_error_signed)
      with Suc [of "st\<lparr>something := Some (v + 1)\<rparr>"] v Some show ?thesis
        by (auto simp: add.assoc split: sum.splits)
    qed
  qed
qed

section \<open>Weights and benchmark\<close>

text \<open>The weight attributes use the plain addition. What one read together with one write costs
  (\<open>DbWeight::get().reads_writes\<close>) is the runtime database's, as in \<open>Weights\<close>.\<close>

definition do_something_weight :: "bool \<Rightarrow> db_weight \<Rightarrow> weight run" where
  "do_something_weight overflow DbWeight = rs_add overflow 10000 (writes DbWeight 1)"

definition cause_error_weight :: "bool \<Rightarrow> (weight \<Rightarrow> weight \<Rightarrow> weight) \<Rightarrow> weight run" where
  "cause_error_weight overflow reads_writes = rs_add overflow 10000 (reads_writes 1 1)"

text \<open>Where a read together with a write costs their saturated sum, failing is never cheaper than
  storing, as long as both weights are below the end of their range.\<close>

lemma template_weights_ordered:
  assumes "reads_writes 1 1 = saturating_add (reads db 1) (writes db 1)"
    and "10000 + unat (reads db 1) + unat (writes db 1) < 2 ^ 64"
  shows "\<exists>w w'. do_something_weight overflow db = Some w \<and> cause_error_weight overflow reads_writes = Some w' \<and>
    unat w' = unat w + unat (reads db 1)"
  using assms
  by (simp add: do_something_weight_def cause_error_weight_def rs_add_def unat_saturating_add unat_add_fits)

text \<open>The benchmark of \<open>do_something\<close> for one component value: the call as signed by the whitelisted
  caller, then the check of \<open>verify\<close>. A failing call and a failing assertion both panic.\<close>

definition benchmark_do_something :: "'acc \<Rightarrow> u32 \<Rightarrow> 'acc template_storage \<Rightarrow> 'acc template_storage run" where
  "benchmark_do_something whitelisted_caller s st =
     (let caller = whitelisted_caller in
      case do_something (Signed caller) s st of
        Inl _ \<Rightarrow> None
      | Inr st' \<Rightarrow> if something st' = Some s then Some st' else None)"

lemma benchmark_do_something_passes:
  "\<exists>st'. benchmark_do_something caller s st = Some st' \<and>
     template_events st' = template_events st @ [SomethingStored s caller]"
  by (simp add: benchmark_do_something_def do_something_def template_signed_def ensure_signed_def)

end
