(* ===== verification/Path_Lengths.thy ===== *)
theory Path_Lengths
  imports Shortest_Paths
begin

text \<open>
  How long a stored path can get. In a run that ends without a negative cycle the entry of \<open>k\<close> to
  itself is never negative, so the round of \<open>k\<close> leaves the row and the column of \<open>k\<close> alone and joins
  paths of before the round only: the longest path at most doubles with each round, and no path has
  more than \<open>2 ^ n\<close> steps for \<open>n\<close> vertices. With a negative cycle it may grow eightfold.
\<close>

section \<open>Values of the format\<close>

fun representable :: "f64 \<Rightarrow> bool" where
  "representable (Fin r) = (rnd_real r = r)"
| "representable c = True"

lemma rnd_representable: "representable (rnd x)"
  by (simp add: rnd_def Let_def rnd_real_representable)

lemma add_representable: "representable a \<Longrightarrow> representable c \<Longrightarrow> representable (a + c)"
  by (cases a; cases c) (simp_all add: plus_f64_def rnd_representable)

lemma add_not_negative:
  assumes "b \<le> 968" "\<not> a < 0" "cost_in b a" "cost_in b c" "representable c"
  shows "\<not> a + c < c" "\<not> c + a < c"
proof -
  have "0 \<le> a" using assms(2,3) by (cases a) (simp_all add: zero_f64_def)
  moreover have "c \<le> c" using assms(4) by (cases c) simp_all
  ultimately have "0 + c \<le> a + c"
    using assms(3,4) by (intro f64_add_mono) (auto simp: zero_f64_def)
  moreover have "c \<le> 0 + c"
    using assms(1,4,5) rnd_Fin(1) [of _ b] by (cases c) (simp_all add: zero_f64_def plus_f64_def)
  ultimately have "c \<le> a + c" by (rule f64_le_trans [rotated])
  then show "\<not> a + c < c" using f64_le_less_trans f64_less_irrefl by blast
  then show "\<not> c + a < c" by (simp add: f64_add_commute)
qed

section \<open>One round\<close>

text \<open>How long the path of a cell can get in the round of \<open>k\<close>, from \<open>n\<close> steps before it: in general
  (\<open>True\<close>), and if the entry of \<open>k\<close> to itself is not negative.\<close>

definition cell_length :: "bool \<Rightarrow> nat \<Rightarrow> nat \<Rightarrow> nat \<Rightarrow> nat \<Rightarrow> nat" where
  "cell_length neg n k i j =
     (if i = k \<and> j = k then (if neg then 2 * n else n)
      else if i = k \<or> j = k then (if neg then 4 * n else n)
      else if neg then 8 * n else 2 * n)"

lemma cell_length_bounds: "n \<le> cell_length neg n k i j" "cell_length neg n k i j \<le> n * (if neg then 8 else 2)"
  by (simp_all add: cell_length_def)

abbreviation growth :: "bool \<Rightarrow> nat" where
  "growth neg \<equiv> (if neg then 8 else 2)"

definition short_paths :: "bool \<Rightarrow> nat \<Rightarrow> nat \<Rightarrow> (nat \<times> nat) list \<Rightarrow> matrix \<Rightarrow> bool" where
  "short_paths neg n k xs m \<longleftrightarrow> (\<forall>i j p. mat m i j = Some p \<longrightarrow> representable (p_cost p) \<and>
     length (p_edges p) \<le> (if (i, j) \<in> set xs then n else cell_length neg n k i j))"

lemma short_pathsD:
  "short_paths neg n k xs m \<Longrightarrow> mat m i j = Some p \<Longrightarrow> representable (p_cost p) \<and>
     length (p_edges p) \<le> (if (i, j) \<in> set xs then n else cell_length neg n k i j)"
  unfolding short_paths_def by blast

lemma short_paths_cell:
  "short_paths neg n k xs m \<Longrightarrow> mat m i j = Some p \<Longrightarrow>
     representable (p_cost p) \<and> length (p_edges p) \<le> cell_length neg n k i j"
  using short_pathsD [of neg n k xs m i j p] cell_length_bounds(1) [of n neg k i j] by (auto split: if_split_asm)

lemma short_paths_growth:
  "short_paths neg n k xs m \<Longrightarrow> mat m i j = Some p \<Longrightarrow>
     representable (p_cost p) \<and> length (p_edges p) \<le> n * growth neg"
  using short_paths_cell [of neg n k xs m i j p] cell_length_bounds(2) [of neg n k i j] by linarith

lemma short_paths_next:
  assumes "short_paths neg n k (c # xs) m"
  shows "short_paths neg n k xs m"
  unfolding short_paths_def
proof (intro allI impI)
  fix i j p
  assume "mat m i j = Some p"
  with short_pathsD [OF assms this] short_paths_cell [OF assms this]
  show "representable (p_cost p) \<and>
      length (p_edges p) \<le> (if (i, j) \<in> set xs then n else cell_length neg n k i j)" by (cases "(i, j) \<in> set xs") simp_all
qed

text \<open>A joined path of the round is within the bound, whichever of its halves are of the round.\<close>

lemma joined_length:
  assumes short: "short_paths neg n k ((i, j) # xs) m"
    and pq: "mat m i k = Some p" "mat m k j = Some q" and "neg \<or> i \<noteq> k \<and> j \<noteq> k"
  shows "length (p_edges p) + length (p_edges q) \<le> cell_length neg n k i j"
proof -
  have p: "length (p_edges p) \<le> cell_length neg n k i k" "j = k \<Longrightarrow> length (p_edges p) \<le> n"
    using short_paths_cell [OF short pq(1)] short_pathsD [OF short pq(1)] by simp_all
  have q: "length (p_edges q) \<le> cell_length neg n k k j" "i = k \<Longrightarrow> length (p_edges q) \<le> n"
    using short_paths_cell [OF short pq(2)] short_pathsD [OF short pq(2)] by simp_all
  show ?thesis
    using p q assms(4) by (cases "i = k"; cases "j = k"; cases neg) (simp_all add: cell_length_def)
qed

lemma improves_elsewhere:
  assumes mid: "mid_round b k xs m" and short: "short_paths neg n k xs m" and kk: "\<not> cost_at m k k < 0"
    and pq: "mat m i k = Some p" "mat m k j = Some q" "p_cost p + p_cost q < cost_at m i j"
  shows "i \<noteq> k \<and> j \<noteq> k"
proof (intro conjI notI)
  have c: "cost_in (b + 2) (p_cost p)" "cost_in (b + 2) (p_cost q)"
    using mid_round_reads(3) [OF mid, of i] mid_round_reads(4) [OF mid, of j] pq(1,2) by (simp_all add: cost_at_def)
  note b = mid_round_reads(1) [OF mid]
  show False if "i = k"
  proof -
    have "representable (p_cost q)" using short_pathsD [OF short pq(2)] by simp
    moreover have "\<not> p_cost p < 0" "cost_at m i j = p_cost q" using that pq(1,2) kk by (simp_all add: cost_at_def)
    ultimately show False using pq(3) add_not_negative(1) [OF b _ c] by simp
  qed
  show False if "j = k"
  proof -
    have "representable (p_cost p)" using short_pathsD [OF short pq(1)] by simp
    moreover have "\<not> p_cost q < 0" "cost_at m i j = p_cost p" using that pq(1,2) kk by (simp_all add: cost_at_def)
    ultimately show False using pq(3) add_not_negative(2) [OF b _ c(2,1)] by simp
  qed
qed

lemma short_paths_step:
  assumes mid: "mid_round b k ((i, j) # xs) m" and short: "short_paths neg n k ((i, j) # xs) m"
    and kk: "neg \<or> \<not> cost_at m k k < 0"
  shows "short_paths neg n k xs (fw_relax k i j m)"
proof -
  have new: "(i, j) \<notin> set xs" and wf: "bm_wf m" using mid by (simp_all add: mid_round_def)
  note r = mid_round_reads [OF mid]
  from r(1) r(2) [of i j] r(3) [of i] r(4) [of j] show ?thesis
  proof (cases rule: relax_cases)
    case stay
    with short_paths_next [OF short] show ?thesis by simp
  next
    case (improve p q)
    have "neg \<or> i \<noteq> k \<and> j \<noteq> k" using kk improves_elsewhere [OF mid short _ improve(1-3)] by blast
    from joined_length [OF short improve(1,2) this]
    have "length (p_edges p @ p_edges q) \<le> cell_length neg n k i j" by simp
    moreover have "representable (p_cost p + p_cost q)"
      using short_pathsD [OF short improve(1)] short_pathsD [OF short improve(2)] by (simp add: add_representable)
    ultimately show ?thesis
      using short_paths_next [OF short] new improve(5) wf by (simp add: short_paths_def)
  qed
qed

lemma short_paths_cells:
  "mid_round b k xs m \<Longrightarrow> short_paths neg n k xs m \<Longrightarrow> neg \<or> \<not> cost_at (relax_cells k xs m) k k < 0 \<Longrightarrow>
     short_paths neg n k [] (relax_cells k xs m)"
proof (induction xs arbitrary: m)
  case (Cons c xs)
  obtain i j where c: "c = (i, j)" by (cases c)
  let ?m = "fw_relax k i j m"
  have mid: "mid_round b k xs ?m" using Cons.prems(1) unfolding c by (rule mid_round_step)
  have "cost_at (relax_cells k (c # xs) m) k k \<le> cost_at m k k"
    using Cons.prems(1) by (rule relax_cells_decreases)
  then have "neg \<or> \<not> cost_at m k k < 0" using Cons.prems(3) f64_le_less_trans by blast
  from short_paths_step [OF Cons.prems(1,2) [unfolded c] this]
  have "short_paths neg n k xs ?m" .
  from Cons.IH [OF mid this] Cons.prems(3) show ?case by (simp add: c)
qed simp

section \<open>All rounds\<close>

lemma rounds_decrease:
  "moderate b m \<Longrightarrow> b + 3 * length ks \<le> 969 \<Longrightarrow> distinct vs \<Longrightarrow>
     cost_at (fold (fw_round vs) ks m) i j \<le> cost_at m i j"
proof (induction ks arbitrary: b m)
  case Nil
  then show ?case using cost_in_not_NaN by (auto simp: moderate_def)
next
  case (Cons k ks)
  then have "moderate (b + 3) (fw_round vs k m)" by (intro round_moderate) auto
  from Cons.IH [OF this] Cons.prems
  have "cost_at (fold (fw_round vs) ks (fw_round vs k m)) i j \<le> cost_at (fw_round vs k m) i j" by simp
  also have "\<dots> \<le> cost_at m i j" using Cons.prems by (intro round_decreases [OF Cons.prems(1)]) auto
  finally show ?case by simp
qed

lemma rounds_lengths:
  assumes "moderate b m" "b + 3 * length ks \<le> 969" "distinct vs"
    and "\<And>i j p. mat m i j = Some p \<Longrightarrow> representable (p_cost p) \<and> length (p_edges p) \<le> n"
    and "neg \<or> (\<forall>k \<in> set ks. \<not> cost_at (fold (fw_round vs) ks m) k k < 0)"
    and "mat (fold (fw_round vs) ks m) i j = Some p"
  shows "length (p_edges p) \<le> n * growth neg ^ length ks"
  using assms(1,2,4-)
proof (induction ks arbitrary: b m n)
  case (Cons k ks)
  let ?m = "fw_round vs k m"
  have mod: "moderate (b + 3) ?m" using Cons.prems(1,2) assms(3) by (intro round_moderate) auto
  have mid: "mid_round b k (List.product vs vs) m"
    using Cons.prems(1,2) assms(3) by (intro moderate_mid_round) auto
  have "cost_at (fold (fw_round vs) ks ?m) k k \<le> cost_at ?m k k"
    using mod Cons.prems(2) assms(3) by (intro rounds_decrease [of "b + 3"]) auto
  moreover have "neg \<or> \<not> cost_at (fold (fw_round vs) ks ?m) k k < 0" using Cons.prems(4) by auto
  ultimately have "neg \<or> \<not> cost_at ?m k k < 0" using f64_le_less_trans by blast
  moreover have "representable (p_cost q) \<and> length (p_edges q) \<le> (if (a, d) \<in> set (List.product vs vs)
      then n else cell_length neg n k a d)" if "mat m a d = Some q" for a d q
    using Cons.prems(3) [OF that] by (simp add: cell_length_def)
  then have "short_paths neg n k (List.product vs vs) m" by (simp add: short_paths_def)
  ultimately have "short_paths neg n k [] ?m" using short_paths_cells [OF mid] by (simp add: fw_round_cells)
  from short_paths_growth [OF this] have "length (p_edges p) \<le> n * growth neg * growth neg ^ length ks"
    using Cons.prems(2,4,5) by (intro Cons.IH [OF mod]) auto
  then show ?case by (simp only: length_Cons power_Suc mult.assoc)
qed (use Cons in auto)

text \<open>The paths of the matrix of the algorithm.\<close>

lemma fw_matrix_lengths:
  assumes "distinct (map e_pair edges)" "small_graph b edges" "\<forall>e \<in> set edges. representable (e_cost e)"
    and "neg \<or> (\<forall>i \<in> vertices_of edges. \<not> cost_at (fw_matrix edges) i i < 0)"
    and "mat (fw_matrix edges) i j = Some p"
  shows "length (p_edges p) \<le> growth neg ^ card (vertices_of edges)"
proof -
  let ?vs = "scan_vertices edges"
  have "representable (p_cost q) \<and> length (p_edges q) \<le> 1"
    if "mat (fw_init ?vs edges) a d = Some q" for a d q
  proof -
    have "e \<in> set edges" if "find P edges = Some e" for P e using that by (auto simp: find_Some_iff)
    then show ?thesis using that assms(3)
      by (auto simp: fw_init_mat [OF assms(1)] zero_f64_def split: option.splits if_splits)
  qed
  from rounds_lengths [OF init_moderate [OF assms(1,2)] size_ok [OF assms(2)] scan_vertices(3) this, where neg = neg]
    assms(4,5) show ?thesis
    by (simp only: fw_matrix_def fw_loops_rounds scan_vertices length_scan_vertices mult_1)
qed

end
