(* ===== verification/Near_Best.thy ===== *)
theory Near_Best
  imports Best_Rates Path_Lengths
begin

text \<open>
  How far rounding can take \<open>longest_paths_mult\<close> from the best exchange rate, for any rates: the
  error of a sum of \<open>n\<close> rounded logarithms is at most \<open>n * (n - 1)\<close> units in the last place of the
  largest one, so a returned chain is the best one up to the errors of two sums, and a cycle that
  gains more than the error of its sum is reported as arbitrage. Rates that are powers of two leave
  no error: there the chain found is the best one.
\<close>

section \<open>The error of a rounded sum\<close>

lemma powi_m53: "(2::real) powi - 53 = 1 / 2 ^ 53"
  by (simp only: power_int_minus power_int_numeral inverse_eq_divide)

lemma rnd_real_error_le:
  assumes "\<bar>x\<bar> \<le> R" "1 \<le> R"
  shows "\<bar>rnd_real x - x\<bar> \<le> R / 2 ^ 53"
proof (cases "2 powi - 1022 \<le> \<bar>x\<bar>")
  case True
  have "\<bar>rnd_real x - x\<bar> = \<bar>rnd_real \<bar>x\<bar> - \<bar>x\<bar>\<bar>"
    by (cases "0 \<le> x") (simp_all add: rnd_real_uminus)
  also have "\<dots> \<le> \<bar>x\<bar> / 2 ^ 53" using rnd_real_error [OF True] by (simp only: powi_m53 times_divide_eq_right mult_1_right)
  also have "\<dots> \<le> R / 2 ^ 53" using assms(1) by (simp add: divide_right_mono)
  finally show ?thesis .
next
  case False
  show ?thesis
  proof (cases "x = 0")
    case nz: False
    then have "2 powi expo \<bar>x\<bar> \<le> \<bar>x\<bar>" using expo_bounds [of "\<bar>x\<bar>"] by simp
    with False have "(2::real) powi expo \<bar>x\<bar> < 2 powi - 1022" by linarith
    then have "expo \<bar>x\<bar> < - 1022" unfolding powi_less_iff .
    then have u: "ulp_exp x = - 1074" by (simp add: ulp_exp_def)
    let ?u = "2 powi ulp_exp x :: real"
    have "rnd_real x - x = (of_int (rne (x / ?u)) - x / ?u) * ?u"
      using nz by (simp add: rnd_real_def left_diff_distrib)
    then have "\<bar>rnd_real x - x\<bar> = \<bar>of_int (rne (x / ?u)) - x / ?u\<bar> * ?u" by (simp add: abs_mult)
    also have "\<dots> \<le> 1 / 2 * ?u" by (intro mult_right_mono rne_error) simp
    also have "\<dots> \<le> 2 powi - 53"
    proof -
      have "(2::real) powi - 1074 \<le> 2 powi - 53" unfolding powi_le_iff by simp
      with powi_pos [of "- 1074"] show ?thesis unfolding u by linarith
    qed
    also have "\<dots> = 1 / 2 ^ 53" by (rule powi_m53)
    also have "\<dots> \<le> R / 2 ^ 53" using assms(2) by (simp add: divide_right_mono)
    finally show ?thesis .
  qed (use assms in simp)
qed

text \<open>The exact cost of an edge and of a chain, and the costs an addition may meet.\<close>

definition real_cost :: "edge \<Rightarrow> real" where
  "real_cost e = (case e_cost e of Fin x \<Rightarrow> x | _ \<Rightarrow> 0)"

abbreviation real_sum :: "edge list \<Rightarrow> real" where
  "real_sum es \<equiv> sum_list (map real_cost es)"

definition real_costs :: "nat \<Rightarrow> edge set \<Rightarrow> bool" where
  "real_costs b E \<longleftrightarrow>
     (\<forall>e \<in> E. e_cost e = Fin (real_cost e) \<and> rnd_real (real_cost e) = real_cost e \<and> \<bar>real_cost e\<bar> \<le> 2 ^ b)"

lemma representable_costs: "real_costs b (set es) \<Longrightarrow> \<forall>e \<in> set es. representable (e_cost e)"
  unfolding real_costs_def by (metis representable.simps(1))

definition sum_error :: "nat \<Rightarrow> nat \<Rightarrow> real" where
  "sum_error b n = real n * (real n - 1) * 2 ^ b / 2 ^ 52"

lemma sum_error_nonneg: "0 \<le> sum_error b n"
  by (cases n) (simp_all add: sum_error_def)

lemma sum_error_node:
  assumes "0 < k" "0 < l"
  shows "sum_error b k + sum_error b l + real (k + l) * 2 ^ b / 2 ^ 52 \<le> sum_error b (k + l)"
proof -
  from assms have "1 \<le> real k" "1 \<le> real l" by simp_all
  then have "real l \<le> real k * real l" "real k \<le> real k * real l"
    using mult_right_mono [of 1 "real k" "real l"] mult_left_mono [of 1 "real l" "real k"] by simp_all
  then have "real k * (real k - 1) + real l * (real l - 1) + real (k + l) \<le> real (k + l) * (real (k + l) - 1)"
    by (simp add: algebra_simps)
  then have "(real k * (real k - 1) + real l * (real l - 1) + real (k + l)) * (2 ^ b / 2 ^ 52)
      \<le> real (k + l) * (real (k + l) - 1) * (2 ^ b / 2 ^ 52)"
    by (rule mult_right_mono) simp
  then show ?thesis unfolding sum_error_def by (simp only: distrib_right times_divide_eq_right add_divide_distrib)
qed

lemma sum_error_le:
  assumes "n \<le> 2 ^ 52"
  shows "sum_error b n \<le> real n * 2 ^ b"
proof (cases "n = 0")
  case False
  have "real n \<le> 2 ^ 52" using assms by (metis of_nat_le_iff of_nat_numeral of_nat_power)
  then have "(real n - 1) / 2 ^ 52 \<le> 1" by (simp add: divide_le_eq)
  then have "real n * 2 ^ b * ((real n - 1) / 2 ^ 52) \<le> real n * 2 ^ b * 1" by (intro mult_left_mono) simp_all
  then show ?thesis by (simp add: sum_error_def mult_ac)
qed (simp add: sum_error_def)

lemma real_sum_bound: "real_costs b E \<Longrightarrow> set es \<subseteq> E \<Longrightarrow> \<bar>real_sum es\<bar> \<le> real (length es) * 2 ^ b"
proof (induction es)
  case (Cons e es)
  then have "\<bar>real_cost e\<bar> \<le> 2 ^ b" "\<bar>real_sum es\<bar> \<le> real (length es) * 2 ^ b" by (auto simp: real_costs_def)
  then show ?case by (simp add: distrib_right)
qed simp

lemma tree_cost_error:
  assumes "real_costs b E" "b \<le> 969"
  shows "tree_cost es c \<Longrightarrow> set es \<subseteq> E \<Longrightarrow> length es \<le> 2 ^ 52 \<Longrightarrow>
     \<exists>r. c = Fin r \<and> rnd_real r = r \<and> \<bar>r - real_sum es\<bar> \<le> sum_error b (length es)"
proof (induction rule: tree_cost.induct)
  case nil
  then show ?case by (simp add: zero_f64_def sum_error_def)
next
  case (leaf e)
  with assms(1) show ?case by (auto simp: real_costs_def sum_error_def)
next
  case (node es a fs c)
  then obtain x y where x: "a = Fin x" "rnd_real x = x" "\<bar>x - real_sum es\<bar> \<le> sum_error b (length es)"
    and y: "c = Fin y" "rnd_real y = y" "\<bar>y - real_sum fs\<bar> \<le> sum_error b (length fs)" by auto
  let ?k = "length es" and ?l = "length fs"
  have len: "?k \<le> 2 ^ 52" "?l \<le> 2 ^ 52" "?k + ?l \<le> 2 ^ 52" using node.prems(2) by simp_all
  have sub: "set es \<subseteq> E" "set fs \<subseteq> E" using node.prems(1) by simp_all
  have "\<bar>x\<bar> \<le> 2 * (real ?k * 2 ^ b)" "\<bar>y\<bar> \<le> 2 * (real ?l * 2 ^ b)"
    using x(3) y(3) real_sum_bound [OF assms(1) sub(1)] real_sum_bound [OF assms(1) sub(2)]
      sum_error_le [OF len(1), of b] sum_error_le [OF len(2), of b] by linarith+
  then have xy: "\<bar>x + y\<bar> \<le> 2 * (real (?k + ?l) * 2 ^ b)" by (simp add: distrib_right)
  have "real (?k + ?l) \<le> 2 ^ 52" using len(3) by (metis of_nat_le_iff of_nat_numeral of_nat_power)
  then have "2 * (real (?k + ?l) * 2 ^ b) \<le> 2 * (2 ^ 52 * 2 ^ b)" by (intro mult_left_mono mult_right_mono) simp_all
  also have "\<dots> = 2 ^ (53 + b)" by (simp add: power_add)
  finally have "\<bar>x + y\<bar> \<le> 2 ^ (53 + b)" using xy by linarith
  then have sum: "a + c = Fin (rnd_real (x + y))" using rnd_Fin(1) assms(2) by (simp add: x(1) y(1) plus_f64_def)
  have "\<bar>rnd_real (x + y) - (real_sum es + real_sum fs)\<bar> \<le> sum_error b (?k + ?l)"
  proof (cases "0 < ?k \<and> 0 < ?l")
    case True
    then have "1 \<le> real (?k + ?l)" by (cases es) simp_all
    moreover have "(1::real) \<le> 2 ^ b" by simp
    ultimately have "1 * 1 \<le> real (?k + ?l) * 2 ^ b" by (intro mult_mono) simp_all
    then have "1 \<le> 2 * (real (?k + ?l) * 2 ^ b)" by linarith
    from rnd_real_error_le [OF xy this]
    have "\<bar>rnd_real (x + y) - (x + y)\<bar> \<le> real (?k + ?l) * 2 ^ b / 2 ^ 52" by (simp add: mult.commute)
    with x(3) y(3) sum_error_node [of ?k ?l b] True show ?thesis by linarith
  next
    case False
    then have "es = [] \<and> x = 0 \<or> fs = [] \<and> y = 0" using x(3) y(3) by (auto simp: sum_error_def)
    with x y show ?thesis by auto
  qed
  then show ?case by (simp add: sum rnd_real_representable)
qed

section \<open>The sum of a chain in the order of the rounds\<close>

lemma split_cost_tree:
  assumes "distinct (map e_pair edges)"
  shows "walk (set edges) i ws j \<Longrightarrow> ws \<noteq> [] \<Longrightarrow> distinct (stops ws) \<Longrightarrow> set (stops ws) \<subseteq> set ks \<Longrightarrow>
     tree_cost ws (split_cost (direct_cost edges) ks i (stops ws) j)"
proof (induction ks arbitrary: i ws j)
  case Nil
  then obtain e where ws: "ws = [e]" by (cases ws) (auto simp: stops_Cons split: if_splits)
  with Nil.prems have "e \<in> set edges" "e_pair e = Pair i j" by (auto intro: pair.expand)
  with direct_cost_edge [OF assms] ws show ?case by (simp add: stops_Cons tree_cost.leaf)
next
  case (Cons k ks)
  show ?case
  proof (cases "k \<in> set (stops ws)")
    case True
    from split_at [OF Cons.prems(3) True] obtain ys zs where xs: "stops ws = ys @ k # zs"
      "takeWhile (\<lambda>x. x \<noteq> k) (stops ws) = ys" "tl (dropWhile (\<lambda>x. x \<noteq> k) (stops ws)) = zs"
      "k \<notin> set ys" "k \<notin> set zs" "distinct ys" "distinct zs" by blast
    from stops_split [OF xs(1)] obtain us vs where uv: "ws = us @ vs" "us \<noteq> []" "vs \<noteq> []"
      "stops us = ys" "stops vs = zs" "end_of us = k" by blast
    from walk_split [OF uv(2)] uv Cons.prems(1)
    have walks: "walk (set edges) i us k" "walk (set edges) k vs j" by blast+
    have "set ys \<subseteq> set ks" "set zs \<subseteq> set ks" using Cons.prems(4) xs by auto
    then have "tree_cost us (split_cost (direct_cost edges) ks i ys k)"
      "tree_cost vs (split_cost (direct_cost edges) ks k zs j)"
      using Cons.IH [OF walks(1) uv(2)] Cons.IH [OF walks(2) uv(3)] uv(4,5) xs(6,7) by auto
    from tree_cost.node [OF this] show ?thesis using True xs(2,3) uv(1) by simp
  qed (use Cons in auto)
qed

lemma fw_matrix_near_simple:
  assumes distinct: "distinct (map e_pair edges)" and costs: "real_costs b (set edges)"
    and small: "b + 3 * card (vertices_of edges) \<le> 969"
    and ws: "walk (set edges) i ws j" "ws \<noteq> []" "distinct (stops ws)"
  shows "cost_at (fw_matrix edges) i j \<le> Fin (real_sum ws + sum_error b (length ws))"
proof -
  let ?c = "split_cost (direct_cost edges) (rev (scan_vertices edges)) i (stops ws) j"
  have sub: "set (stops ws) \<subseteq> vertices_of edges" using ws(1) by (rule set_stops)
  have graph: "small_graph b edges" using costs small by (auto simp: small_graph_def real_costs_def)
  have "finite (vertices_of edges)" by (simp add: vertices_of_def)
  with sub ws(3) have "length (stops ws) \<le> card (vertices_of edges)" by (metis card_mono distinct_card)
  then have "length ws \<le> 324" using length_stops [OF ws(2)] small by linarith
  then have len: "length ws \<le> 2 ^ 52" by simp
  have "tree_cost ws ?c" using ws sub by (intro split_cost_tree [OF distinct]) (simp_all add: scan_vertices)
  from tree_cost_error [OF costs _ this walk_edges [OF ws(1)] len] small obtain r where
    r: "?c = Fin r" "\<bar>r - real_sum ws\<bar> \<le> sum_error b (length ws)" by auto
  have "cost_at (fw_matrix edges) i j \<le> ?c"
    using walk_ends [OF ws(1,2)] ws(3) sub by (intro fw_matrix_optimal [OF distinct graph]) auto
  also have "\<dots> \<le> Fin (real_sum ws + sum_error b (length ws))" using r by simp
  finally show ?thesis .
qed

lemma sum_error_append: "sum_error b k + sum_error b l \<le> sum_error b (k + l)"
proof (cases "0 < k \<and> 0 < l")
  case True
  then have "0 \<le> real (k + l) * 2 ^ b / (2::real) ^ 52" by simp
  with sum_error_node [of k l b] True show ?thesis by linarith
qed (auto simp: sum_error_def)

lemma fw_matrix_near:
  assumes distinct: "distinct (map e_pair edges)" and costs: "real_costs b (set edges)"
    and small: "b + 3 * card (vertices_of edges) \<le> 969"
    and pos: "\<forall>i \<in> vertices_of edges. \<not> cost_at (fw_matrix edges) i i < 0"
  shows "walk (set edges) i ws j \<Longrightarrow> ws \<noteq> [] \<Longrightarrow>
     cost_at (fw_matrix edges) i j \<le> Fin (real_sum ws + sum_error b (length ws))"
proof (induction "length ws" arbitrary: i ws j rule: less_induct)
  case less
  show ?case
  proof (cases "distinct (stops ws)")
    case False
    from walk_cut [OF less.prems(1) False] obtain us cs vs k where w:
      "ws = us @ cs @ vs" "us \<noteq> []" "cs \<noteq> []" "vs \<noteq> []" "walk (set edges) i us k"
      "walk (set edges) k cs k" "walk (set edges) k vs j" by blast
    have "cost_at (fw_matrix edges) k k \<le> Fin (real_sum cs + sum_error b (length cs))"
      using w(1-4) by (intro less.hyps) (simp_all add: w(6))
    moreover have "\<not> cost_at (fw_matrix edges) k k < 0" using pos walk_ends [OF w(6,3)] by blast
    ultimately have "0 \<le> real_sum cs + sum_error b (length cs)" by (rule nonneg_below_Fin)
    moreover have "sum_error b (length cs) + sum_error b (length us + length vs) \<le> sum_error b (length ws)"
      using sum_error_append [of b "length cs" "length us + length vs"] by (simp add: w(1) ac_simps)
    moreover have "cost_at (fw_matrix edges) i j \<le> Fin (real_sum (us @ vs) + sum_error b (length (us @ vs)))"
      using w(1-4) by (intro less.hyps walk_join [OF w(5,7)]) simp_all
    ultimately show ?thesis
      using f64_le_trans [of _ "Fin (real_sum (us @ vs) + sum_error b (length (us @ vs)))"] by (simp add: w(1))
  qed (use fw_matrix_near_simple [OF distinct costs small less.prems] in blast)
qed

section \<open>Rates and their logarithms\<close>

text \<open>What is assumed of \<open>log2\<close>: on the rates at hand it returns a number of the format within
  \<open>\<delta>\<close> of the logarithm. (The platform's \<open>log2\<close> is accurate to an ulp or so.)\<close>

definition accurate_rates :: "(f64 \<Rightarrow> f64) \<Rightarrow> real \<Rightarrow> nat \<Rightarrow> edge list \<Rightarrow> bool" where
  "accurate_rates log2 \<delta> b edges \<longleftrightarrow>
     (\<forall>e \<in> set edges. \<exists>x l. e_cost e = Fin x \<and> 0 < x \<and> log2 (Fin x) = Fin l \<and> rnd_real l = l \<and>
        \<bar>l\<bar> \<le> 2 ^ b \<and> \<bar>l - log 2 x\<bar> \<le> \<delta>) \<and>
     b + 3 * card (vertices_of edges) \<le> 969"

definition rate_product :: "edge list \<Rightarrow> real" where
  "rate_product es = prod_list (map real_cost es)"

text \<open>The error of a chain of \<open>n\<close> rates, in bits: its rounded sum, and its \<open>n\<close> logarithms.\<close>

definition log_error :: "nat \<Rightarrow> real \<Rightarrow> nat \<Rightarrow> real" where
  "log_error b \<delta> n = sum_error b n + real n * \<delta>"

lemma accurate_rates_not_NaN: "accurate_rates log2 \<delta> b edges \<Longrightarrow> \<forall>e \<in> set edges. e_cost e \<noteq> NaN"
  by (auto simp: accurate_rates_def)

lemma accurate_real_costs:
  assumes "accurate_rates log2 \<delta> b edges" "set es \<subseteq> set edges" "set gs = set (map (log_edge log2) es)"
  shows "real_costs b (set gs)"
proof -
  have "e_cost (log_edge log2 e) = Fin (real_cost (log_edge log2 e)) \<and>
      rnd_real (real_cost (log_edge log2 e)) = real_cost (log_edge log2 e) \<and> \<bar>real_cost (log_edge log2 e)\<bar> \<le> 2 ^ b"
    if "e \<in> set es" for e
  proof -
    from assms(1,2) that obtain x l where "e_cost e = Fin x" "log2 (Fin x) = Fin l" "rnd_real l = l" "\<bar>l\<bar> \<le> 2 ^ b"
      unfolding accurate_rates_def by blast
    then show ?thesis by (simp add: real_cost_def uminus_f64_def rnd_real_uminus)
  qed
  with assms(3) show ?thesis by (auto simp: real_costs_def)
qed

lemma rate_product_log:
  assumes "accurate_rates log2 \<delta> b edges" "set ws \<subseteq> set edges"
  shows "0 < rate_product ws \<and>
     \<bar>real_sum (map (log_edge log2) ws) + log 2 (rate_product ws)\<bar> \<le> real (length ws) * \<delta>"
  using assms(2)
proof (induction ws)
  case (Cons e ws)
  then have IH: "0 < rate_product ws"
    "\<bar>real_sum (map (log_edge log2) ws) + log 2 (rate_product ws)\<bar> \<le> real (length ws) * \<delta>" by simp_all
  from assms(1) Cons.prems obtain x l where e: "e_cost e = Fin x" "0 < x" "log2 (Fin x) = Fin l"
    "\<bar>l - log 2 x\<bar> \<le> \<delta>" unfolding accurate_rates_def by (metis list.set_intros(1) subsetD)
  then have r: "real_cost e = x" "real_cost (log_edge log2 e) = - l" by (simp_all add: real_cost_def uminus_f64_def)
  have prod: "rate_product (e # ws) = x * rate_product ws" by (simp add: rate_product_def r)
  then have "log 2 (rate_product (e # ws)) = log 2 x + log 2 (rate_product ws)"
    using IH(1) e(2) by (simp add: log_mult)
  with IH e(2,4) prod r show ?case by (simp add: distrib_right)
qed (simp add: rate_product_def)

lemma accurate_graph:
  assumes "accurate_rates log2 \<delta> b edges" "vertices_of gs = vertices_of edges" "real_costs b (set gs)"
  shows "small_graph b gs" "b + 3 * card (vertices_of gs) \<le> 969" "b \<le> 969"
  using assms by (auto simp: small_graph_def accurate_rates_def real_costs_def)

lemma near_path:
  assumes rates: "accurate_rates log2 \<delta> b edges"
    and es: "set es \<subseteq> set edges" "set gs = set (map (log_edge log2) es)" "distinct (map e_pair gs)"
      "vertices_of gs = vertices_of edges" "\<forall>i \<in> vertices_of edges. \<not> cost_at (fw_matrix gs) i i < 0"
    and ws: "walk (set es) i ws j" "ws \<noteq> []"
  shows "cost_at (fw_matrix gs) i j \<le> Fin (- log 2 (rate_product ws) + log_error b \<delta> (length ws))"
proof -
  note costs = accurate_real_costs [OF rates es(1,2)]
  have sub: "set ws \<subseteq> set es" using walk_edges [OF ws(1)] .
  have "walk (set gs) i (map (log_edge log2) ws) j" using ws(1) walk_log_edges [OF sub] es(2) by simp
  with accurate_graph(2) [OF rates es(4) costs] ws(2) es(4,5)
  have "cost_at (fw_matrix gs) i j \<le>
      Fin (real_sum (map (log_edge log2) ws) + sum_error b (length (map (log_edge log2) ws)))"
    by (intro fw_matrix_near [OF es(3) costs]) simp_all
  also have "\<dots> \<le> Fin (- log 2 (rate_product ws) + log_error b \<delta> (length ws))"
    using rate_product_log [OF rates subset_trans [OF sub es(1)]] by (simp add: log_error_def abs_le_iff)
  finally show ?thesis .
qed

lemma log_le_product:
  assumes "0 < x" "0 < y" "log 2 x \<le> log 2 y + e"
  shows "x \<le> y * 2 powr e"
proof -
  have "x = 2 powr log 2 x" using assms(1) by simp
  also have "\<dots> \<le> 2 powr (log 2 y + e)" using assms(3) by simp
  also have "\<dots> = y * 2 powr e" using assms(2) by (simp add: powr_add)
  finally show ?thesis .
qed

lemma stored_path_error:
  assumes rates: "accurate_rates log2 \<delta> b edges"
    and es: "set es \<subseteq> set edges" "set gs = set (map (log_edge log2) es)" "vertices_of gs = vertices_of edges"
    and pl: "tree_cost (map (log_edge log2) qs) c" "set qs \<subseteq> set es" "length qs \<le> 2 ^ 52"
  shows "\<exists>r. c = Fin r \<and> \<bar>r + log 2 (rate_product qs)\<bar> \<le> log_error b \<delta> (length qs)"
proof -
  note costs = accurate_real_costs [OF rates es(1,2)]
  have "set (map (log_edge log2) qs) \<subseteq> set gs" using pl(2) es(2) by auto
  with tree_cost_error [OF costs accurate_graph(3) [OF rates es(3) costs] pl(1)] pl(3)
  obtain r where "c = Fin r" "\<bar>r - real_sum (map (log_edge log2) qs)\<bar> \<le> sum_error b (length qs)" by auto
  moreover have "\<bar>real_sum (map (log_edge log2) qs) + log 2 (rate_product qs)\<bar> \<le> real (length qs) * \<delta>"
    using rate_product_log [OF rates] pl(2) es(1) by blast
  ultimately show ?thesis by (auto simp: log_error_def)
qed

text \<open>Every stored path is a walk over the selected edges, and not too long.\<close>

lemma stored_walk:
  assumes "accurate_rates log2 \<delta> b edges" "longest_paths_mult log2 edges = Some (Inr m)"
    and "unique_cheapest_edges edges Greater = Some es" "bm_get m (Pair i j) = Some p"
  shows "walk (set es) i (p_edges p) j" "length (p_edges p) \<le> 2 ^ card (vertices_of edges)"
proof -
  from accurate_rates_not_NaN [OF assms(1)] assms(2)
  obtain es' gs where es': "unique_cheapest_edges edges Greater = Some es'"
    "unique_cheapest_edges (map (log_edge log2) es') Less = Some gs"
    "set es' \<subseteq> set edges" "set gs = set (map (log_edge log2) es')" "distinct (map e_pair gs)"
    "vertices_of gs = vertices_of edges" "e_pair ` set gs = e_pair ` set edges"
    "\<forall>i \<in> vertices_of edges. \<not> cost_at (fw_matrix gs) i i < 0"
    "\<forall>i j. rel_option (restores log2 (set es')) (mat (fw_matrix gs) i j) (mat m i j)"
    by (rule longest_paths_matrix)
  have eq: "es' = es" using es'(1) assms(3) by simp
  note es = es'(3-6,8,9) [unfolded eq]
  have "mat m i j = Some p" using assms(4) by (simp add: mat_def)
  then obtain pl where pl: "mat (fw_matrix gs) i j = Some pl" "restores log2 (set es) pl p"
    using es(6) by (metis option_rel_Some2)
  note costs = accurate_real_costs [OF assms(1) es(1,2)]
  note graph = accurate_graph [OF assms(1) es(4) costs]
  have path: "walk (set gs) i (p_edges pl) j" using fw_matrix_paths [OF es(3) graph(1) pl(1)] by (simp add: proper_path_def)
  note r = restores_walk [OF pl(2) path es(2)]
  show "walk (set es) i (p_edges p) j" by (rule r(1))
  have "length (p_edges pl) \<le> 2 ^ card (vertices_of gs)"
    using fw_matrix_lengths [OF es(3) graph(1) representable_costs [OF costs] _ pl(1), of False] es(4,5) by simp
  then show "length (p_edges p) \<le> 2 ^ card (vertices_of edges)" by (simp add: r(2) es(4))
qed

lemma near_best:
  assumes "accurate_rates log2 \<delta> b edges" "longest_paths_mult log2 edges = Some (Inr m)"
    and "unique_cheapest_edges edges Greater = Some es" "walk (set es) i ws j" "ws \<noteq> []"
  shows "\<exists>p. bm_get m (Pair i j) = Some p \<and> walk (set es) i (p_edges p) j \<and>
     length (p_edges p) \<le> 2 ^ card (vertices_of edges) \<and>
     (length (p_edges p) \<le> 2 ^ 52 \<longrightarrow>
        rate_product ws \<le> rate_product (p_edges p) *
          2 powr (log_error b \<delta> (length ws) + log_error b \<delta> (length (p_edges p))))"
proof -
  from accurate_rates_not_NaN [OF assms(1)] assms(2)
  obtain es' gs where es': "unique_cheapest_edges edges Greater = Some es'"
    "unique_cheapest_edges (map (log_edge log2) es') Less = Some gs"
    "set es' \<subseteq> set edges" "set gs = set (map (log_edge log2) es')" "distinct (map e_pair gs)"
    "vertices_of gs = vertices_of edges" "e_pair ` set gs = e_pair ` set edges"
    "\<forall>i \<in> vertices_of edges. \<not> cost_at (fw_matrix gs) i i < 0"
    "\<forall>i j. rel_option (restores log2 (set es')) (mat (fw_matrix gs) i j) (mat m i j)"
    by (rule longest_paths_matrix)
  have eq: "es' = es" using es'(1) assms(3) by simp
  note es = es'(3-6,8,9) [unfolded eq]
  have near: "cost_at (fw_matrix gs) i j \<le> Fin (- log 2 (rate_product ws) + log_error b \<delta> (length ws))"
    by (rule near_path [OF assms(1) es(1-5) assms(4,5)])
  then obtain pl where pl: "mat (fw_matrix gs) i j = Some pl"
    by (cases "mat (fw_matrix gs) i j") (auto simp: cost_at_def)
  with es(6) obtain p where p: "mat m i j = Some p" "restores log2 (set es) pl p" by (metis option_rel_Some1)
  note graph = accurate_graph [OF assms(1) es(4) accurate_real_costs [OF assms(1) es(1,2)]]
  from fw_matrix_paths [OF es(3) graph(1) pl]
  have path: "walk (set gs) i (p_edges pl) j" "tree_cost (p_edges pl) (p_cost pl)" by (simp_all add: proper_path_def)
  note r = restores_walk [OF p(2) path(1) es(2)]
  have sub: "set (p_edges p) \<subseteq> set es" using walk_edges [OF r(1)] .
  have "rate_product ws \<le> rate_product (p_edges p) *
      2 powr (log_error b \<delta> (length ws) + log_error b \<delta> (length (p_edges p)))"
    if "length (p_edges p) \<le> 2 ^ 52"
  proof -
    from stored_path_error [OF assms(1) es(1,2,4) path(2) [unfolded r(2)] sub that] obtain c where
      "p_cost pl = Fin c" "\<bar>c + log 2 (rate_product (p_edges p))\<bar> \<le> log_error b \<delta> (length (p_edges p))" by blast
    with near have "log 2 (rate_product ws) \<le> log 2 (rate_product (p_edges p)) +
        (log_error b \<delta> (length ws) + log_error b \<delta> (length (p_edges p)))"
      by (simp add: cost_at_def pl abs_le_iff)
    then show ?thesis using subset_trans [OF sub es(1)] subset_trans [OF walk_edges [OF assms(4)] es(1)]
      by (intro log_le_product) (simp_all add: rate_product_log [OF assms(1)])
  qed
  moreover have "length (p_edges p) \<le> 2 ^ card (vertices_of edges)"
    using p(1) by (intro stored_walk(2) [OF assms(1-3)]) (simp add: mat_def)
  ultimately show ?thesis using p(1) r(1) by (auto simp: mat_def)
qed

text \<open>For any rates, \<open>longest_paths_mult\<close> comes within rounding of the best exchange rate: the
  exact product of every chain of the selected rates is at most the one of the returned chain times
  two to the power of the two chains' errors, each quadratic in the length and of the order of an
  ulp of the largest logarithm. (A chain of more than \<open>2 ^ 52\<close> steps fits in no memory.)\<close>

theorem longest_paths_mult_near_best:
  assumes "accurate_rates log2 \<delta> b edges" "longest_paths_mult log2 edges = Some (Inr m)"
    and "unique_cheapest_edges edges Greater = Some es" "walk (set es) i ws j" "ws \<noteq> []"
  shows "\<exists>p. bm_get m (Pair i j) = Some p \<and> walk (set es) i (p_edges p) j \<and>
     length (p_edges p) \<le> 2 ^ card (vertices_of edges) \<and>
     (length (p_edges p) \<le> 2 ^ 52 \<longrightarrow>
        rate_product ws \<le> rate_product (p_edges p) *
          2 powr (log_error b \<delta> (length ws) + log_error b \<delta> (length (p_edges p))))"
  by (rule near_best [OF assms])

lemma longest_paths_error:
  assumes "\<forall>e \<in> set edges. e_cost e \<noteq> NaN" "longest_paths_mult log2 edges = Some (Inl err)"
  obtains es gs i where "unique_cheapest_edges edges Greater = Some es" "set es \<subseteq> set edges"
    "set gs = set (map (log_edge log2) es)" "distinct (map e_pair gs)" "vertices_of gs = vertices_of edges"
    "i \<in> vertices_of edges" "cost_at (fw_matrix gs) i i < 0"
proof -
  from assms(1) obtain es where es: "unique_cheapest_edges edges Greater = Some es" "set es \<subseteq> set edges"
    "distinct (map e_pair es)" "vertices_of es = vertices_of edges"
    "distinct (map e_pair (map (log_edge log2) es))"
    "longest_paths_mult log2 edges = (case shortest_paths (map (log_edge log2) es) of
       None \<Rightarrow> None
     | Some (Inl err) \<Rightarrow> Some (Inl err)
     | Some (Inr m) \<Rightarrow> map_option (\<lambda>kvs. Inr (bm_collect kvs)) (run_map (restore_weights (rate_map es)) m))"
    by (rule longest_paths_selects)
  from es(5) obtain gs where gs: "unique_cheapest_edges (map (log_edge log2) es) Less = Some gs"
    "set gs = set (map (log_edge log2) es)" "distinct (map e_pair gs)"
    "shortest_paths (map (log_edge log2) es) =
       Some (if \<exists>i \<in> vertices_of (map (log_edge log2) es). cost_at (fw_matrix gs) i i < 0
             then Inl NegativeCycles else Inr (fw_matrix gs))"
    by (rule shortest_paths_distinct)
  have "vertices_of gs = vertices_of edges" using es(4) by (simp add: vertices_of_def gs(2))
  moreover obtain i where "i \<in> vertices_of edges" "cost_at (fw_matrix gs) i i < 0"
    using assms(2) es(4) by (auto simp: es(6) gs(4) split: if_splits)
  ultimately show thesis using that es(1,2) gs(2,3) by blast
qed

text \<open>An error comes from a cycle that gains, up to the error of its sum.\<close>

lemma error_cycle:
  assumes rates: "accurate_rates log2 \<delta> b edges" and "unique_cheapest_edges edges Greater = Some es"
    and "longest_paths_mult log2 edges = Some (Inl err)"
  shows "\<exists>i ws. walk (set es) i ws i \<and> ws \<noteq> [] \<and> length ws \<le> 8 ^ card (vertices_of edges) \<and>
     (length ws \<le> 2 ^ 52 \<longrightarrow> - log_error b \<delta> (length ws) < log 2 (rate_product ws))"
proof -
  from accurate_rates_not_NaN [OF rates] assms(3)
  obtain es' gs i where es': "unique_cheapest_edges edges Greater = Some es'" "set es' \<subseteq> set edges"
    "set gs = set (map (log_edge log2) es')" "distinct (map e_pair gs)" "vertices_of gs = vertices_of edges"
    "i \<in> vertices_of edges" "cost_at (fw_matrix gs) i i < 0"
    by (rule longest_paths_error)
  have eq: "es' = es" using es'(1) assms(2) by simp
  note es = es'(2-7) [unfolded eq]
  note graph = accurate_graph [OF rates es(4) accurate_real_costs [OF rates es(1,2)]]
  obtain pl where pl: "mat (fw_matrix gs) i i = Some pl" using fw_matrix_diag [OF es(3)] es(4,5) by blast
  from fw_matrix_paths [OF es(3) graph(1) pl]
  have path: "walk (set gs) i (p_edges pl) i" "tree_cost (p_edges pl) (p_cost pl)" by (simp_all add: proper_path_def)
  from path(1) log_walk_iff [OF es(2) [unfolded set_map]] obtain ws where
    ws: "set ws \<subseteq> set es" "p_edges pl = map (log_edge log2) ws" "walk (set es) i ws i" by blast
  have "length (p_edges pl) \<le> 8 ^ card (vertices_of gs)"
    using fw_matrix_lengths [OF es(3) graph(1) representable_costs [OF accurate_real_costs [OF rates es(1,2)]] _ pl, of True]
    by simp
  then have len: "length ws \<le> 8 ^ card (vertices_of edges)" by (simp add: ws(2) es(4))
  have neg: "p_cost pl < 0" using es(6) by (simp add: cost_at_def pl)
  have cost: "\<exists>r < 0. \<bar>r + log 2 (rate_product ws)\<bar> \<le> log_error b \<delta> (length ws)" if "length ws \<le> 2 ^ 52"
    using stored_path_error [OF rates es(1,2,4) path(2) [unfolded ws(2)] ws(1) that] neg
    by (auto simp: zero_f64_def)
  have "ws \<noteq> []"
  proof
    assume "ws = []"
    with cost show False by (auto simp: rate_product_def log_error_def sum_error_def)
  qed
  moreover have "- log_error b \<delta> (length ws) < log 2 (rate_product ws)" if "length ws \<le> 2 ^ 52"
    using cost [OF that] by linarith
  ultimately show ?thesis using ws(3) len by blast
qed

lemma near_arbitrage:
  assumes "accurate_rates log2 \<delta> b edges" "unique_cheapest_edges edges Greater = Some es"
  shows "(walk (set es) i ws i \<and> ws \<noteq> [] \<and> log_error b \<delta> (length ws) < log 2 (rate_product ws) \<longrightarrow>
       longest_paths_mult log2 edges = Some (Inl NegativeCycles)) \<and>
     (longest_paths_mult log2 edges = Some (Inl NegativeCycles) \<longrightarrow>
       (\<exists>i ws. walk (set es) i ws i \<and> ws \<noteq> [] \<and> length ws \<le> 8 ^ card (vertices_of edges) \<and>
          (length ws \<le> 2 ^ 52 \<longrightarrow> - log_error b \<delta> (length ws) < log 2 (rate_product ws))))"
proof (intro conjI impI)
  assume cycle: "walk (set es) i ws i \<and> ws \<noteq> [] \<and> log_error b \<delta> (length ws) < log 2 (rate_product ws)"
  obtain res where res: "longest_paths_mult log2 edges = Some res"
    using longest_paths_mult_total [OF accurate_rates_not_NaN [OF assms(1)]] by blast
  show "longest_paths_mult log2 edges = Some (Inl NegativeCycles)"
  proof (cases res)
    case (Inl err)
    with res show ?thesis by (cases err) simp
  next
    case (Inr m)
    from accurate_rates_not_NaN [OF assms(1)] res [unfolded Inr]
    obtain es' gs where es': "unique_cheapest_edges edges Greater = Some es'"
      "unique_cheapest_edges (map (log_edge log2) es') Less = Some gs"
      "set es' \<subseteq> set edges" "set gs = set (map (log_edge log2) es')" "distinct (map e_pair gs)"
      "vertices_of gs = vertices_of edges" "e_pair ` set gs = e_pair ` set edges"
      "\<forall>i \<in> vertices_of edges. \<not> cost_at (fw_matrix gs) i i < 0"
      "\<forall>i j. rel_option (restores log2 (set es')) (mat (fw_matrix gs) i j) (mat m i j)"
      by (rule longest_paths_matrix)
    have eq: "es' = es" using es'(1) assms(2) by simp
    note es = es'(3-6,8) [unfolded eq]
    have "cost_at (fw_matrix gs) i i \<le> Fin (- log 2 (rate_product ws) + log_error b \<delta> (length ws))"
      using cycle by (intro near_path [OF assms(1) es(1-5)]) simp_all
    moreover have "vertices_of gs = vertices_of es" by (simp add: vertices_of_def es(2))
    then have "i \<in> vertices_of edges" using cycle walk_ends [of es i ws i] es(4) by simp
    ultimately have "0 \<le> - log 2 (rate_product ws) + log_error b \<delta> (length ws)"
      using es(5) nonneg_below_Fin by blast
    with cycle show ?thesis by linarith
  qed
qed (rule error_cycle [OF assms])

text \<open>Arbitrage, for any rates: a cycle of selected rates whose product is above one by more than
  its error makes \<open>longest_paths_mult\<close> return \<open>NegativeCyclesError\<close>; and if it returns that error,
  some cycle of selected rates has a product above one, up to its error.\<close>

theorem longest_paths_mult_near_arbitrage:
  assumes "accurate_rates log2 \<delta> b edges" "unique_cheapest_edges edges Greater = Some es"
  shows "(walk (set es) i ws i \<and> ws \<noteq> [] \<and> log_error b \<delta> (length ws) < log 2 (rate_product ws) \<longrightarrow>
       longest_paths_mult log2 edges = Some (Inl NegativeCycles)) \<and>
     (longest_paths_mult log2 edges = Some (Inl NegativeCycles) \<longrightarrow>
       (\<exists>i ws. walk (set es) i ws i \<and> ws \<noteq> [] \<and> length ws \<le> 8 ^ card (vertices_of edges) \<and>
          (length ws \<le> 2 ^ 52 \<longrightarrow> - log_error b \<delta> (length ws) < log 2 (rate_product ws))))"
  by (rule near_arbitrage [OF assms])

section \<open>A correctly rounded logarithm is accurate\<close>

lemma rounded_log2_accurate:
  assumes "\<bar>log 2 x\<bar> \<le> 2 ^ b" "b < 1024" "0 < x"
  shows "\<exists>l. rounded_log2 (Fin x) = Fin l \<and> rnd_real l = l \<and> \<bar>l\<bar> \<le> 2 ^ b \<and> \<bar>l - log 2 x\<bar> \<le> 2 ^ b / 2 ^ 53"
  using rnd_Fin [OF assms(1,2)] rnd_real_error_le [OF assms(1)] assms(3) by (simp add: rnd_real_representable)

text \<open>So every set of positive rates from \<open>2 powr - (2 ^ b)\<close> to \<open>2 powr (2 ^ b)\<close> is accurate.\<close>

lemma rounded_accurate_rates:
  assumes "\<forall>e \<in> set edges. e_cost e = Fin (real_cost e) \<and> 0 < real_cost e \<and> \<bar>log 2 (real_cost e)\<bar> \<le> 2 ^ b"
    and "b + 3 * card (vertices_of edges) \<le> 969"
  shows "accurate_rates rounded_log2 (2 ^ b / 2 ^ 53) b edges"
  unfolding accurate_rates_def
proof (intro conjI ballI)
  fix e
  assume "e \<in> set edges"
  with assms(1) obtain x where x: "e_cost e = Fin x" "0 < x" "\<bar>log 2 x\<bar> \<le> 2 ^ b" by blast
  with rounded_log2_accurate [OF x(3) _ x(2)] assms(2)
  show "\<exists>x l. e_cost e = Fin x \<and> 0 < x \<and> rounded_log2 (Fin x) = Fin l \<and> rnd_real l = l \<and>
      \<bar>l\<bar> \<le> 2 ^ b \<and> \<bar>l - log 2 x\<bar> \<le> 2 ^ b / 2 ^ 53" by auto
qed (rule assms(2))

text \<open>Three rates that are no powers of two (the two steps gain fifteen, the direct rate seven), and a
  cycle that gains an eighth.\<close>

definition decimal_rates :: "edge list" where
  "decimal_rates =
     [\<lparr>e_pair = Pair 5 6, e_provider = 0, e_cost = Fin 3\<rparr>,
      \<lparr>e_pair = Pair 6 7, e_provider = 0, e_cost = Fin 5\<rparr>,
      \<lparr>e_pair = Pair 5 7, e_provider = 0, e_cost = Fin 7\<rparr>]"

definition gaining_rates :: "edge list" where
  "gaining_rates =
     [\<lparr>e_pair = Pair 5 6, e_provider = 0, e_cost = Fin 3\<rparr>,
      \<lparr>e_pair = Pair 6 5, e_provider = 0, e_cost = Fin (3 / 8)\<rparr>]"

lemma log2_small: "1 / 16 \<le> x \<Longrightarrow> x \<le> 16 \<Longrightarrow> \<bar>log 2 x\<bar> \<le> 2 ^ 2"
proof -
  assume x: "1 / 16 \<le> x" "x \<le> 16"
  have "log 2 (1 / 16) \<le> log 2 x" "log 2 x \<le> log 2 16" using x by simp_all
  moreover have "log 2 (16::real) = 4" "log 2 (1 / 16 :: real) = - 4"
    using log_pow_cancel [of 2 4] by (simp_all add: log_divide)
  ultimately show ?thesis by (simp add: abs_le_iff)
qed

lemma decimal_accurate: "accurate_rates rounded_log2 (2 ^ 2 / 2 ^ 53) 2 decimal_rates"
  using log2_small [of 3] log2_small [of 5] log2_small [of 7]
  by (intro rounded_accurate_rates) (simp_all add: decimal_rates_def real_cost_def vertices_of_def card_insert_if)

lemma gaining_accurate: "accurate_rates rounded_log2 (2 ^ 2 / 2 ^ 53) 2 gaining_rates"
  using log2_small [of 3] log2_small [of "3 / 8"]
  by (intro rounded_accurate_rates) (simp_all add: gaining_rates_def real_cost_def vertices_of_def card_insert_if)

lemma walk_increases:
  "\<forall>e \<in> E. source (e_pair e) < target (e_pair e) \<Longrightarrow> walk E i ws j \<Longrightarrow> ws \<noteq> [] \<Longrightarrow> i < j"
proof (induction ws arbitrary: i)
  case (Cons e ws)
  then show ?case by (cases ws) (auto intro: less_trans)
qed simp

lemma decimal_selected:
  obtains es where "unique_cheapest_edges decimal_rates Greater = Some es" "set es = set decimal_rates"
proof -
  have "distinct (map e_pair decimal_rates)" by (simp add: decimal_rates_def)
  then show thesis by (rule unique_cheapest_edges_distinct [where ord = Greater]) (rule that)
qed

lemma gaining_selected:
  obtains es where "unique_cheapest_edges gaining_rates Greater = Some es" "set es = set gaining_rates"
proof -
  have "distinct (map e_pair gaining_rates)" by (simp add: gaining_rates_def)
  then show thesis by (rule unique_cheapest_edges_distinct [where ord = Greater]) (rule that)
qed

lemma decimal_result:
  obtains m where "longest_paths_mult rounded_log2 decimal_rates = Some (Inr m)"
proof -
  obtain es where es: "unique_cheapest_edges decimal_rates Greater = Some es" "set es = set decimal_rates"
    by (rule decimal_selected)
  obtain res where res: "longest_paths_mult rounded_log2 decimal_rates = Some res"
    using longest_paths_mult_total [OF accurate_rates_not_NaN [OF decimal_accurate]] by blast
  have up: "\<forall>e \<in> set es. source (e_pair e) < target (e_pair e)" by (simp add: es(2) decimal_rates_def)
  show thesis
  proof (cases res)
    case (Inl err)
    with error_cycle [OF decimal_accurate es(1)] res walk_increases [OF up] show ?thesis by blast
  qed (use res that in simp)
qed

lemma decimal_walks:
  "walk (set decimal_rates) 5 ws 7 \<Longrightarrow> ws = take 2 decimal_rates \<or> ws = [decimal_rates ! 2]"
proof (cases ws)
  case (Cons e vs)
  assume "walk (set decimal_rates) 5 ws 7"
  with Cons show ?thesis by (cases vs; cases "tl vs") (auto simp: decimal_rates_def)
qed simp

theorem longest_paths_mult_near_best_witness:
  "\<exists>m p. longest_paths_mult rounded_log2 decimal_rates = Some (Inr m) \<and>
     bm_get m (Pair 5 7) = Some p \<and> p_edges p = take 2 decimal_rates"
proof -
  obtain m where m: "longest_paths_mult rounded_log2 decimal_rates = Some (Inr m)" by (rule decimal_result)
  obtain es where es: "unique_cheapest_edges decimal_rates Greater = Some es" "set es = set decimal_rates"
    by (rule decimal_selected)
  have "walk (set es) 5 (take 2 decimal_rates) 7" unfolding es(2) by (simp add: decimal_rates_def)
  moreover have len: "length (take 2 decimal_rates) = 2" "take 2 decimal_rates \<noteq> []"
    by (simp_all add: decimal_rates_def)
  ultimately obtain p where
    p: "bm_get m (Pair 5 7) = Some p" "walk (set decimal_rates) 5 (p_edges p) 7"
    "length (p_edges p) \<le> 2 ^ 52 \<longrightarrow>
        rate_product (take 2 decimal_rates) \<le> rate_product (p_edges p) *
          2 powr (log_error 2 (2 ^ 2 / 2 ^ 53) 2 + log_error 2 (2 ^ 2 / 2 ^ 53) (length (p_edges p)))"
    using longest_paths_mult_near_best [OF decimal_accurate m es(1), of 5 "take 2 decimal_rates" 7]
    unfolding es(2) len(1) by blast
  have "p_edges p \<noteq> [decimal_rates ! 2]"
  proof
    assume direct: "p_edges p = [decimal_rates ! 2]"
    have "log_error 2 (2 ^ 2 / 2 ^ 53) 2 + log_error 2 (2 ^ 2 / 2 ^ 53) 1 \<le> 1"
      by (simp add: log_error_def sum_error_def)
    then have "2 powr (log_error 2 (2 ^ 2 / 2 ^ 53) 2 + log_error 2 (2 ^ 2 / 2 ^ 53) 1) \<le> 2 powr 1"
      by (intro powr_mono) simp_all
    with p(3) direct show False by (simp add: decimal_rates_def rate_product_def real_cost_def)
  qed
  with m p(1) decimal_walks [OF p(2)] show ?thesis by blast
qed

theorem longest_paths_mult_near_arbitrage_witness:
  "longest_paths_mult rounded_log2 gaining_rates = Some (Inl NegativeCycles)"
proof -
  obtain es where es: "unique_cheapest_edges gaining_rates Greater = Some es" "set es = set gaining_rates"
    by (rule gaining_selected)
  have "log 2 2 \<le> log 2 ((9 / 8 :: real) ^ 8)" by (simp add: power_divide)
  then have "1 / 8 \<le> log 2 (9 / 8 :: real)" by (simp add: log_nat_power)
  then have "log_error 2 (2 ^ 2 / 2 ^ 53) 2 < log 2 (9 / 8 :: real)"
    by (rule less_le_trans [rotated]) (simp add: log_error_def sum_error_def)
  moreover have "walk (set es) 5 gaining_rates 5" "gaining_rates \<noteq> []" "length gaining_rates = 2"
    "rate_product gaining_rates = 9 / 8"
    unfolding es(2) by (simp_all add: gaining_rates_def rate_product_def real_cost_def)
  ultimately show ?thesis using longest_paths_mult_near_arbitrage [OF gaining_accurate es(1)] by metis
qed

section \<open>Powers of two\<close>

text \<open>A logarithm that is exact on the powers of two within the range of the exponents, and rates that
  are such powers.\<close>

definition exact_log2 :: "(f64 \<Rightarrow> f64) \<Rightarrow> bool" where
  "exact_log2 log2 \<longleftrightarrow> (\<forall>k. \<bar>k\<bar> \<le> 1022 \<longrightarrow> log2 (Fin (2 powi k)) = Fin (of_int k))"

definition power_rates :: "nat \<Rightarrow> edge list \<Rightarrow> bool" where
  "power_rates b edges \<longleftrightarrow> (\<forall>e \<in> set edges. \<exists>k. \<bar>k\<bar> \<le> 2 ^ b \<and> e_cost e = Fin (2 powi k)) \<and>
     b \<le> 9 \<and> b + 3 * card (vertices_of edges) \<le> 51"

lemma power_rate_exp:
  assumes "exact_log2 log2" "power_rates b edges" "e \<in> set edges"
  shows "log2 (e_cost e) = Fin (of_int (rate_exp log2 e)) \<and> \<bar>rate_exp log2 e\<bar> \<le> 2 ^ b \<and>
    e_cost e = Fin (2 powi rate_exp log2 e)"
proof -
  from assms(2,3) obtain k where k: "\<bar>k\<bar> \<le> 2 ^ b" "e_cost e = Fin (2 powi k)"
    unfolding power_rates_def by blast
  have "(2 :: int) ^ b \<le> 2 ^ 9" using assms(2) by (intro power_increasing) (simp_all add: power_rates_def)
  with k(1) have "\<bar>k\<bar> \<le> 1022" by simp
  with assms(1) k(2) have "log2 (e_cost e) = Fin (of_int k)" by (simp add: exact_log2_def)
  with k show ?thesis by (simp add: rate_exp_def)
qed

lemma power_int_rates:
  assumes "exact_log2 log2" "power_rates b edges"
  shows "int_rates log2 b edges"
proof -
  have "e_cost e \<noteq> NaN \<and> log2 (e_cost e) = Fin (of_int (rate_exp log2 e)) \<and> \<bar>rate_exp log2 e\<bar> \<le> 2 ^ b"
    if "e \<in> set edges" for e
    using power_rate_exp [OF assms that] by (metis f64.distinct)
  with assms(2) show ?thesis by (simp add: int_rates_def power_rates_def)
qed

lemma rate_product_powers:
  assumes "exact_log2 log2" "power_rates b edges" "set ws \<subseteq> set edges"
  shows "rate_product ws = 2 powi exp_sum log2 ws"
  using assms(3)
proof (induction ws)
  case (Cons e ws)
  with power_rate_exp [OF assms(1,2), of e] show ?case
    by (simp add: rate_product_def exp_sum_def real_cost_def power_int_add)
qed (simp add: rate_product_def exp_sum_def)

lemma two_powi_le_iff: "(2 :: real) powi a \<le> 2 powi b \<longleftrightarrow> a \<le> b"
  using power_int_increasing [of a b "2 :: real"] power_int_strict_increasing [of b a "2 :: real"] by force

text \<open>C5: Let the rates be powers of two, one per pair of currencies, and the logarithm exact on such
  powers. Then \<open>longest_paths_mult\<close> returns, and it finds the best exchange rates: it refuses the
  rates with \<open>NegativeCyclesError\<close> exactly when some cycle of them has a product above one, and
  otherwise returns for any two currencies that a chain of rates connects a chain whose product
  no other chain exceeds.\<close>

theorem longest_paths_mult_best:
  assumes "distinct (map e_pair edges)" "exact_log2 log2" "power_rates b edges"
  shows "\<exists>r. longest_paths_mult log2 edges = Some r \<and>
     (r = Inl NegativeCycles \<longleftrightarrow> (\<exists>i ws. walk (set edges) i ws i \<and> 1 < rate_product ws)) \<and>
     (\<forall>m i ws j. r = Inr m \<and> walk (set edges) i ws j \<and> ws \<noteq> [] \<longrightarrow>
        (\<exists>p. bm_get m (Pair i j) = Some p \<and> walk (set edges) i (p_edges p) j \<and>
           rate_product ws \<le> rate_product (p_edges p)))"
proof -
  note rates = power_int_rates [OF assms(2,3)]
  have product: "rate_product ws = 2 powi exp_sum log2 ws" if "walk (set edges) i ws j" for i ws j
    using rate_product_powers [OF assms(2,3) walk_edges [OF that]] .
  have "1 < rate_product ws \<longleftrightarrow> 0 < exp_sum log2 ws" if "walk (set edges) i ws i" for i ws
    using product [OF that] two_powi_le_iff [of "exp_sum log2 ws" 0] by force
  then have cycles: "longest_paths_mult log2 edges = Some (Inl NegativeCycles) \<longleftrightarrow>
      (\<exists>i ws. walk (set edges) i ws i \<and> 1 < rate_product ws)"
    using longest_paths_mult_arbitrage [OF assms(1) rates] by blast
  have best: "\<exists>p. bm_get m (Pair i j) = Some p \<and> walk (set edges) i (p_edges p) j \<and>
      rate_product ws \<le> rate_product (p_edges p)"
    if "longest_paths_mult log2 edges = Some (Inr m)" "walk (set edges) i ws j" "ws \<noteq> []" for m i ws j
    using longest_paths_mult_best_logs [OF assms(1) rates that] product two_powi_le_iff that(2) by metis
  obtain r where "longest_paths_mult log2 edges = Some r"
    using longest_paths_int [OF assms(1) rates] by metis
  with cycles best show ?thesis by auto
qed

lemma rounded_exact_log2: "exact_log2 rounded_log2"
  unfolding exact_log2_def using rounded_log2_powi by auto

lemma sample_power_rates: "power_rates 3 sample_rates"
proof -
  have powers: "(1 / 8 :: real) = 2 powi - 3" "(1 / 4 :: real) = 2 powi - 2" "(1 / 64 :: real) = 2 powi - 6"
    by (simp_all add: power_int_minus)
  have "\<exists>k. \<bar>k\<bar> \<le> 2 ^ 3 \<and> e_cost e = Fin (2 powi k)" if "e \<in> set sample_rates" for e
    using that unfolding sample_rates_def powers
    by (auto intro: exI [of _ "- 3"] exI [of _ "- 2"] exI [of _ "- 6"])
  then show ?thesis by (simp add: power_rates_def sample_rates_def vertices_of_def card_insert_if)
qed

theorem longest_paths_mult_best_witness:
  "\<exists>m p. longest_paths_mult rounded_log2 sample_rates = Some (Inr m) \<and> bm_get m (Pair 5 7) = Some p \<and>
     walk (set sample_rates) 5 (p_edges p) 7 \<and> 1 / 32 \<le> rate_product (p_edges p)"
proof -
  obtain m p where m: "longest_paths_mult rounded_log2 sample_rates = Some (Inr m)"
    "bm_get m (Pair 5 7) = Some p" by (rule sample_rates_result)
  have "walk (set sample_rates) 5 [sample_rates ! 0, sample_rates ! 1] 7"
    "rate_product [sample_rates ! 0, sample_rates ! 1] = 1 / 32"
    by (simp_all add: sample_rates_def rate_product_def real_cost_def)
  with longest_paths_mult_best [OF sample_int_rates(2) rounded_exact_log2 sample_power_rates] m
  show ?thesis by (metis list.distinct(1) option.inject)
qed

end
