(* ===== verification/Near_Prices.thy ===== *)
theory Near_Prices
  imports Near_Best Calculator
begin

text \<open>
  How near the calculator comes to the best exchange, in terms of the prices it is given: the
  rounding of a price to a rate, of the logarithm of a rate, and of the sums of logarithms together
  cost a factor just above one. Rates and sums are those of \<open>Near_Best\<close>; a chain of exchanges is a
  list of input items whose pairs follow on from one another.
\<close>

section \<open>The rate of a price\<close>

lemma ln_2_ge: "4 / 7 \<le> ln (2::real)"
proof -
  have "exp 4 = exp (1::real) ^ 4" by (simp add: exp_of_nat_mult [symmetric])
  also have "\<dots> \<le> 3 ^ 4" using exp_le by (intro power_mono) simp_all
  also have "\<dots> \<le> (2::real) ^ 7" by simp
  finally have "4 \<le> ln ((2::real) ^ 7)" by (simp add: ln_ge_iff)
  also have "\<dots> = 7 * ln 2" by (simp only: ln_realpow of_nat_numeral)
  finally show ?thesis by simp
qed

lemma log_rel_error:
  fixes x y e :: real
  assumes "0 < x" "\<bar>y - x\<bar> \<le> x * e" "e \<le> 1 / 8"
  shows "0 < y \<and> \<bar>log 2 y - log 2 x\<bar> \<le> 2 * e"
proof -
  have e: "0 \<le> e"
    using assms(1,2) abs_ge_zero [of "y - x"] by (metis linorder_not_le mult_pos_neg order_trans)
  have "x * e \<le> x * (1 / 8)" using assms(1,3) by (intro mult_left_mono) simp_all
  then have y: "7 / 8 * x \<le> y" using assms(2) by linarith
  with assms(1) have pos: "0 < y" by linarith
  have "ln y - ln x \<le> (y - x) / x" using ln_diff_le [OF pos assms(1)] .
  also have "\<dots> \<le> e" using assms(1,2) by (simp add: pos_divide_le_eq mult.commute)
  finally have up: "ln y - ln x \<le> 8 / 7 * e" using e by linarith
  have "ln x - ln y \<le> (x - y) / y" using ln_diff_le [OF assms(1) pos] .
  also have "\<dots> \<le> 8 / 7 * e"
  proof -
    have "x - y \<le> x * e" using assms(2) by linarith
    also have "\<dots> \<le> (8 / 7 * y) * e" using y e by (intro mult_right_mono) simp_all
    finally show ?thesis using pos by (simp add: pos_divide_le_eq mult_ac)
  qed
  finally have "\<bar>ln y - ln x\<bar> \<le> 8 / 7 * e" using up by linarith
  moreover have "(2 * e) * (4 / 7) \<le> 2 * e * ln 2" using ln_2_ge e by (intro mult_left_mono) simp_all
  ultimately have "\<bar>ln y - ln x\<bar> \<le> 2 * e * ln 2" using e by linarith
  then have "\<bar>ln y - ln x\<bar> / ln 2 \<le> 2 * e" by (simp add: pos_divide_le_eq)
  then have "\<bar>log 2 y - log 2 x\<bar> \<le> 2 * e" by (simp add: log_def diff_divide_distrib [symmetric])
  with pos show ?thesis by blast
qed

lemma rnd_log_error:
  assumes "2 powi - 1022 \<le> x"
  shows "0 < rnd_real x \<and> \<bar>log 2 (rnd_real x) - log 2 x\<bar> \<le> 1 / 2 ^ 52"
proof -
  have "0 < x" using powi_pos [of "- 1022"] assms by linarith
  moreover have "\<bar>rnd_real x - x\<bar> \<le> x * (1 / 2 ^ 53)"
    using rnd_real_error [OF assms] by (simp only: powi_m53)
  ultimately show ?thesis using log_rel_error [of x "rnd_real x" "1 / 2 ^ 53"] by simp
qed
text \<open>The price the input states, and the double the calculator makes of it.\<close>

definition price_of :: "('c, u128) priced \<Rightarrow> real" where
  "price_of x = real (unat (snd x)) / 10 ^ 12"

abbreviation rate_of :: "('c, u128) priced \<Rightarrow> real" where
  "rate_of x \<equiv> rnd_real (rnd_real (real (unat (snd x))) / 1000000000000)"

lemma rate_of:
  assumes "snd x \<noteq> 0"
  shows "f64_of_u128 (snd x) div PRECISION = Fin (rate_of x)" "2 powi - 40 \<le> rate_of x" "rate_of x \<le> 2 ^ 128"
    "0 < price_of x" "\<bar>log 2 (rate_of x) - log 2 (price_of x)\<bar> \<le> 1 / 2 ^ 51"
proof -
  let ?u = "real (unat (snd x))"
  let ?q = "rnd_real ?u"
  obtain r where r: "f64_of_u128 (snd x) div PRECISION = Fin r" "2 powi - 40 \<le> r" "r \<le> 2 ^ 128"
    using rate_Fin [of "snd x"] assms by metis
  have "unat (snd x) < 2 ^ 128" using unsigned_less [of "snd x"] by simp
  then have u128: "?u \<le> 2 ^ 128" by (metis of_nat_less_iff of_nat_numeral of_nat_power order_less_imp_le)
  then have "\<bar>?u\<bar> \<le> 2 ^ 128" by (simp only: abs_of_nat)
  note fin = rnd_Fin [OF this]
  have "1 \<le> unat (snd x)" using assms by (simp add: Suc_leI unat_gt_0)
  then have u: "1 \<le> ?u" by (metis of_nat_1 of_nat_le_iff)
  have small: "(2::real) powi - 1022 \<le> 2 powi - 40" unfolding powi_le_iff by simp
  then have "2 powi - 1022 \<le> ?u" using u by simp
  from rnd_log_error [OF this] have q: "0 < ?q" "\<bar>log 2 ?q - log 2 ?u\<bar> \<le> 1 / 2 ^ 52" by simp_all
  have "rnd_real (2 ^ 0) \<le> ?q" using u by (intro rnd_real_mono) simp
  then have q1: "1 \<le> ?q" by (simp only: rnd_real_pow2) simp
  then have "2 powi - 1022 \<le> ?q / 1000000000000" using small by simp
  from rnd_log_error [OF this] have
    d: "0 < rate_of x" "\<bar>log 2 (rate_of x) - log 2 (?q / 1000000000000)\<bar> \<le> 1 / 2 ^ 52" by simp_all
  have "\<bar>?q / 1000000000000\<bar> \<le> 2 ^ 128" using fin(2) q1 by simp
  from rnd_Fin(1) [OF this] fin(1) have "f64_of_u128 (snd x) div PRECISION = Fin (rate_of x)"
    by (simp add: f64_of_u128_def PRECISION_def divide_f64_def)
  then show "f64_of_u128 (snd x) div PRECISION = Fin (rate_of x)" .
  with r show "2 powi - 40 \<le> rate_of x" "rate_of x \<le> 2 ^ 128" by simp_all
  show "0 < price_of x" using u by (simp add: price_of_def)
  have "log 2 (?q / 1000000000000) = log 2 ?q - log 2 1000000000000" using q(1) by (simp add: log_divide)
  moreover have "log 2 (price_of x) = log 2 ?u - log 2 1000000000000" using u by (simp add: price_of_def log_divide)
  moreover have "\<bar>f - d\<bar> \<le> 1 / 2 ^ 51"
    if "a = b - c" "d = e - c" "\<bar>b - e\<bar> \<le> 1 / 2 ^ 52" "\<bar>f - a\<bar> \<le> 1 / 2 ^ 52" for a b c d e f :: real
  proof -
    have "\<bar>f - d\<bar> \<le> \<bar>f - a\<bar> + \<bar>b - e\<bar>" using that(1,2) by linarith
    also have "\<dots> \<le> 1 / 2 ^ 52 + 1 / 2 ^ 52" using that(3,4) by (rule add_mono [rotated])
    also have "\<dots> = 1 / 2 ^ 51" by simp
    finally show ?thesis .
  qed
  ultimately show "\<bar>log 2 (rate_of x) - log 2 (price_of x)\<bar> \<le> 1 / 2 ^ 51" using q(2) d(2) by blast
qed
section \<open>Chains of exchanges and walks of edges\<close>

definition price_product :: "('c, u128) priced list \<Rightarrow> real" where
  "price_product xs = prod_list (map price_of xs)"

abbreviation pair_of :: "('c, 'a) priced \<Rightarrow> 'c pair" where
  "pair_of x \<equiv> pp_pair (fst x)"

lemma walk_of_chain:
  assumes "set xs \<subseteq> set ps" "chain (currencies_of ps ! i) (map pair_of xs) t" "vertex_ok ps i"
  shows "\<exists>j. vertex_ok ps j \<and> currencies_of ps ! j = t \<and> walk (encode to ps ` set ps) i (map (encode to ps) xs) j"
  using assms
proof (induction xs arbitrary: i)
  case (Cons x xs)
  then have x: "x \<in> set ps" "source (pair_of x) = currencies_of ps ! i" by simp_all
  let ?e = "e_pair (encode to ps x)"
  have "source ?e = i"
    using encode_in_range(1,4) [OF x(1), of to] x(2) Cons.prems(3) nth_eq_iff_index_eq [OF distinct_currencies_of, of "source ?e" ps i]
    by (simp add: vertex_ok_def)
  moreover have "currencies_of ps ! target ?e = target (pair_of x)" "vertex_ok ps (target ?e)"
    using encode_in_range(2,5) [OF x(1), of to] by (simp_all add: vertex_ok_def)
  ultimately show ?case using Cons.IH [of "target ?e"] Cons.prems x(1) by auto
qed auto

lemma edges_of_inputs:
  assumes "set es \<subseteq> encode to ps ` set ps"
  shows "\<exists>ys. set ys \<subseteq> set ps \<and> es = map (encode to ps) ys"
  using assms
proof (induction es)
  case (Cons e es)
  then obtain ys y where "set ys \<subseteq> set ps" "es = map (encode to ps) ys" "y \<in> set ps" "e = encode to ps y" by auto
  then show ?case by (intro exI [of _ "y # ys"]) simp
qed simp

text \<open>With one price for a pair the selection keeps every edge.\<close>

definition one_price :: "('c, u128) priced list \<Rightarrow> bool" where
  "one_price ps \<longleftrightarrow> (\<forall>x \<in> set ps. \<forall>y \<in> set ps. pair_of x = pair_of y \<longrightarrow> snd x = snd y)"

lemma one_price_kept:
  assumes "set g = encode Some ps ` set ps" "\<forall>e \<in> set g. e_cost e \<noteq> NaN"
    and "one_price ps" and "unique_cheapest_edges g ord = Some es"
  shows "set es = set g"
proof
  obtain es' where "unique_cheapest_edges g ord = Some es'" "set es' \<subseteq> set g" by (rule unique_cheapest_edges_spec [OF assms(2)])
  with assms(4) show sub: "set es \<subseteq> set g" by simp
  show "set g \<subseteq> set es"
  proof
    fix e
    assume "e \<in> set g"
    then obtain x where x: "x \<in> set ps" "e = encode Some ps x" using assms(1) by auto
    have "e_pair e \<in> e_pair ` set es" using unique_cheapest_pairs [OF assms(4,2)] \<open>e \<in> set g\<close> by blast
    then obtain f where f: "f \<in> set es" "e_pair f = e_pair e" by auto
    with sub assms(1) obtain y where y: "y \<in> set ps" "f = encode Some ps y" by auto
    have "pair_of y = pair_of x"
      using decode_encode [OF x(1), of Some] decode_encode [OF y(1), of Some] f(2) x(2) y(2) by simp
    moreover from this have "snd y = snd x" using assms(3) x(1) y(1) unfolding one_price_def by blast
    moreover have "pp_provider (fst y) = pp_provider (fst x)" by (metis (full_types) provider.exhaust)
    ultimately have "y = x" by (metis prod_eqI provider_pair.expand)
    then have "f = e" by (simp add: x(2) y(2))
    with f(1) show "e \<in> set es" by simp
  qed
qed

lemma chain_of_walk:
  "set ys \<subseteq> set ps \<Longrightarrow> walk E i (map (encode to ps) ys) j \<Longrightarrow>
     chain (currencies_of ps ! i) (map pair_of ys) (currencies_of ps ! j)"
proof (induction ys arbitrary: i)
  case (Cons y ys)
  then have y: "y \<in> set ps" "i = source (e_pair (encode to ps y))"
    "walk E (target (e_pair (encode to ps y))) (map (encode to ps) ys) j" by simp_all
  have "chain (currencies_of ps ! target (e_pair (encode to ps y))) (map pair_of ys) (currencies_of ps ! j)"
    using Cons.IH [OF _ y(3)] Cons.prems(1) by simp
  with y encode_in_range(4,5) [OF y(1), of to] show ?case by simp
qed simp

section \<open>What is assumed of the logarithm\<close>

text \<open>On the doubles that prices can become it is within \<open>\<delta>\<close> of the logarithm.\<close>

definition accurate_log2 :: "(f64 \<Rightarrow> f64) \<Rightarrow> real \<Rightarrow> bool" where
  "accurate_log2 log2 \<delta> \<longleftrightarrow> \<delta> \<le> 1 \<and>
     (\<forall>r. rnd_real r = r \<and> 2 powi - 40 \<le> r \<and> r \<le> 2 ^ 128 \<longrightarrow>
        (\<exists>l. log2 (Fin r) = Fin l \<and> rnd_real l = l \<and> \<bar>l - log 2 r\<bar> \<le> \<delta>))"

lemma log_of_rate:
  assumes "2 powi - 40 \<le> r" "r \<le> 2 ^ 128"
  shows "\<bar>log 2 r\<bar> \<le> 128"
proof -
  have pos: "0 < r" using powi_pos [of "- 40"] assms(1) by linarith
  have "2 powr (- 40) \<le> r" "r \<le> 2 powr 128"
    using assms powr_real_of_int' [of 2 "- 40"] powr_real_of_int' [of 2 128] by simp_all
  then have "- 40 \<le> log 2 r" "log 2 r \<le> 128" using pos by (simp_all add: le_log_iff log_le_iff)
  then show ?thesis by simp
qed

lemma encoded_accurate:
  assumes "accurate_log2 log2 \<delta>" "length (currencies_of ps) \<le> 320" "set g = encode Some ps ` set ps"
    and "\<forall>x \<in> set ps. snd x \<noteq> 0"
  shows "accurate_rates log2 \<delta> 8 g"
proof -
  have "\<exists>x l. e_cost e = Fin x \<and> 0 < x \<and> log2 (Fin x) = Fin l \<and> rnd_real l = l \<and> \<bar>l\<bar> \<le> 2 ^ 8 \<and> \<bar>l - log 2 x\<bar> \<le> \<delta>"
    if "e \<in> set g" for e
  proof -
    from that assms(3) obtain x where x: "x \<in> set ps" "e = encode Some ps x" by auto
    then have "snd x \<noteq> 0" using assms(4) by blast
    note r = rate_of [OF this]
    have "e_cost e = Fin (rate_of x)" using r(1) by (simp add: x(2) encode_def)
    moreover have "0 < rate_of x" using powi_pos [of "- 40"] r(2) by linarith
    moreover obtain l where l: "log2 (Fin (rate_of x)) = Fin l" "rnd_real l = l" "\<bar>l - log 2 (rate_of x)\<bar> \<le> \<delta>"
      using assms(1) r(2,3) rnd_real_representable unfolding accurate_log2_def by blast
    moreover have "\<delta> \<le> 1" using assms(1) by (simp add: accurate_log2_def)
    then have "\<bar>l\<bar> \<le> 256" using l(3) log_of_rate [OF r(2,3)] by linarith
    then have "\<bar>l\<bar> \<le> 2 ^ 8" by simp
    ultimately show ?thesis by blast
  qed
  moreover have "8 + 3 * card (vertices_of g) \<le> 969" using card_vertices_of_encode [OF assms(3)] assms(2) by simp
  ultimately show ?thesis unfolding accurate_rates_def by blast
qed

lemma product_of_prices:
  assumes "\<forall>x \<in> set xs. snd x \<noteq> 0"
  shows "0 < price_product xs \<and> 0 < rate_product (map (encode Some ps) xs) \<and>
     \<bar>log 2 (rate_product (map (encode Some ps) xs)) - log 2 (price_product xs)\<bar> \<le> real (length xs) / 2 ^ 51"
  using assms
proof (induction xs)
  case (Cons x xs)
  then have "snd x \<noteq> 0" by simp
  note r = rate_of [OF this]
  have pos: "0 < rate_of x" using powi_pos [of "- 40"] r(2) by linarith
  from Cons have IH: "0 < price_product xs" "0 < rate_product (map (encode Some ps) xs)"
    "\<bar>log 2 (rate_product (map (encode Some ps) xs)) - log 2 (price_product xs)\<bar> \<le> real (length xs) / 2 ^ 51" by simp_all
  have prod: "rate_product (map (encode Some ps) (x # xs)) = rate_of x * rate_product (map (encode Some ps) xs)"
    "price_product (x # xs) = price_of x * price_product xs"
    by (simp_all add: rate_product_def price_product_def real_cost_def encode_def r(1))
  then have "log 2 (rate_product (map (encode Some ps) (x # xs))) = log 2 (rate_of x) + log 2 (rate_product (map (encode Some ps) xs))"
    "log 2 (price_product (x # xs)) = log 2 (price_of x) + log 2 (price_product xs)"
    using pos r(4) IH by (simp_all add: log_mult)
  moreover have "real (length (x # xs)) / 2 ^ 51 = 1 / 2 ^ 51 + real (length xs) / 2 ^ 51" by (simp add: add_divide_distrib)
  moreover have "\<bar>(a + b) - (c + d)\<bar> \<le> e + f" if "\<bar>a - c\<bar> \<le> e" "\<bar>b - d\<bar> \<le> f" for a b c d e f :: real
    using that by linarith
  ultimately have "\<bar>log 2 (rate_product (map (encode Some ps) (x # xs))) - log 2 (price_product (x # xs))\<bar>
      \<le> real (length (x # xs)) / 2 ^ 51" using r(5) IH(3) by metis
  with prod pos r(4) IH show ?case by simp
qed (simp add: rate_product_def price_product_def)

section \<open>The best chain of exchanges\<close>

text \<open>The error of a chain of \<open>n\<close> prices, in bits.\<close>

definition price_error :: "real \<Rightarrow> nat \<Rightarrow> real" where
  "price_error \<delta> n = log_error 8 (\<delta> + 1 / 2 ^ 51) n"

lemma price_error: "log_error 8 \<delta> n + real n / 2 ^ 51 = price_error \<delta> n"
  by (simp add: price_error_def log_error_def distrib_left)

lemma powr_le_exp: "0 \<le> e \<Longrightarrow> e \<le> 1 \<Longrightarrow> 2 powr e \<le> 1 + e + e\<^sup>2" for e :: real
proof -
  assume e: "0 \<le> e" "e \<le> 1"
  have "ln (2::real) \<le> 1" using ln_le_minus_one [of 2] by simp
  then have "e * ln 2 \<le> e * 1" using e(1) by (rule mult_left_mono)
  then have "2 powr e \<le> exp e" by (simp add: powr_def)
  also have "\<dots> \<le> 1 + e + e\<^sup>2" using e by (rule exp_bound)
  finally show ?thesis .
qed

lemma price_error_small:
  assumes "\<delta> \<le> 1 / 2 ^ 40" "n \<le> 320"
  shows "price_error \<delta> n \<le> 1 / 10 ^ 8"
proof (cases "n = 0")
  case False
  have n: "real n \<le> 320" using assms(2) by simp
  have "real n * (real n - 1) \<le> 320 * 319" using n False by (intro mult_mono) simp_all
  then have "sum_error 8 n \<le> 320 * 319 * 2 ^ 8 / 2 ^ 52"
    unfolding sum_error_def by (intro divide_right_mono mult_right_mono) simp_all
  moreover have "real n * (\<delta> + 1 / 2 ^ 51) \<le> real n * (1 / 2 ^ 40 + 1 / 2 ^ 51)"
    using assms(1) by (intro mult_left_mono) simp_all
  moreover have "real n * (1 / 2 ^ 40 + 1 / 2 ^ 51) \<le> 320 * (1 / 2 ^ 40 + 1 / 2 ^ 51)"
    using n by (intro mult_right_mono) simp_all
  ultimately have "price_error \<delta> n \<le> 320 * 319 * 2 ^ 8 / 2 ^ 52 + 320 * (1 / 2 ^ 40 + 1 / 2 ^ 51)"
    unfolding price_error_def log_error_def by linarith
  also have "\<dots> \<le> 1 / 10 ^ 8" by simp
  finally show ?thesis .
qed (simp add: price_error_def log_error_def sum_error_def)

lemma price_error_factor:
  assumes "\<delta> \<le> 1 / 2 ^ 40" "k \<le> 320" "n \<le> 320"
  shows "2 powr (price_error \<delta> k + price_error \<delta> n) \<le> 1 + 3 / 10 ^ 8"
proof -
  have "price_error \<delta> k + price_error \<delta> n \<le> 2 / 10 ^ 8"
    using price_error_small [OF assms(1,2)] price_error_small [OF assms(1,3)] by simp
  then have "2 powr (price_error \<delta> k + price_error \<delta> n) \<le> 2 powr (2 / 10 ^ 8)" by (intro powr_mono) simp_all
  also have "\<dots> \<le> 1 + 2 / 10 ^ 8 + (2 / 10 ^ 8)\<^sup>2" by (rule powr_le_exp) simp_all
  also have "\<dots> \<le> 1 + 3 / 10 ^ 8" by (simp add: power2_eq_square)
  finally show ?thesis .
qed

lemma steps_of_edges:
  assumes "path_from Some ps p pp" "p_edges p = map (encode Some ps) ys" "set ys \<subseteq> set ps"
  shows "map step_pair (steps pp) = map pair_of ys"
proof -
  have "list_all2 (step_from Some ps) (map (encode Some ps) ys) (steps pp)" using assms(1,2) by (simp add: path_from_def)
  then have "list_all2 (\<lambda>y st. step_pair st = decode ps (e_pair (encode Some ps y))) ys (steps pp)"
    unfolding list_all2_map1 by (rule list_all2_mono) (simp add: step_from_def)
  then show ?thesis using assms(3)
    by (induction rule: list_all2_induct) (simp_all add: decode_encode)
qed

text \<open>With up to eight currencies no stored path has more than 256 steps.\<close>

lemma short_chain: "n \<le> 2 ^ k \<Longrightarrow> k \<le> 8 \<Longrightarrow> n \<le> 320" for n k :: nat
  using power_increasing [of k 8 "2::nat"] by simp

lemma calc_near_best:
  assumes log: "accurate_log2 log2 \<delta>" and len: "length (currencies_of ps) \<le> 320"
    and prices: "\<forall>x \<in> set ps. snd x \<noteq> 0" "one_price ps"
    and m: "calc_best_paths log2 Some Some ps = Some (Inr m)"
    and xs: "set xs \<subseteq> set ps" "xs \<noteq> []" "chain s (map pair_of xs) t"
  shows "\<exists>pp ys. bm_get m (Pair s t) = Some pp \<and> set ys \<subseteq> set ps \<and> chain s (map pair_of ys) t \<and>
     map step_pair (steps pp) = map pair_of ys \<and> length ys \<le> 2 ^ length (currencies_of ps) \<and>
     (length ys \<le> 2 ^ 52 \<longrightarrow>
        price_product xs \<le> price_product ys * 2 powr (price_error \<delta> (length xs) + price_error \<delta> (length ys)))"
proof -
  from m obtain g mm kvs where g: "\<forall>x \<in> set ps. Some (snd x) \<noteq> None" "set g = encode Some ps ` set ps"
    "\<forall>e \<in> set g. e_cost e \<noteq> NaN" "longest_paths_mult log2 g = Some (Inr mm)" "bm_wf mm"
    "run_map (price_path_of Some (currencies_of ps) (providers_of ps)) mm = Some kvs" "m = bm_collect kvs"
    by (rule calc_best_paths_Inr)
  have rates: "accurate_rates log2 \<delta> 8 g" using log len g(2) prices(1) by (rule encoded_accurate)
  obtain es where es: "unique_cheapest_edges g Greater = Some es"
    using unique_cheapest_edges_spec [OF g(3), of Greater] by blast
  have kept: "set es = encode Some ps ` set ps"
    using one_price_kept [OF g(2,3) prices(2) es] g(2) by (simp only:)
  let ?enc = "encode Some ps"
  obtain x xs' where x: "xs = x # xs'" using xs(2) by (cases xs) simp
  let ?i = "source (e_pair (?enc x))"
  have i: "currencies_of ps ! ?i = s" "vertex_ok ps ?i"
    using encode_in_range(1,4) [of x ps Some] x xs(1,3) by (simp_all add: vertex_ok_def)
  obtain j where j: "currencies_of ps ! j = t" "walk (set es) ?i (map ?enc xs) j"
    using walk_of_chain [OF xs(1) _ i(2), of t Some] xs(3) i(1) kept by auto
  from near_best [OF rates g(4) es j(2)] xs(2) obtain p where p: "bm_get mm (Pair ?i j) = Some p"
    "walk (set es) ?i (p_edges p) j" "length (p_edges p) \<le> 2 ^ card (vertices_of g)"
    "length (p_edges p) \<le> 2 ^ 52 \<Longrightarrow> rate_product (map ?enc xs) \<le> rate_product (p_edges p) *
       2 powr (log_error 8 \<delta> (length xs) + log_error 8 \<delta> (length (p_edges p)))" by auto
  obtain ys where ys: "set ys \<subseteq> set ps" "p_edges p = map ?enc ys"
    using edges_of_inputs [of "p_edges p" Some ps] walk_edges [OF p(2)] kept by auto
  from read_back(2) [OF g(5,6) p(1)] obtain pp where
    pp: "bm_get m (decode ps (Pair ?i j)) = Some pp" "path_from Some ps p pp" using g(7) by blast
  have "map step_pair (steps pp) = map pair_of ys" by (rule steps_of_edges [OF pp(2) ys(2,1)])
  moreover have "price_product xs \<le> price_product ys * 2 powr (price_error \<delta> (length xs) + price_error \<delta> (length ys))"
    if "length ys \<le> 2 ^ 52"
  proof -
    have X: "0 < price_product xs" "0 < rate_product (map ?enc xs)"
      "\<bar>log 2 (rate_product (map ?enc xs)) - log 2 (price_product xs)\<bar> \<le> real (length xs) / 2 ^ 51"
      using product_of_prices [of xs ps] prices(1) xs(1) by blast+
    have Y: "0 < price_product ys" "0 < rate_product (map ?enc ys)"
      "\<bar>log 2 (rate_product (map ?enc ys)) - log 2 (price_product ys)\<bar> \<le> real (length ys) / 2 ^ 51"
      using product_of_prices [of ys ps] prices(1) ys(1) by blast+
    let ?e = "log_error 8 \<delta> (length xs) + log_error 8 \<delta> (length ys)"
    have "rate_product (map ?enc xs) \<le> rate_product (map ?enc ys) * 2 powr ?e" using p(4) that by (simp add: ys(2))
    then have "log 2 (rate_product (map ?enc xs)) \<le> log 2 (rate_product (map ?enc ys) * 2 powr ?e)"
      using X(2) by simp
    also have "\<dots> = log 2 (rate_product (map ?enc ys)) + ?e" using Y(2) by (simp add: log_mult)
    finally have "log 2 (price_product xs) \<le> log 2 (price_product ys) +
        (price_error \<delta> (length xs) + price_error \<delta> (length ys))"
      using X(3) Y(3) unfolding price_error [symmetric] by linarith
    then show ?thesis using X(1) Y(1) by (intro log_le_product)
  qed
  moreover have "chain s (map pair_of ys) t" using chain_of_walk [OF ys(1)] p(2) ys(2) i(1) j(1) by metis
  moreover have "length ys \<le> 2 ^ card (vertices_of g)" using p(3) by (simp add: ys(2))
  then have "length ys \<le> 2 ^ length (currencies_of ps)"
    using card_vertices_of_encode [OF g(2)] by (rule order_trans [OF _ power_increasing]) simp
  ultimately show ?thesis using pp(1) ys(1) i(1) j(1) by (auto simp: decode_def)
qed

lemma calc_near_best_factor:
  assumes "accurate_log2 log2 \<delta>" "length (currencies_of ps) \<le> 320"
    and "\<forall>x \<in> set ps. snd x \<noteq> 0" "one_price ps"
    and "calc_best_paths log2 Some Some ps = Some (Inr m)"
    and "set xs \<subseteq> set ps" "xs \<noteq> []" "chain s (map pair_of xs) t"
  shows "\<exists>pp ys. bm_get m (Pair s t) = Some pp \<and> set ys \<subseteq> set ps \<and> chain s (map pair_of ys) t \<and>
     map step_pair (steps pp) = map pair_of ys \<and> length ys \<le> 2 ^ length (currencies_of ps) \<and>
     (length ys \<le> 2 ^ 52 \<longrightarrow>
        price_product xs \<le> price_product ys * 2 powr (price_error \<delta> (length xs) + price_error \<delta> (length ys))) \<and>
     (\<delta> \<le> 1 / 2 ^ 40 \<and> length xs \<le> 320 \<and> (length (currencies_of ps) \<le> 8 \<or> length ys \<le> 320) \<longrightarrow>
        price_product xs \<le> price_product ys * (1 + 3 / 10 ^ 8))"
proof -
  from calc_near_best [OF assms] obtain pp ys where
    pp: "bm_get m (Pair s t) = Some pp" "set ys \<subseteq> set ps" "chain s (map pair_of ys) t"
      "map step_pair (steps pp) = map pair_of ys" "length ys \<le> 2 ^ length (currencies_of ps)"
    and best: "length ys \<le> 2 ^ 52 \<Longrightarrow>
        price_product xs \<le> price_product ys * 2 powr (price_error \<delta> (length xs) + price_error \<delta> (length ys))" by blast
  have "price_product xs \<le> price_product ys * (1 + 3 / 10 ^ 8)"
    if near: "\<delta> \<le> 1 / 2 ^ 40 \<and> length xs \<le> 320 \<and> (length (currencies_of ps) \<le> 8 \<or> length ys \<le> 320)"
  proof -
    have len: "length ys \<le> 320" using near short_chain [OF pp(5)] by blast
    have "0 < price_product ys" using product_of_prices [of ys ps] assms(3) pp(2) by blast
    then have "price_product ys * 2 powr (price_error \<delta> (length xs) + price_error \<delta> (length ys)) \<le>
        price_product ys * (1 + 3 / 10 ^ 8)"
      using near len by (intro mult_left_mono price_error_factor) simp_all
    moreover have "length ys \<le> 2 ^ 52" using len by simp
    ultimately show ?thesis using best by linarith
  qed
  with pp best show ?thesis by blast
qed

text \<open>C3: Best prices within rounding: for any prices other than zero, one for each pair, up to 320
  currencies and a logarithm accurate to \<open>\<delta>\<close>, the path stored for a pair of currencies is a chain of
  input items, of at most \<open>2 ^ n\<close> steps for \<open>n\<close> currencies, whose exact product of prices is, up to the
  errors of the two chains, at least that of every chain of exchanges between the two; with \<open>\<delta>\<close> at most
  \<open>2 ^ -40\<close>, and up to eight currencies or a path of up to 320 steps, it is less than three parts in a
  hundred million away from the best.\<close>

theorem calc_best_paths_near_best:
  assumes "accurate_log2 log2 \<delta>" "length (currencies_of ps) \<le> 320"
    and "\<forall>x \<in> set ps. snd x \<noteq> 0" "one_price ps"
    and "calc_best_paths log2 Some Some ps = Some (Inr m)"
    and "set xs \<subseteq> set ps" "xs \<noteq> []" "chain s (map pair_of xs) t"
  shows "\<exists>pp ys. bm_get m (Pair s t) = Some pp \<and> set ys \<subseteq> set ps \<and> chain s (map pair_of ys) t \<and>
     map step_pair (steps pp) = map pair_of ys \<and> length ys \<le> 2 ^ length (currencies_of ps) \<and>
     (length ys \<le> 2 ^ 52 \<longrightarrow>
        price_product xs \<le> price_product ys * 2 powr (price_error \<delta> (length xs) + price_error \<delta> (length ys))) \<and>
     (\<delta> \<le> 1 / 2 ^ 40 \<and> length xs \<le> 320 \<and> (length (currencies_of ps) \<le> 8 \<or> length ys \<le> 320) \<longrightarrow>
        price_product xs \<le> price_product ys * (1 + 3 / 10 ^ 8))"
  by (rule calc_near_best_factor [OF assms])

section \<open>Arbitrage\<close>

lemma calc_best_paths_graph:
  assumes "\<forall>x \<in> set ps. to_u128 (snd x) \<noteq> None"
  obtains g where "set g = encode to_u128 ps ` set ps" "\<forall>e \<in> set g. e_cost e \<noteq> NaN"
    "calc_best_paths log2 to_u128 from_u128 ps = do {
       res \<leftarrow> longest_paths_mult log2 g;
       case res of
         Inl err \<Rightarrow> Some (Inl (calculator_error_from err))
       | Inr res_map \<Rightarrow>
           map_option (\<lambda>kvs. Inr (bm_collect kvs))
             (run_map (price_path_of from_u128 (currencies_of ps) (providers_of ps)) res_map)
     }"
proof -
  from calc_graph_encode [of to_u128 ps] assms obtain g where
    g: "calc_graph ps (calc_edge to_u128 (by_ind (currencies_of ps)) (by_ind (providers_of ps))) (currencies_of ps) [] =
      Some (Inr g)" "set g = encode to_u128 ps ` set ps"
    by (auto simp: adds_edges_def)
  have "\<forall>e \<in> set g. e_cost e \<noteq> NaN" using rate_not_NaN by (auto simp: g(2) encode_def)
  with that g show thesis by (simp add: calc_best_paths_def Let_def)
qed

lemma calc_near_arbitrage:
  assumes log: "accurate_log2 log2 \<delta>" and len: "length (currencies_of ps) \<le> 320"
    and prices: "\<forall>x \<in> set ps. snd x \<noteq> 0" "one_price ps"
  shows "(set xs \<subseteq> set ps \<and> xs \<noteq> [] \<and> chain s (map pair_of xs) s \<and>
       price_error \<delta> (length xs) < log 2 (price_product xs) \<longrightarrow>
       calc_best_paths log2 Some Some ps = Some (Inl NegativeCyclesError)) \<and>
     (calc_best_paths log2 Some Some ps = Some (Inl err) \<longrightarrow> err = NegativeCyclesError \<and>
       (\<exists>s xs. set xs \<subseteq> set ps \<and> xs \<noteq> [] \<and> chain s (map pair_of xs) s \<and>
          length xs \<le> 8 ^ length (currencies_of ps) \<and>
          (length xs \<le> 2 ^ 52 \<longrightarrow> - price_error \<delta> (length xs) < log 2 (price_product xs))))"
proof -
  obtain g where g: "set g = encode Some ps ` set ps" "\<forall>e \<in> set g. e_cost e \<noteq> NaN"
    and calc: "calc_best_paths log2 Some Some ps = do {
       res \<leftarrow> longest_paths_mult log2 g;
       case res of
         Inl err \<Rightarrow> Some (Inl (calculator_error_from err))
       | Inr res_map \<Rightarrow>
           map_option (\<lambda>kvs. Inr (bm_collect kvs))
             (run_map (price_path_of Some (currencies_of ps) (providers_of ps)) res_map)
     }"
    by (rule calc_best_paths_graph [where ?to_u128.0 = Some and ps = ps and ?from_u128.0 = Some and ?log2.0 = log2]) simp_all
  have rates: "accurate_rates log2 \<delta> 8 g" using log len g(1) prices(1) by (rule encoded_accurate)
  obtain es where es: "unique_cheapest_edges g Greater = Some es"
    using unique_cheapest_edges_spec [OF g(2), of Greater] by blast
  have kept: "set es = encode Some ps ` set ps"
    using one_price_kept [OF g(1,2) prices(2) es] g(1) by (simp only:)
  let ?enc = "encode Some ps"
  have near: "\<bar>log 2 (rate_product (map ?enc xs)) - log 2 (price_product xs)\<bar> \<le> real (length xs) / 2 ^ 51"
    if "set xs \<subseteq> set ps" for xs
    using product_of_prices [of xs ps] prices(1) that by blast
  have "calc_best_paths log2 Some Some ps = Some (Inl NegativeCyclesError)"
    if xs: "set xs \<subseteq> set ps" "xs \<noteq> []" "chain s (map pair_of xs) s"
      and gain: "price_error \<delta> (length xs) < log 2 (price_product xs)"
  proof -
    obtain x xs' where x: "xs = x # xs'" using xs(2) by (cases xs) simp
    let ?i = "source (e_pair (?enc x))"
    have i: "currencies_of ps ! ?i = s" "vertex_ok ps ?i"
      using encode_in_range(1,4) [of x ps Some] x xs(1,3) by (simp_all add: vertex_ok_def)
    obtain j where j: "vertex_ok ps j" "currencies_of ps ! j = s" "walk (set es) ?i (map ?enc xs) j"
      using walk_of_chain [OF xs(1) _ i(2), of s Some] xs(3) i(1) kept by auto
    have "j = ?i" using i j(1,2) nth_eq_iff_index_eq [OF distinct_currencies_of, of j ps ?i] by (simp add: vertex_ok_def)
    moreover have "log_error 8 \<delta> (length (map ?enc xs)) < log 2 (rate_product (map ?enc xs))"
      using near [OF xs(1)] gain unfolding price_error [symmetric] length_map by linarith
    ultimately have "longest_paths_mult log2 g = Some (Inl NegativeCycles)"
      using near_arbitrage [OF rates es, of ?i "map ?enc xs"] j(3) xs(2) by simp
    then show ?thesis by (simp add: calc calculator_error_from_def)
  qed
  moreover have "err = NegativeCyclesError \<and>
       (\<exists>s xs. set xs \<subseteq> set ps \<and> xs \<noteq> [] \<and> chain s (map pair_of xs) s \<and>
          length xs \<le> 8 ^ length (currencies_of ps) \<and>
          (length xs \<le> 2 ^ 52 \<longrightarrow> - price_error \<delta> (length xs) < log 2 (price_product xs)))"
    if fails: "calc_best_paths log2 Some Some ps = Some (Inl err)"
  proof -
    obtain e where e: "longest_paths_mult log2 g = Some (Inl e)" "err = calculator_error_from e"
      using fails by (auto simp: calc split: Option.bind_splits sum.splits)
    from error_cycle [OF rates es e(1)] obtain i ws where
      ws: "walk (set es) i ws i" "ws \<noteq> []" "length ws \<le> 8 ^ card (vertices_of g)"
        "length ws \<le> 2 ^ 52 \<Longrightarrow> - log_error 8 \<delta> (length ws) < log 2 (rate_product ws)"
      by blast
    obtain xs where xs: "set xs \<subseteq> set ps" "ws = map ?enc xs"
      using edges_of_inputs [of ws Some ps] walk_edges [OF ws(1)] kept by auto
    have "- price_error \<delta> (length xs) < log 2 (price_product xs)" if "length xs \<le> 2 ^ 52"
      using ws(4) that near [OF xs(1)] unfolding price_error [symmetric] xs(2) length_map by linarith
    moreover have "length xs \<le> 8 ^ card (vertices_of g)" using ws(3) by (simp add: xs(2))
    then have "length xs \<le> 8 ^ length (currencies_of ps)"
      using card_vertices_of_encode [OF g(1)] by (rule order_trans [OF _ power_increasing]) simp
    moreover have "chain (currencies_of ps ! i) (map pair_of xs) (currencies_of ps ! i)"
      using chain_of_walk [OF xs(1)] ws(1) xs(2) by blast
    moreover have "err = NegativeCyclesError" using e(2) by (cases e) (simp add: calculator_error_from_def)
    ultimately show ?thesis using xs ws(2) by blast
  qed
  ultimately show ?thesis by blast
qed

text \<open>C9: Arbitrage in prices, in the same setting: a cycle of exchanges whose exact product of prices
  is above one by more than its error makes the calculator return \<open>NegativeCyclesError\<close>; and that is
  its only error, and it comes from a cycle of exchanges, of at most \<open>8 ^ n\<close> steps for \<open>n\<close> currencies,
  whose product is above one, up to its error.\<close>

theorem calc_best_paths_near_arbitrage:
  assumes "accurate_log2 log2 \<delta>" "length (currencies_of ps) \<le> 320"
    and "\<forall>x \<in> set ps. snd x \<noteq> 0" "one_price ps"
  shows "(set xs \<subseteq> set ps \<and> xs \<noteq> [] \<and> chain s (map pair_of xs) s \<and>
       price_error \<delta> (length xs) < log 2 (price_product xs) \<longrightarrow>
       calc_best_paths log2 Some Some ps = Some (Inl NegativeCyclesError)) \<and>
     (calc_best_paths log2 Some Some ps = Some (Inl err) \<longrightarrow> err = NegativeCyclesError \<and>
       (\<exists>s xs. set xs \<subseteq> set ps \<and> xs \<noteq> [] \<and> chain s (map pair_of xs) s \<and>
          length xs \<le> 8 ^ length (currencies_of ps) \<and>
          (length xs \<le> 2 ^ 52 \<longrightarrow> - price_error \<delta> (length xs) < log 2 (price_product xs))))"
  by (rule calc_near_arbitrage [OF assms])

section \<open>Samples\<close>

lemma rounded_log2_accurate_prices: "accurate_log2 rounded_log2 (1 / 2 ^ 46)"
proof -
  have "\<exists>l. rounded_log2 (Fin r) = Fin l \<and> rnd_real l = l \<and> \<bar>l - log 2 r\<bar> \<le> 1 / 2 ^ 46"
    if "2 powi - 40 \<le> r" "r \<le> 2 ^ 128" for r
  proof -
    have "0 < r" using powi_pos [of "- 40"] that(1) by linarith
    moreover have "\<bar>log 2 r\<bar> \<le> 2 ^ 7" using log_of_rate [OF that] by simp
    moreover have "(2::real) ^ 7 / 2 ^ 53 = 1 / 2 ^ 46" by simp
    ultimately show ?thesis using rounded_log2_accurate [of r 7] by auto
  qed
  then show ?thesis unfolding accurate_log2_def by auto
qed

text \<open>The two steps gain fifteen, the direct exchange seven; and a cycle that gains an eighth.\<close>

definition decimal_prices :: "(nat, u128) priced list" where
  "decimal_prices =
     [(ProviderPair (Pair 5 6) CRYPTOCOMPARE, 3000000000000), (ProviderPair (Pair 6 7) CRYPTOCOMPARE, 5000000000000),
      (ProviderPair (Pair 5 7) CRYPTOCOMPARE, 7000000000000)]"

definition gaining_prices :: "(nat, u128) priced list" where
  "gaining_prices =
     [(ProviderPair (Pair 5 6) CRYPTOCOMPARE, 3000000000000), (ProviderPair (Pair 6 5) CRYPTOCOMPARE, 375000000000)]"

lemma decimal_prices:
  "length (currencies_of decimal_prices) \<le> 320" "\<forall>x \<in> set decimal_prices. snd x \<noteq> 0" "one_price decimal_prices"
  by (simp_all add: decimal_prices_def one_price_def indexing_eval)

lemma gaining_prices:
  "length (currencies_of gaining_prices) \<le> 320" "\<forall>x \<in> set gaining_prices. snd x \<noteq> 0" "one_price gaining_prices"
  by (simp_all add: gaining_prices_def one_price_def indexing_eval)

lemma chain_increases:
  "\<forall>x \<in> set xs. source (pair_of x) < target (pair_of x) \<Longrightarrow> chain s (map pair_of xs) t \<Longrightarrow> xs \<noteq> [] \<Longrightarrow>
     s < (t :: nat)"
proof (induction xs arbitrary: s)
  case (Cons x xs)
  then show ?case by (cases xs) (auto intro: less_trans)
qed simp

lemma decimal_calc:
  obtains m where "calc_best_paths rounded_log2 Some Some decimal_prices = Some (Inr m)"
proof -
  obtain res where res: "calc_best_paths rounded_log2 Some Some decimal_prices = Some res"
    using calc_best_paths_total [of Some rounded_log2 Some decimal_prices] by auto
  show thesis
  proof (cases res)
    case (Inl err)
    then obtain s xs where xs: "set xs \<subseteq> set decimal_prices" "xs \<noteq> []" "chain s (map pair_of xs) s"
      using calc_near_arbitrage [OF rounded_log2_accurate_prices decimal_prices] res by blast
    have "\<forall>x \<in> set decimal_prices. source (pair_of x) < target (pair_of x)" by (simp add: decimal_prices_def)
    with xs(1) have "\<forall>x \<in> set xs. source (pair_of x) < target (pair_of x)" by blast
    from chain_increases [OF this xs(3,2)] show ?thesis by simp
  qed (use res that in simp)
qed

lemma decimal_chains:
  "set xs \<subseteq> set decimal_prices \<Longrightarrow> chain 5 (map pair_of xs) 7 \<Longrightarrow> xs = take 2 decimal_prices \<or> xs = [decimal_prices ! 2]"
proof (cases xs)
  case (Cons x ys)
  assume "set xs \<subseteq> set decimal_prices" "chain 5 (map pair_of xs) 7"
  with Cons show ?thesis by (cases ys; cases "tl ys") (auto simp: decimal_prices_def)
qed simp

theorem calc_best_paths_near_best_witness:
  "\<exists>m pp. calc_best_paths rounded_log2 Some Some decimal_prices = Some (Inr m) \<and>
     bm_get m (Pair 5 7) = Some pp \<and> map step_pair (steps pp) = [Pair 5 6, Pair 6 7]"
proof -
  obtain m where m: "calc_best_paths rounded_log2 Some Some decimal_prices = Some (Inr m)" by (rule decimal_calc)
  let ?xs = "take 2 decimal_prices"
  have xs: "set ?xs \<subseteq> set decimal_prices" "?xs \<noteq> []" "chain 5 (map pair_of ?xs) 7"
    by (simp_all add: decimal_prices_def)
  obtain pp ys where pp: "bm_get m (Pair 5 7) = Some pp" "set ys \<subseteq> set decimal_prices" "chain 5 (map pair_of ys) 7"
    "map step_pair (steps pp) = map pair_of ys"
    "length ys \<le> 320 \<Longrightarrow> price_product ?xs \<le> price_product ys * (1 + 3 / 10 ^ 8)"
    using calc_best_paths_near_best [OF rounded_log2_accurate_prices decimal_prices m xs] by auto
  have "ys \<noteq> [decimal_prices ! 2]"
    using pp(5) by (auto simp: decimal_prices_def price_product_def price_of_def)
  with decimal_chains [OF pp(2,3)] have "ys = ?xs" by blast
  with m pp(1,4) show ?thesis by (auto simp: decimal_prices_def)
qed

theorem calc_best_paths_near_arbitrage_witness:
  "calc_best_paths rounded_log2 Some Some gaining_prices = Some (Inl NegativeCyclesError)"
proof -
  have "log 2 2 \<le> log 2 ((9 / 8 :: real) ^ 8)" by (simp add: power_divide)
  then have "1 / 8 \<le> log 2 (9 / 8 :: real)" by (simp add: log_nat_power)
  then have "price_error (1 / 2 ^ 46) 2 < log 2 (9 / 8 :: real)"
    by (rule less_le_trans [rotated]) (simp add: price_error_def log_error_def sum_error_def)
  moreover have "price_product gaining_prices = 9 / 8" "length gaining_prices = 2" "gaining_prices \<noteq> []"
    "chain 5 (map pair_of gaining_prices) 5"
    by (simp_all add: gaining_prices_def price_product_def price_of_def)
  ultimately show ?thesis
    using calc_best_paths_near_arbitrage [OF rounded_log2_accurate_prices gaining_prices, of gaining_prices 5]
    by (metis subset_refl)
qed

end
