(* ===== verification/Near_Totals.thy ===== *)
theory Near_Totals
  imports Near_Prices
begin

text \<open>
  The total cost the calculator stores with a path, in terms of the prices of its steps: it is their
  exact product at the scale of prices, up to one rounding for every multiplication and price, and
  rounded down to a whole unit. With \<open>Near_Prices\<close> this bounds what any chain of exchanges can gain
  over the price on chain.
\<close>

section \<open>Rounded products\<close>

text \<open>The products along a chain stay away from the ends of the double range, and the last one within
  that of \<open>u128\<close> at the scale of prices.\<close>

definition moderate :: "('c, u128) priced list \<Rightarrow> bool" where
  "moderate ys \<longleftrightarrow> (\<forall>k \<le> length ys. \<bar>log 2 (price_product (take k ys))\<bar> \<le> 1000) \<and> price_product ys \<le> 2 ^ 80"

lemma rnd_of_log:
  assumes "0 < x" "\<bar>log 2 x\<bar> \<le> 1020"
  shows "rnd x = Fin (rnd_real x)" "0 < rnd_real x" "\<bar>log 2 (rnd_real x) - log 2 x\<bar> \<le> 1 / 2 ^ 52"
proof -
  have "x = 2 powr log 2 x" using assms(1) by simp
  with assms(2) have "2 powr (- 1020) \<le> x" "x \<le> 2 powr 1020" by (metis abs_le_iff minus_le_iff powr_mono one_le_numeral)+
  then have x: "2 powi - 1020 \<le> x" "x \<le> 2 ^ 1020"
    using powr_real_of_int' [of 2 "- 1020"] powr_real_of_int' [of 2 1020] by simp_all
  then have "\<bar>x\<bar> \<le> 2 ^ 1020" using assms(1) by simp
  from rnd_Fin(1) [OF this] show "rnd x = Fin (rnd_real x)" by simp
  have "(2::real) powi - 1022 \<le> 2 powi - 1020" unfolding powi_le_iff by simp
  with x(1) have "2 powi - 1022 \<le> x" by linarith
  from rnd_log_error [OF this] show "0 < rnd_real x" "\<bar>log 2 (rnd_real x) - log 2 x\<bar> \<le> 1 / 2 ^ 52" by simp_all
qed

lemma rate_product_rounded:
  assumes "\<forall>y \<in> set ys. snd y \<noteq> 0" "\<forall>k \<le> length ys. \<bar>log 2 (price_product (take k ys))\<bar> \<le> 1000" "length ys \<le> 2 ^ 50"
  shows "\<exists>c. foldl (\<lambda>acc e. acc * e_cost e) 1 (map (encode Some ps) ys) = Fin c \<and> 0 < c \<and>
     \<bar>log 2 c - log 2 (price_product ys)\<bar> \<le> real (length ys) * (3 / 2 ^ 52)"
  using assms
proof (induction ys rule: rev_induct)
  case Nil
  then show ?case by (simp add: price_product_def one_f64_def)
next
  case (snoc y ys)
  have "\<forall>k \<le> length ys. \<bar>log 2 (price_product (take k ys))\<bar> \<le> 1000"
  proof (intro allI impI)
    fix k assume "k \<le> length ys"
    with snoc.prems(2) [rule_format, of k] show "\<bar>log 2 (price_product (take k ys))\<bar> \<le> 1000" by simp
  qed
  with snoc obtain c where c: "foldl (\<lambda>acc e. acc * e_cost e) 1 (map (encode Some ps) ys) = Fin c" "0 < c"
    "\<bar>log 2 c - log 2 (price_product ys)\<bar> \<le> real (length ys) * (3 / 2 ^ 52)" by auto
  have "snd y \<noteq> 0" using snoc.prems(1) by simp
  note r = rate_of [OF this]
  have rpos: "0 < rate_of y" using powi_pos [of "- 40"] r(2) by linarith
  have ppos: "0 < price_product ys" using product_of_prices [of ys ps] snoc.prems(1) by simp
  have last: "\<bar>log 2 (price_product (ys @ [y]))\<bar> \<le> 1000"
    using snoc.prems(2) [rule_format, of "length (ys @ [y])"] by simp
  have prod: "log 2 (price_product (ys @ [y])) = log 2 (price_product ys) + log 2 (price_of y)"
    using ppos r(4) by (simp add: price_product_def log_mult)
  have mult: "log 2 (c * rate_of y) = log 2 c + log 2 (rate_of y)" using c(2) rpos by (simp add: log_mult)
  have near: "\<bar>log 2 (c * rate_of y) - log 2 (price_product (ys @ [y]))\<bar> \<le> real (length ys) * (3 / 2 ^ 52) + 2 / 2 ^ 52"
  proof -
    have "\<bar>(a + b) - (d + e)\<bar> \<le> n + 2 / 2 ^ 52" if "\<bar>a - d\<bar> \<le> n" "\<bar>b - e\<bar> \<le> 1 / 2 ^ 51" for a b d e n :: real
    proof -
      have "\<bar>(a + b) - (d + e)\<bar> \<le> \<bar>a - d\<bar> + \<bar>b - e\<bar>" by linarith
      also have "\<dots> \<le> n + 1 / 2 ^ 51" using that by (rule add_mono)
      finally show ?thesis by simp
    qed
    with c(3) r(5) show ?thesis unfolding mult prod by blast
  qed
  have "real (length ys) \<le> 2 ^ 50" using snoc.prems(3) by (simp add: order_trans [of _ "Suc (length ys)"])
  then have "real (length ys) * (3 / 2 ^ 52) \<le> 2 ^ 50 * (3 / 2 ^ 52)" by (rule mult_right_mono) simp
  then have "real (length ys) * (3 / 2 ^ 52) + 2 / 2 ^ 52 \<le> 1" by simp
  with near last have "\<bar>log 2 (c * rate_of y)\<bar> \<le> 1020" by linarith
  from rnd_of_log [OF _ this] c(2) rpos have
    rnd: "rnd (c * rate_of y) = Fin (rnd_real (c * rate_of y))" "0 < rnd_real (c * rate_of y)"
    "\<bar>log 2 (rnd_real (c * rate_of y)) - log 2 (c * rate_of y)\<bar> \<le> 1 / 2 ^ 52" by simp_all
  have "foldl (\<lambda>acc e. acc * e_cost e) 1 (map (encode Some ps) (ys @ [y])) = Fin (rnd_real (c * rate_of y))"
    using c(1) r(1) rnd(1) by (simp add: encode_def times_f64_def)
  moreover have "\<bar>log 2 (rnd_real (c * rate_of y)) - log 2 (price_product (ys @ [y]))\<bar> \<le>
      real (length (ys @ [y])) * (3 / 2 ^ 52)"
  proof -
    have "real (length (ys @ [y])) * (3 / 2 ^ 52) = (real (length ys) * (3 / 2 ^ 52) + 2 / 2 ^ 52) + 1 / 2 ^ 52"
      by (simp add: distrib_right)
    with near rnd(3) show ?thesis by linarith
  qed
  ultimately show ?case using rnd(2) by blast
qed

text \<open>The total, given the rounded product.\<close>

definition total_error :: "nat \<Rightarrow> real" where
  "total_error n = real (n + 1) / 2 ^ 50"

lemma scaled_product:
  assumes "0 < c" "\<bar>log 2 c - log 2 P\<bar> \<le> real n * (3 / 2 ^ 52)" "0 < P" "P \<le> 2 ^ 80" "\<bar>log 2 P\<bar> \<le> 1000" "n \<le> 2 ^ 50"
  shows "\<exists>v. Fin c * PRECISION = Fin v \<and> 0 < v \<and> v < 2 ^ 128 \<and>
     \<bar>log 2 v - log 2 (P * 10 ^ 12)\<bar> \<le> total_error n"
proof -
  have "real n \<le> 2 ^ 50" using assms(6) by (metis of_nat_le_iff of_nat_numeral of_nat_power)
  then have "real n * (3 / 2 ^ 52) \<le> 2 ^ 50 * (3 / 2 ^ 52)" by (rule mult_right_mono) simp
  then have n: "real n * (3 / 2 ^ 52) \<le> 1" by simp
  let ?K = "1000000000000 :: real"
  have "?K \<le> 2 powr 40" by simp
  then have K: "log 2 ?K \<le> 40" "0 \<le> log 2 ?K" by (simp_all add: log_le_iff)
  have cK: "log 2 (c * ?K) = log 2 c + log 2 ?K" using assms(1) by (simp add: log_mult)
  have PK: "log 2 (P * ?K) = log 2 P + log 2 ?K" using assms(3) by (simp add: log_mult)
  have "\<bar>log 2 (c * ?K)\<bar> \<le> 1041" using assms(2,5) n K cK by linarith
  have "P \<le> 2 powr 80" using assms(4) by simp
  then have P80: "log 2 P \<le> 80" using assms(3) by (simp add: log_le_iff)
  then have "\<bar>log 2 (c * ?K)\<bar> \<le> 1020" using assms(2,5) n K cK by linarith
  from rnd_of_log [OF _ this] assms(1) have
    v: "rnd (c * ?K) = Fin (rnd_real (c * ?K))" "0 < rnd_real (c * ?K)"
    "\<bar>log 2 (rnd_real (c * ?K)) - log 2 (c * ?K)\<bar> \<le> 1 / 2 ^ 52" by simp_all
  have "(1::real) / 2 ^ 52 \<le> 1" by simp
  with v(3) have "\<bar>log 2 (rnd_real (c * ?K)) - log 2 (c * ?K)\<bar> \<le> 1" by (rule order_trans)
  then have "log 2 (rnd_real (c * ?K)) < 128" using cK assms(2) n K(1) P80 by linarith
  then have "rnd_real (c * ?K) < 2 powr 128" using v(2) by (simp add: log_less_iff)
  then have "rnd_real (c * ?K) < 2 ^ 128" using powr_real_of_int' [of 2 128] by simp
  moreover have "\<bar>log 2 (rnd_real (c * ?K)) - log 2 (P * ?K)\<bar> \<le> total_error n"
  proof -
    have "real n * (3 / 2 ^ 52) + 1 / 2 ^ 52 \<le> real n * (4 / 2 ^ 52) + 4 / 2 ^ 52"
      by (intro add_mono mult_left_mono) simp_all
    also have "\<dots> = total_error n" by (simp add: total_error_def add_divide_distrib)
    finally show ?thesis using v(3) assms(2) cK PK by linarith
  qed
  moreover have "P * 10 ^ 12 = P * ?K" by simp
  moreover have "Fin c * PRECISION = Fin (rnd_real (c * ?K))" using v(1) by (simp add: PRECISION_def times_f64_def)
  ultimately show ?thesis using v(2) by metis
qed

lemma floor_u128:
  assumes "0 < v" "v < 2 ^ 128"
  shows "real (unat (f64_to_u128 (Fin v))) \<le> v" "v < real (unat (f64_to_u128 (Fin v))) + 1"
proof -
  have f: "0 \<le> \<lfloor>v\<rfloor>" "\<lfloor>v\<rfloor> < 2 ^ 128" using assms by (simp_all add: floor_less_iff)
  have "f64_to_u128 (Fin v) = word_of_int \<lfloor>v\<rfloor>" using assms by simp
  then have "uint (f64_to_u128 (Fin v)) = \<lfloor>v\<rfloor>" using f by (simp add: uint_word_of_int)
  then have "real (unat (f64_to_u128 (Fin v))) = of_int \<lfloor>v\<rfloor>" by (metis of_int_of_nat_eq uint_nat)
  then show "real (unat (f64_to_u128 (Fin v))) \<le> v" "v < real (unat (f64_to_u128 (Fin v))) + 1" by linarith+
qed

section \<open>The stored total\<close>

text \<open>The path of an entry, as a chain of input items.\<close>

lemma total_of_steps:
  assumes prices: "\<forall>x \<in> set ps. snd x \<noteq> 0"
    and p: "p = product_path (p_edges p)" "p_edges p = map (encode Some ps) ys" "set ys \<subseteq> set ps"
    and pp: "path_from Some ps p pp"
    and ys: "moderate ys" "length ys \<le> 2 ^ 50"
  shows "real (unat (total_cost pp)) \<le> price_product ys * 10 ^ 12 * 2 powr total_error (length ys)"
    "price_product ys * 10 ^ 12 \<le> (real (unat (total_cost pp)) + 1) * 2 powr total_error (length ys)"
proof -
  have nz: "\<forall>y \<in> set ys. snd y \<noteq> 0" using prices p(3) by blast
  then have pos: "0 < price_product ys" using product_of_prices [of ys ps] by blast
  have mod: "\<forall>k \<le> length ys. \<bar>log 2 (price_product (take k ys))\<bar> \<le> 1000" "price_product ys \<le> 2 ^ 80"
    using ys(1) by (simp_all add: moderate_def)
  have all: "\<bar>log 2 (price_product ys)\<bar> \<le> 1000" using mod(1) [rule_format, of "length ys"] by simp
  from rate_product_rounded [OF nz mod(1) ys(2), of ps] obtain c where
    c: "foldl (\<lambda>acc e. acc * e_cost e) 1 (map (encode Some ps) ys) = Fin c" "0 < c"
      "\<bar>log 2 c - log 2 (price_product ys)\<bar> \<le> real (length ys) * (3 / 2 ^ 52)" by blast
  from scaled_product [OF c(2,3) pos mod(2) all ys(2)] obtain v where
    v: "Fin c * PRECISION = Fin v" "0 < v" "v < 2 ^ 128"
      "\<bar>log 2 v - log 2 (price_product ys * 10 ^ 12)\<bar> \<le> total_error (length ys)" by blast
  have "p_cost p = foldl (\<lambda>acc e. acc * e_cost e) 1 (p_edges p)" using p(1) by (metis path.select_convs(1) product_path_def)
  then have total: "total_cost pp = f64_to_u128 (Fin v)" using pp c(1) v(1) by (simp add: path_from_def p(2))
  note floor = floor_u128 [OF v(2,3), folded total]
  have P: "0 < price_product ys * 10 ^ 12" using pos by simp
  have "v \<le> price_product ys * 10 ^ 12 * 2 powr total_error (length ys)"
    using v(4) by (intro log_le_product [OF v(2) P]) linarith
  with floor(1) show "real (unat (total_cost pp)) \<le> price_product ys * 10 ^ 12 * 2 powr total_error (length ys)" by linarith
  have "price_product ys * 10 ^ 12 \<le> v * 2 powr total_error (length ys)"
    using v(4) by (intro log_le_product [OF P v(2)]) linarith
  also have "\<dots> \<le> (real (unat (total_cost pp)) + 1) * 2 powr total_error (length ys)"
    using floor(2) by (intro mult_right_mono) simp_all
  finally show "price_product ys * 10 ^ 12 \<le> (real (unat (total_cost pp)) + 1) * 2 powr total_error (length ys)" .
qed

lemma stored_total:
  assumes "\<forall>x \<in> set ps. snd x \<noteq> 0" "calc_best_paths log2 Some Some ps = Some (Inr m)" "bm_get m k = Some pp"
  shows "\<exists>ys. set ys \<subseteq> set ps \<and> map step_pair (steps pp) = map pair_of ys \<and>
     (moderate ys \<and> length ys \<le> 2 ^ 50 \<longrightarrow>
        real (unat (total_cost pp)) \<le> price_product ys * 10 ^ 12 * 2 powr total_error (length ys) \<and>
        price_product ys * 10 ^ 12 \<le> (real (unat (total_cost pp)) + 1) * 2 powr total_error (length ys))"
proof -
  obtain g mm i j p where e: "set g = encode Some ps ` set ps" "\<forall>e \<in> set g. e_cost e \<noteq> NaN"
    "longest_paths_mult log2 g = Some (Inr mm)" "bm_get mm (Pair i j) = Some p"
    "path_from Some ps p pp" "set (p_edges p) \<subseteq> set g"
    by (rule calc_entry [OF assms(2,3)]) blast
  obtain ys where ys: "set ys \<subseteq> set ps" "p_edges p = map (encode Some ps) ys"
    using edges_of_inputs [of "p_edges p" Some ps] e(1,6) by auto
  note total = total_of_steps [OF assms(1) longest_product [OF e(2-4)] ys(2,1) e(5)]
  show ?thesis using ys steps_of_edges [OF e(5) ys(2,1)] total by blast
qed

lemma items_of_pairs:
  assumes "one_price ps"
  shows "map pair_of xs = map pair_of ys \<Longrightarrow> set xs \<subseteq> set ps \<Longrightarrow> set ys \<subseteq> set ps \<Longrightarrow> xs = ys"
proof (induction xs arbitrary: ys)
  case (Cons x xs)
  then obtain y ys' where ys: "ys = y # ys'" "pair_of x = pair_of y" "map pair_of xs = map pair_of ys'" by (cases ys) auto
  have "pp_provider (fst x) = pp_provider (fst y)" by (metis (full_types) provider.exhaust)
  with ys(2) have "fst x = fst y" by (metis provider_pair.expand)
  moreover have "x \<in> set ps" "y \<in> set ps" using Cons.prems(2,3) ys(1) by simp_all
  then have "snd x = snd y" using assms ys(2) unfolding one_price_def by blast
  ultimately have "x = y" by (rule prod_eqI)
  with Cons.IH [OF ys(3)] Cons.prems ys(1) show ?case by simp
qed simp

lemma total_error_factor:
  assumes "\<delta> \<le> 1 / 2 ^ 40" "k \<le> 320" "n \<le> 320"
  shows "2 powr (price_error \<delta> k + price_error \<delta> n + total_error n) \<le> 1 + 4 / 10 ^ 8"
proof -
  have "total_error n \<le> 321 / 2 ^ 50" using assms(3) by (simp add: total_error_def)
  also have "\<dots> \<le> 1 / 10 ^ 8" by simp
  finally have "price_error \<delta> k + price_error \<delta> n + total_error n \<le> 3 / 10 ^ 8"
    using price_error_small [OF assms(1,2)] price_error_small [OF assms(1,3)] by simp
  then have "2 powr (price_error \<delta> k + price_error \<delta> n + total_error n) \<le> 2 powr (3 / 10 ^ 8)" by (intro powr_mono) simp_all
  also have "\<dots> \<le> 1 + 3 / 10 ^ 8 + (3 / 10 ^ 8)\<^sup>2" by (rule powr_le_exp) simp_all
  also have "\<dots> \<le> 1 + 4 / 10 ^ 8" by (simp add: power2_eq_square)
  finally show ?thesis .
qed

text \<open>C7: The stored total is accurate, for any logarithm: for every pair, at moderate products, it is the
  exact product of the prices of the path's steps at the scale of prices, rounded down to a whole
  unit, up to a relative error of less than one in \<open>2 ^ 49\<close> for each step.\<close>

theorem calc_best_paths_total_accurate:
  assumes "\<forall>x \<in> set ps. snd x \<noteq> 0" "calc_best_paths log2 Some Some ps = Some (Inr m)" "bm_get m k = Some pp"
  shows "\<exists>ys. set ys \<subseteq> set ps \<and> map step_pair (steps pp) = map pair_of ys \<and>
     (moderate ys \<and> length ys \<le> 2 ^ 50 \<longrightarrow>
        real (unat (total_cost pp)) \<le> price_product ys * 10 ^ 12 * 2 powr total_error (length ys) \<and>
        price_product ys * 10 ^ 12 \<le> (real (unat (total_cost pp)) + 1) * 2 powr total_error (length ys))"
  by (rule stored_total [OF assms])

lemma chain_below_total:
  assumes "accurate_log2 log2 \<delta>" "\<delta> \<le> 1 / 2 ^ 40" "length (currencies_of ps) \<le> 320"
    and "\<forall>x \<in> set ps. snd x \<noteq> 0" "one_price ps"
    and "calc_best_paths log2 Some Some ps = Some (Inr m)" "bm_get m (Pair s t) = Some pp"
    and "length (currencies_of ps) \<le> 8 \<or> length (steps pp) \<le> 320" "\<forall>ys. set ys \<subseteq> set ps \<and> map pair_of ys = map step_pair (steps pp) \<longrightarrow> moderate ys"
    and "set xs \<subseteq> set ps" "xs \<noteq> []" "chain s (map pair_of xs) t" "length xs \<le> 320"
  shows "price_product xs * 10 ^ 12 \<le> (real (unat (total_cost pp)) + 1) * (1 + 4 / 10 ^ 8)"
proof -
  from calc_near_best [OF assms(1,3-6,10-12)] assms(7) obtain ys where
    ys: "set ys \<subseteq> set ps" "map step_pair (steps pp) = map pair_of ys"
      "length ys \<le> 2 ^ length (currencies_of ps)"
      "length ys \<le> 2 ^ 52 \<Longrightarrow>
        price_product xs \<le> price_product ys * 2 powr (price_error \<delta> (length xs) + price_error \<delta> (length ys))" by auto
  from stored_total [OF assms(4,6,7)] obtain zs where
    zs: "set zs \<subseteq> set ps" "map step_pair (steps pp) = map pair_of zs"
      "moderate zs \<Longrightarrow> length zs \<le> 2 ^ 50 \<Longrightarrow>
        price_product zs * 10 ^ 12 \<le> (real (unat (total_cost pp)) + 1) * 2 powr total_error (length zs)" by blast
  have "zs = ys" using items_of_pairs [OF assms(5) _ zs(1) ys(1)] ys(2) zs(2) by simp
  have len: "length ys \<le> 320" using arg_cong [OF ys(2), of length] assms(8) short_chain [OF ys(3)] by auto
  have mod: "moderate ys" using assms(9) ys(1,2) by simp
  let ?e = "price_error \<delta> (length xs) + price_error \<delta> (length ys)"
  have "price_product xs * 10 ^ 12 \<le> price_product ys * 2 powr ?e * 10 ^ 12"
    using ys(4) len by simp
  also have "\<dots> = (price_product ys * 10 ^ 12) * 2 powr ?e" by simp
  also have "\<dots> \<le> ((real (unat (total_cost pp)) + 1) * 2 powr total_error (length ys)) * 2 powr ?e"
    using zs(3) mod len \<open>zs = ys\<close> by (intro mult_right_mono) simp_all
  also have "\<dots> = (real (unat (total_cost pp)) + 1) * 2 powr (?e + total_error (length ys))"
    by (simp add: powr_add)
  also have "\<dots> \<le> (real (unat (total_cost pp)) + 1) * (1 + 4 / 10 ^ 8)"
    using total_error_factor [OF assms(2,13) len] by (rule mult_left_mono) (rule add_nonneg_nonneg [OF of_nat_0_le_iff zero_le_one])
  finally show ?thesis .
qed

text \<open>C2: No chain of exchanges beats the price on chain: in the setting of \<open>Near_Prices\<close>, with up to
  eight currencies, or a path of up to 320 steps, and moderate products, the exact product of the prices along any chain between two
  currencies is at most the total the calculator stores for them, one unit at the scale of prices
  and four parts in a hundred million more.\<close>

theorem no_chain_beats_total:
  assumes "accurate_log2 log2 \<delta>" "\<delta> \<le> 1 / 2 ^ 40" "length (currencies_of ps) \<le> 320"
    and "\<forall>x \<in> set ps. snd x \<noteq> 0" "one_price ps"
    and "calc_best_paths log2 Some Some ps = Some (Inr m)" "bm_get m (Pair s t) = Some pp"
    and "length (currencies_of ps) \<le> 8 \<or> length (steps pp) \<le> 320" "\<forall>ys. set ys \<subseteq> set ps \<and> map pair_of ys = map step_pair (steps pp) \<longrightarrow> moderate ys"
    and "set xs \<subseteq> set ps" "xs \<noteq> []" "chain s (map pair_of xs) t" "length xs \<le> 320"
  shows "price_product xs * 10 ^ 12 \<le> (real (unat (total_cost pp)) + 1) * (1 + 4 / 10 ^ 8)"
  by (rule chain_below_total [OF assms])

text \<open>Short chains of ordinary prices are moderate.\<close>

lemma moderate_prices:
  assumes "\<forall>y \<in> set ys. 0 < price_of y \<and> \<bar>log 2 (price_of y)\<bar> \<le> b" "real (length ys) * b \<le> 80"
  shows "moderate ys"
proof -
  have log: "0 < price_product zs \<and> \<bar>log 2 (price_product zs)\<bar> \<le> real (length zs) * b"
    if "\<forall>y \<in> set zs. 0 < price_of y \<and> \<bar>log 2 (price_of y)\<bar> \<le> b" for zs
    using that
  proof (induction zs)
    case (Cons z zs)
    then have IH: "0 < price_product zs" "\<bar>log 2 (price_product zs)\<bar> \<le> real (length zs) * b" by simp_all
    have "price_product (z # zs) = price_of z * price_product zs" by (simp add: price_product_def)
    then have "log 2 (price_product (z # zs)) = log 2 (price_of z) + log 2 (price_product zs)"
      "0 < price_product (z # zs)" using Cons.prems IH(1) by (simp_all add: log_mult)
    moreover have "\<bar>log 2 (price_of z)\<bar> \<le> b" using Cons.prems by simp
    ultimately show ?case using IH(2) by (simp add: distrib_right)
  qed (simp add: price_product_def)
  have "\<bar>log 2 (price_product (take k ys))\<bar> \<le> 1000" if "k \<le> length ys" for k
  proof -
    have "\<forall>y \<in> set (take k ys). 0 < price_of y \<and> \<bar>log 2 (price_of y)\<bar> \<le> b" using assms(1) by (meson in_set_takeD)
    from log [OF this] have k: "\<bar>log 2 (price_product (take k ys))\<bar> \<le> real k * b" using that by simp
    have "real k * b \<le> 80"
    proof (cases "0 \<le> b")
      case True
      have "real k * b \<le> real (length ys) * b" using that True by (intro mult_right_mono) simp_all
      with assms(2) show ?thesis by linarith
    next
      case False
      then have "real k * b \<le> 0" by (simp add: mult_nonneg_nonpos)
      then show ?thesis by linarith
    qed
    with k show ?thesis by linarith
  qed
  moreover have "0 < price_product ys" "log 2 (price_product ys) \<le> 80" using log [OF assms(1)] assms(2) by linarith+
  then have "price_product ys \<le> 2 powr 80" by (simp add: log_le_iff)
  then have "price_product ys \<le> 2 ^ 80" by simp
  ultimately show ?thesis by (simp add: moderate_def)
qed

section \<open>Samples\<close>

lemma decimal_path:
  obtains m pp where "calc_best_paths rounded_log2 Some Some decimal_prices = Some (Inr m)"
    "bm_get m (Pair 5 7) = Some pp" "map step_pair (steps pp) = [Pair 5 6, Pair 6 7]"
proof -
  obtain m where m: "calc_best_paths rounded_log2 Some Some decimal_prices = Some (Inr m)" by (rule decimal_calc)
  let ?xs = "take 2 decimal_prices"
  have xs: "set ?xs \<subseteq> set decimal_prices" "?xs \<noteq> []" "chain 5 (map pair_of ?xs) 7"
    by (simp_all add: decimal_prices_def)
  from calc_near_best [OF rounded_log2_accurate_prices decimal_prices m xs] obtain pp ys where
    pp: "bm_get m (Pair 5 7) = Some pp" "set ys \<subseteq> set decimal_prices" "chain 5 (map pair_of ys) 7"
    "map step_pair (steps pp) = map pair_of ys"
    "length ys \<le> 2 ^ 52 \<Longrightarrow> price_product ?xs \<le> price_product ys *
       2 powr (price_error (1 / 2 ^ 46) (length ?xs) + price_error (1 / 2 ^ 46) (length ys))" by blast
  have "ys \<noteq> [decimal_prices ! 2]"
  proof
    assume ys: "ys = [decimal_prices ! 2]"
    have "2 powr (price_error (1 / 2 ^ 46) (length ?xs) + price_error (1 / 2 ^ 46) (length ys)) \<le> (1 + 3 / 10 ^ 8 :: real)"
      by (rule price_error_factor) (simp_all add: ys decimal_prices_def)
    moreover have "price_product ?xs = 15" "price_product ys = 7"
      by (simp_all add: ys decimal_prices_def price_product_def price_of_def)
    moreover have "length ys \<le> 2 ^ 52" by (simp add: ys)
    ultimately show False using pp(5) by simp
  qed
  with decimal_chains [OF pp(2,3)] have "ys = ?xs" by blast
  with m pp(1,4) show thesis by (intro that) (simp_all add: decimal_prices_def)
qed

lemma decimal_moderate:
  assumes "set ys \<subseteq> set decimal_prices" "map pair_of ys = [Pair 5 6, Pair 6 7]"
  shows "ys = take 2 decimal_prices" "moderate ys"
proof -
  show ys: "ys = take 2 decimal_prices"
    using assms by (intro items_of_pairs [OF decimal_prices(3)]) (simp_all add: decimal_prices_def)
  show "moderate ys"
    using log2_small [of 3] log2_small [of 5]
    by (intro moderate_prices [of _ 4]) (simp_all add: ys decimal_prices_def price_of_def)
qed

theorem calc_best_paths_total_accurate_witness:
  "\<exists>m pp. calc_best_paths rounded_log2 Some Some decimal_prices = Some (Inr m) \<and> bm_get m (Pair 5 7) = Some pp \<and>
     real (unat (total_cost pp)) \<le> 15 * 10 ^ 12 * 2 powr (3 / 2 ^ 50) \<and>
     15 * 10 ^ 12 \<le> (real (unat (total_cost pp)) + 1) * 2 powr (3 / 2 ^ 50)"
proof -
  obtain m pp where m: "calc_best_paths rounded_log2 Some Some decimal_prices = Some (Inr m)"
    "bm_get m (Pair 5 7) = Some pp" "map step_pair (steps pp) = [Pair 5 6, Pair 6 7]" by (rule decimal_path)
  from calc_best_paths_total_accurate [OF decimal_prices(2) m(1,2)] m(3) obtain ys where
    ys: "set ys \<subseteq> set decimal_prices" "map pair_of ys = [Pair 5 6, Pair 6 7]"
    and total: "moderate ys \<and> length ys \<le> 2 ^ 50 \<longrightarrow>
        real (unat (total_cost pp)) \<le> price_product ys * 10 ^ 12 * 2 powr total_error (length ys) \<and>
        price_product ys * 10 ^ 12 \<le> (real (unat (total_cost pp)) + 1) * 2 powr total_error (length ys)" by metis
  have eq: "price_product ys = 15" "length ys = 2"
    by (simp_all add: decimal_moderate(1) [OF ys] decimal_prices_def price_product_def price_of_def)
  have err: "total_error 2 = 3 / 2 ^ 50" by (simp add: total_error_def)
  have "length ys \<le> 2 ^ 50" by (simp add: eq(2))
  with total decimal_moderate(2) [OF ys] have "real (unat (total_cost pp)) \<le> 15 * 10 ^ 12 * 2 powr (3 / 2 ^ 50) \<and>
     15 * 10 ^ 12 \<le> (real (unat (total_cost pp)) + 1) * 2 powr (3 / 2 ^ 50)"
    unfolding eq err by blast
  with m(1,2) show ?thesis by blast
qed

theorem no_chain_beats_total_witness:
  "\<exists>m pp. calc_best_paths rounded_log2 Some Some decimal_prices = Some (Inr m) \<and> bm_get m (Pair 5 7) = Some pp \<and>
     15 * 10 ^ 12 \<le> (real (unat (total_cost pp)) + 1) * (1 + 4 / 10 ^ 8)"
proof -
  obtain m pp where m: "calc_best_paths rounded_log2 Some Some decimal_prices = Some (Inr m)"
    "bm_get m (Pair 5 7) = Some pp" "map step_pair (steps pp) = [Pair 5 6, Pair 6 7]" by (rule decimal_path)
  let ?xs = "take 2 decimal_prices"
  have xs: "set ?xs \<subseteq> set decimal_prices" "?xs \<noteq> []" "chain 5 (map pair_of ?xs) 7" "length ?xs \<le> 320"
    by (simp_all add: decimal_prices_def)
  have "length (currencies_of decimal_prices) \<le> 8 \<or> length (steps pp) \<le> 320" using arg_cong [OF m(3), of length] by simp
  moreover have "\<forall>ys. set ys \<subseteq> set decimal_prices \<and> map pair_of ys = map step_pair (steps pp) \<longrightarrow> moderate ys"
    using decimal_moderate(2) m(3) by simp
  moreover have "(1 :: real) / 2 ^ 46 \<le> 1 / 2 ^ 40" by simp
  moreover have "price_product ?xs = 15" by (simp add: decimal_prices_def price_product_def price_of_def)
  ultimately show ?thesis
    using no_chain_beats_total [OF rounded_log2_accurate_prices _ decimal_prices m(1,2) _ _ xs] m(1,2) by metis
qed

end
