(* ===== verification/Ordinary_Prices.thy ===== *)
theory Ordinary_Prices
  imports Near_Totals
begin

text \<open>
  Inputs for which the stored paths stay moderate: up to eight currencies, and prices that are neither
  so large nor so small that a product over all currencies leaves the range of a total. Cutting the
  cycles out of a chain leaves a chain without repetition, and no cycle of a successful run gains more
  than its error; so the product along any stored path, and along any part of it, is bounded by the
  prices of one edge for each currency.
\<close>

section \<open>Cutting cycles out of chains\<close>

definition stop_at :: "'c \<Rightarrow> 'c pair list \<Rightarrow> nat \<Rightarrow> 'c" where
  "stop_at s ks k = (if k = 0 then s else target (ks ! (k - 1)))"

lemma chain_stop:
  "chain s ks t \<Longrightarrow> k \<le> length ks \<Longrightarrow> chain s (take k ks) (stop_at s ks k) \<and> chain (stop_at s ks k) (drop k ks) t"
proof (induction ks arbitrary: s k)
  case (Cons l ks)
  show ?case
  proof (cases k)
    case (Suc k')
    then have "stop_at s (l # ks) k = stop_at (target l) ks k'" by (cases k') (simp_all add: stop_at_def)
    with Cons.IH [of "target l" k'] Cons.prems Suc show ?thesis by simp
  qed (use Cons.prems in \<open>simp add: stop_at_def\<close>)
qed (simp add: stop_at_def)

lemma chain_end: "chain s ks t \<Longrightarrow> chain s ks u \<Longrightarrow> t = u"
  by (induction ks arbitrary: s) auto

lemma chain_append: "chain s ks u \<Longrightarrow> chain u ls t \<Longrightarrow> chain s (ks @ ls) t"
  by (induction ks arbitrary: s) auto

lemma chain_cut:
  assumes "set xs \<subseteq> set ps" "chain s (map pair_of xs) t" "s \<in> set (currencies_of ps)"
    and "length (currencies_of ps) \<le> length xs"
  obtains us cs vs u where "xs = us @ cs @ vs" "cs \<noteq> []" "chain s (map pair_of us) u" "chain u (map pair_of cs) u"
    "chain u (map pair_of vs) t"
proof -
  let ?ks = "map pair_of xs" and ?n = "length xs"
  have "stop_at s ?ks k \<in> set (currencies_of ps)" if "k \<le> ?n" for k
  proof (cases k)
    case (Suc k')
    with that assms(1) have "xs ! k' \<in> set ps" by auto
    with Suc that show ?thesis by (auto simp: stop_at_def set_currencies_of)
  qed (simp add: stop_at_def assms(3))
  then have sub: "stop_at s ?ks ` {..?n} \<subseteq> set (currencies_of ps)" by auto
  have "card (stop_at s ?ks ` {..?n}) \<le> length (currencies_of ps)"
    using card_mono [OF finite_set sub] card_length [of "currencies_of ps"] by (rule le_trans)
  then have "card (stop_at s ?ks ` {..?n}) < card {..?n}" using assms(4) by simp
  then have "\<not> inj_on (stop_at s ?ks) {..?n}" by (metis card_image less_irrefl)
  then obtain a d where "a \<le> ?n" "d \<le> ?n" "a \<noteq> d" "stop_at s ?ks a = stop_at s ?ks d" by (auto simp: inj_on_def)
  then obtain i j where ij: "i < j" "j \<le> ?n" "stop_at s ?ks i = stop_at s ?ks j" by (metis linorder_neqE_nat)
  let ?u = "stop_at s ?ks i"
  have i: "chain s (take i ?ks) ?u" "chain ?u (drop i ?ks) t" using chain_stop [OF assms(2), of i] ij by simp_all
  have j: "chain s (take j ?ks) ?u" "chain ?u (drop j ?ks) t" using chain_stop [OF assms(2), of j] ij by simp_all
  have "chain ?u (take (j - i) (drop i ?ks)) ?u"
  proof -
    let ?w = "stop_at ?u (drop i ?ks) (j - i)"
    have w: "chain ?u (take (j - i) (drop i ?ks)) ?w" using chain_stop [OF i(2), of "j - i"] ij(2) by simp
    have "take j ?ks = take i ?ks @ take (j - i) (drop i ?ks)" using ij(1) by (metis le_add_diff_inverse less_imp_le take_add)
    then have "chain s (take j ?ks) ?w" using chain_append [OF i(1) w] by simp
    with chain_end j(1) w show ?thesis by metis
  qed
  moreover have "xs = take i xs @ take (j - i) (drop i xs) @ drop j xs"
    using ij(1) by (metis append_take_drop_id drop_drop le_add_diff_inverse2 less_imp_le)
  moreover have "take (j - i) (drop i xs) \<noteq> []" using ij by simp
  ultimately show thesis using i(1) j(2) by (intro that) (simp_all add: take_map drop_map)
qed

section \<open>Products along chains\<close>

lemma price_product_append: "price_product (xs @ ys) = price_product xs * price_product ys"
  by (simp add: price_product_def)

lemma price_error_append: "price_error \<delta> k + price_error \<delta> l \<le> price_error \<delta> (k + l)"
  using sum_error_append [of 8 k l] by (simp add: price_error_def log_error_def distrib_right)

lemma log_product_append:
  fixes ps :: "('c::linorder, u128) priced list"
  assumes "\<forall>x \<in> set ps. snd x \<noteq> 0" "set xs \<subseteq> set ps" "set ys \<subseteq> set ps"
  shows "log 2 (price_product (xs @ ys)) = log 2 (price_product xs) + log 2 (price_product ys)"
proof -
  have "0 < price_product xs" "0 < price_product ys"
    using product_of_prices [of xs ps] product_of_prices [of ys ps] assms by blast+
  then show ?thesis by (simp add: price_product_append log_mult)
qed

text \<open>Prices other than zero that are at most \<open>b\<close> bits away from one.\<close>

definition prices_within :: "nat \<Rightarrow> ('c, u128) priced list \<Rightarrow> bool" where
  "prices_within b ps \<longleftrightarrow> (\<forall>x \<in> set ps. 10 ^ 12 \<le> unat (snd x) * 2 ^ b \<and> unat (snd x) \<le> 10 ^ 12 * 2 ^ b)"

lemma prices_within:
  assumes "prices_within b ps" "x \<in> set ps"
  shows "snd x \<noteq> 0" "\<bar>log 2 (price_of x)\<bar> \<le> real b"
proof -
  let ?u = "unat (snd x)"
  have u: "10 ^ 12 \<le> ?u * 2 ^ b" "?u \<le> 10 ^ 12 * 2 ^ b" using assms by (auto simp: prices_within_def)
  then show nz: "snd x \<noteq> 0" by (intro notI) simp
  have "real (10 ^ 12) \<le> real (?u * 2 ^ b)" "real ?u \<le> real (10 ^ 12 * 2 ^ b)" using u by (simp_all only: of_nat_le_iff)
  then have p: "1 \<le> price_of x * 2 ^ b" "price_of x \<le> 2 ^ b"
    unfolding price_of_def of_nat_mult of_nat_power of_nat_numeral by (simp_all add: field_simps)
  have pos: "0 < price_of x" using rate_of(4) [OF nz] .
  have "2 powr - real b = 1 / 2 ^ b" by (simp add: powr_minus powr_realpow inverse_eq_divide)
  then have "2 powr - real b \<le> price_of x" "price_of x \<le> 2 powr real b"
    using p by (simp_all add: powr_realpow divide_le_eq)
  then have "- real b \<le> log 2 (price_of x)" "log 2 (price_of x) \<le> real b"
    using pos by (simp_all add: le_log_iff log_le_iff)
  then show "\<bar>log 2 (price_of x)\<bar> \<le> real b" by linarith
qed

lemma log_product_le:
  fixes ps :: "('c::linorder, u128) priced list"
  assumes "prices_within b ps"
  shows "set xs \<subseteq> set ps \<Longrightarrow> \<bar>log 2 (price_product xs)\<bar> \<le> real (length xs * b)"
proof (induction xs)
  case (Cons x xs)
  have "log 2 (price_product ([x] @ xs)) = log 2 (price_product [x]) + log 2 (price_product xs)"
    using prices_within(1) [OF assms] Cons.prems by (intro log_product_append [of ps]) auto
  moreover have "\<bar>log 2 (price_product [x])\<bar> \<le> real b"
    using prices_within(2) [OF assms] Cons.prems by (simp add: price_product_def)
  ultimately show ?case using Cons by simp
qed (simp add: price_product_def)

lemma price_error_nonneg: "0 \<le> \<delta> \<Longrightarrow> 0 \<le> price_error \<delta> n"
  using sum_error_nonneg [of 8 n] by (simp add: price_error_def log_error_def)

text \<open>Cycles that do not gain leave at most one edge for each currency but one.\<close>

definition no_gain :: "real \<Rightarrow> ('c, u128) priced list \<Rightarrow> bool" where
  "no_gain \<delta> ps \<longleftrightarrow> (\<forall>u cs. set cs \<subseteq> set ps \<and> cs \<noteq> [] \<and> chain u (map pair_of cs) u \<longrightarrow>
     log 2 (price_product cs) \<le> price_error \<delta> (length cs))"

lemma chain_product_le:
  fixes ps :: "('c::linorder, u128) priced list"
  assumes prices: "prices_within b ps" and "0 \<le> \<delta>" "no_gain \<delta> ps"
  shows "set xs \<subseteq> set ps \<Longrightarrow> chain s (map pair_of xs) t \<Longrightarrow>
     log 2 (price_product xs) \<le> real ((length (currencies_of ps) - 1) * b) + price_error \<delta> (length xs)"
proof (induction "length xs" arbitrary: xs rule: less_induct)
  case less
  let ?n = "length (currencies_of ps)"
  have nz: "\<forall>x \<in> set ps. snd x \<noteq> 0" using prices_within(1) [OF prices] by blast
  show ?case
  proof (cases "xs = [] \<or> length xs < ?n")
    case True
    then have "length xs * b \<le> (?n - 1) * b" by (intro mult_right_mono) auto
    then have "real (length xs * b) \<le> real ((?n - 1) * b)" by (simp only: of_nat_le_iff)
    then show ?thesis
      using log_product_le [OF prices less.prems(1)] price_error_nonneg [OF assms(2), of "length xs"] by linarith
  next
    case False
    then obtain x xs' where x: "xs = x # xs'" by (cases xs) auto
    with less.prems have "s \<in> set (currencies_of ps)" by (auto simp: set_currencies_of)
    with less.prems False obtain us cs vs u where cut: "xs = us @ cs @ vs" "cs \<noteq> []" "chain s (map pair_of us) u"
      "chain u (map pair_of cs) u" "chain u (map pair_of vs) t"
      by (elim chain_cut [of xs ps s t]) auto
    have sub: "set us \<subseteq> set ps" "set cs \<subseteq> set ps" "set vs \<subseteq> set ps" using less.prems(1) cut(1) by auto
    have "chain s (map pair_of (us @ vs)) t" using chain_append [OF cut(3,5)] by simp
    then have IH: "log 2 (price_product (us @ vs)) \<le> real ((?n - 1) * b) + price_error \<delta> (length (us @ vs))"
      using cut(1,2) sub by (intro less.hyps) auto
    have gain: "log 2 (price_product cs) \<le> price_error \<delta> (length cs)"
      using assms(3) sub(2) cut(2,4) unfolding no_gain_def by blast
    have "price_product xs = price_product (cs @ (us @ vs))" by (simp add: cut(1) price_product_def)
    then have "log 2 (price_product xs) = log 2 (price_product cs) + log 2 (price_product (us @ vs))"
      using log_product_append [OF nz sub(2), of "us @ vs"] sub by simp
    moreover have "price_error \<delta> (length cs) + price_error \<delta> (length (us @ vs)) \<le> price_error \<delta> (length xs)"
      using price_error_append [of \<delta> "length cs" "length (us @ vs)"] by (simp add: cut(1) ac_simps)
    ultimately show ?thesis using IH gain by linarith
  qed
qed

text \<open>Between the ends of any chain there is one of at most one edge for each currency.\<close>

lemma short_chain_exists:
  fixes ps :: "('c::linorder, u128) priced list"
  assumes "set xs \<subseteq> set ps" "chain s (map pair_of xs) t" "xs \<noteq> []"
  shows "\<exists>zs. set zs \<subseteq> set ps \<and> chain s (map pair_of zs) t \<and> zs \<noteq> [] \<and> length zs \<le> length (currencies_of ps)"
  using assms
proof (induction "length xs" arbitrary: xs rule: less_induct)
  case less
  show ?case
  proof (cases "length xs \<le> length (currencies_of ps)")
    case False
    obtain x xs' where x: "xs = x # xs'" using less.prems(3) by (cases xs) auto
    with less.prems have "target (pair_of x) \<in> set (currencies_of ps)" by (auto simp: set_currencies_of)
    moreover have "set xs' \<subseteq> set ps" "chain (target (pair_of x)) (map pair_of xs') t"
      "length (currencies_of ps) \<le> length xs'" using less.prems False x by simp_all
    ultimately obtain us cs vs u where cut: "xs' = us @ cs @ vs" "cs \<noteq> []"
      "chain (target (pair_of x)) (map pair_of us) u" "chain u (map pair_of vs) t"
      using chain_cut [of xs' ps "target (pair_of x)" t] by metis
    have "chain s (map pair_of (x # us @ vs)) t" using chain_append [OF cut(3,4)] less.prems(2) x by simp
    then show ?thesis using less.prems(1) x cut(1,2) by (intro less.hyps [of "x # us @ vs"]) auto
  qed (use less.prems in blast)
qed

section \<open>The stored paths\<close>

lemma accurate_nonneg: "accurate_log2 log2 \<delta> \<Longrightarrow> 0 \<le> \<delta>"
proof -
  assume acc: "accurate_log2 log2 \<delta>"
  have "(2::real) powi - 40 \<le> 2 powi 0" unfolding powi_le_iff by simp
  then have "rnd_real (1::real) = 1 \<and> (2::real) powi - 40 \<le> 1 \<and> (1::real) \<le> 2 ^ 128"
    using rnd_real_pow2 [of 0] by simp
  then obtain l where "\<bar>l - log 2 1\<bar> \<le> \<delta>" using acc unfolding accurate_log2_def by blast
  then show ?thesis by linarith
qed

lemma stored_chain:
  assumes "accurate_log2 log2 \<delta>" "length (currencies_of ps) \<le> 320" "\<forall>x \<in> set ps. snd x \<noteq> 0" "one_price ps"
    and "calc_best_paths log2 Some Some ps = Some (Inr m)" "bm_get m k = Some pp"
  shows "\<exists>ys. set ys \<subseteq> set ps \<and> chain (source k) (map pair_of ys) (target k) \<and>
     map step_pair (steps pp) = map pair_of ys \<and> length ys \<le> 2 ^ length (currencies_of ps)"
proof -
  obtain g mm i j p where e: "set g = encode Some ps ` set ps" "\<forall>e \<in> set g. e_cost e \<noteq> NaN"
    "longest_paths_mult log2 g = Some (Inr mm)" "bm_get mm (Pair i j) = Some p" "k = decode ps (Pair i j)"
    "path_from Some ps p pp" "set (p_edges p) \<subseteq> set g"
    by (rule calc_entry [OF assms(5,6)]) blast
  have rates: "accurate_rates log2 \<delta> 8 g" using assms(1,2) e(1) assms(3) by (rule encoded_accurate)
  obtain es where es: "unique_cheapest_edges g Greater = Some es"
    using unique_cheapest_edges_spec [OF e(2), of Greater] by blast
  note walk = stored_walk [OF rates e(3) es e(4)]
  obtain ys where ys: "set ys \<subseteq> set ps" "p_edges p = map (encode Some ps) ys"
    using edges_of_inputs [of "p_edges p" Some ps] e(1,7) by auto
  have "chain (currencies_of ps ! i) (map pair_of ys) (currencies_of ps ! j)"
    using chain_of_walk [OF ys(1)] walk(1) ys(2) by metis
  moreover have "length ys \<le> 2 ^ card (vertices_of g)" using walk(2) by (simp add: ys(2))
  then have "length ys \<le> 2 ^ length (currencies_of ps)"
    using card_vertices_of_encode [OF e(1)] by (rule order_trans [OF _ power_increasing]) simp
  ultimately show ?thesis using ys(1) e(5) steps_of_edges [OF e(6) ys(2,1)] by (auto simp: decode_def)
qed

lemma success_no_gain:
  assumes "accurate_log2 log2 \<delta>" "length (currencies_of ps) \<le> 320" "\<forall>x \<in> set ps. snd x \<noteq> 0" "one_price ps"
    and "calc_best_paths log2 Some Some ps = Some (Inr m)"
  shows "no_gain \<delta> ps"
  unfolding no_gain_def
proof (intro allI impI)
  fix u cs
  assume "set cs \<subseteq> set ps \<and> cs \<noteq> [] \<and> chain u (map pair_of cs) u"
  with conjunct1 [OF calc_near_arbitrage [OF assms(1-4), of cs u]] assms(5)
  show "log 2 (price_product cs) \<le> price_error \<delta> (length cs)" by (metis Inl_Inr_False linorder_not_le option.inject)
qed

text \<open>Paths of ordinary length, as they are with up to eight currencies, and moderate products.\<close>

definition moderate_paths :: "('c, u128) priced list \<Rightarrow> ('c::linorder, u128) best_paths \<Rightarrow> bool" where
  "moderate_paths ps m \<longleftrightarrow> (\<forall>k pp. bm_get m k = Some pp \<longrightarrow>
     (length (currencies_of ps) \<le> 8 \<or> length (steps pp) \<le> 320) \<and>
     (\<forall>ys. set ys \<subseteq> set ps \<and> map pair_of ys = map step_pair (steps pp) \<longrightarrow> moderate ys))"

definition ordinary_prices :: "nat \<Rightarrow> ('c::linorder, u128) priced list \<Rightarrow> bool" where
  "ordinary_prices b ps \<longleftrightarrow> prices_within b ps \<and> length (currencies_of ps) \<le> 8 \<and> b \<le> 79 \<and>
     (length (currencies_of ps) - 1) * b \<le> 79"

lemma stored_moderate:
  fixes ps :: "('c::linorder, u128) priced list"
  assumes acc: "accurate_log2 log2 \<delta>" "\<delta> \<le> 1 / 2 ^ 40" and one: "one_price ps" and ord: "ordinary_prices b ps"
    and m: "calc_best_paths log2 Some Some ps = Some (Inr m)" "bm_get m k = Some pp"
    and ys: "set ys \<subseteq> set ps" "map pair_of ys = map step_pair (steps pp)"
  shows "moderate ys"
proof (cases "ys = []")
  case False
  let ?n = "length (currencies_of ps)"
  have o: "prices_within b ps" "?n \<le> 8" "b \<le> 79" "(?n - 1) * b \<le> 79" using ord by (simp_all add: ordinary_prices_def)
  have nz: "\<forall>x \<in> set ps. snd x \<noteq> 0" using prices_within(1) [OF o(1)] by blast
  have "?n \<le> 320" using o(2) by simp
  note set = acc(1) this nz one m(1)
  obtain zs where zs: "set zs \<subseteq> set ps" "chain (source k) (map pair_of zs) (target k)"
    "map step_pair (steps pp) = map pair_of zs" "length zs \<le> 2 ^ ?n" using stored_chain [OF set m(2)] by blast
  have "zs = ys" using items_of_pairs [OF one _ zs(1) ys(1)] ys(2) zs(3) by simp
  note chain = zs(2) [unfolded this] and len = short_chain [OF zs(4) [unfolded this] o(2)]
  note upper = chain_product_le [OF o(1) accurate_nonneg [OF acc(1)] success_no_gain [OF set]]
  have small: "price_error \<delta> l \<le> 1" if "l \<le> 320" for l using price_error_small [OF acc(2) that] by simp
  have n79: "real ((?n - 1) * b) \<le> 79" using o(4) by linarith
  have le80: "log 2 (price_product xs) \<le> 80" if "set xs \<subseteq> set ps" "chain s (map pair_of xs) t" "length xs \<le> 320" for s t xs
    using upper [OF that(1,2)] small [OF that(3)] n79 by linarith
  have pos: "0 < price_product xs" if "set xs \<subseteq> set ps" for xs using product_of_prices [of xs ps] nz that by blast
  obtain xs where xs: "set xs \<subseteq> set ps" "chain (source k) (map pair_of xs) (target k)" "xs \<noteq> []" "length xs \<le> ?n"
    using short_chain_exists [OF ys(1) chain False] by blast
  have "real (length xs * b) \<le> 160"
  proof -
    have "length xs * b \<le> ((?n - 1) + 1) * b" using xs(4) by (intro mult_right_mono) simp_all
    also have "\<dots> \<le> 79 + 79" using o(3,4) by (simp add: distrib_right)
    finally show ?thesis by linarith
  qed
  then have "- 160 \<le> log 2 (price_product xs)" using log_product_le [OF o(1) xs(1)] by linarith
  moreover have "log 2 (price_product xs) \<le> log 2 (price_product ys) + 2"
  proof -
    obtain us where us: "set us \<subseteq> set ps" "map step_pair (steps pp) = map pair_of us"
      "length us \<le> 2 ^ 52 \<Longrightarrow> price_product xs \<le> price_product us * 2 powr (price_error \<delta> (length xs) + price_error \<delta> (length us))"
      using calc_near_best [OF set xs(1,3,2)] m(2) by (cases k) auto
    have "us = ys" using items_of_pairs [OF one _ us(1) ys(1)] ys(2) us(2) by simp
    with us(3) len have "price_product xs \<le> price_product ys * 2 powr (price_error \<delta> (length xs) + price_error \<delta> (length ys))"
      by simp
    then have "log 2 (price_product xs) \<le> log 2 (price_product ys * 2 powr (price_error \<delta> (length xs) + price_error \<delta> (length ys)))"
      using pos [OF xs(1)] pos [OF ys(1)] by simp
    also have "\<dots> = log 2 (price_product ys) + (price_error \<delta> (length xs) + price_error \<delta> (length ys))"
      using pos [OF ys(1)] by (simp add: log_mult)
    finally show ?thesis using small [of "length xs"] small [OF len] xs(4) o(2) by simp
  qed
  ultimately have low: "- 162 \<le> log 2 (price_product ys)" by linarith
  have "\<bar>log 2 (price_product (take l ys))\<bar> \<le> 1000" if "l \<le> length ys" for l
  proof -
    have sub: "set (take l ys) \<subseteq> set ps" "set (drop l ys) \<subseteq> set ps"
      using ys(1) by (auto dest: in_set_takeD in_set_dropD)
    have "chain (source k) (map pair_of (take l ys)) (stop_at (source k) (map pair_of ys) l)"
      "chain (stop_at (source k) (map pair_of ys) l) (map pair_of (drop l ys)) (target k)"
      using chain_stop [OF chain, of l] that by (simp_all add: take_map drop_map)
    then have "log 2 (price_product (take l ys)) \<le> 80" "log 2 (price_product (drop l ys)) \<le> 80"
      using le80 sub len by auto
    moreover have "log 2 (price_product ys) = log 2 (price_product (take l ys)) + log 2 (price_product (drop l ys))"
      using log_product_append [OF nz sub] by simp
    ultimately show ?thesis using low by linarith
  qed
  moreover have "price_product ys \<le> 2 ^ 80"
  proof -
    have "log 2 (price_product ys) \<le> 80" by (rule le80 [OF ys(1) chain len])
    then have "price_product ys \<le> 2 powr 80" using pos [OF ys(1)] by (simp add: log_le_iff)
    then show ?thesis by simp
  qed
  ultimately show ?thesis by (simp add: moderate_def)
qed (simp add: moderate_def price_product_def)

lemma ordinary_moderate_paths:
  assumes "accurate_log2 log2 \<delta>" "\<delta> \<le> 1 / 2 ^ 40" "one_price ps" "ordinary_prices b ps"
    and "calc_best_paths log2 Some Some ps = Some (Inr m)"
  shows "moderate_paths ps m"
  unfolding moderate_paths_def using stored_moderate [OF assms] assms(4) by (auto simp: ordinary_prices_def)

end
