(* ===== verification/Rounds.thy ===== *)
theory Rounds
  imports Worker_Results Chain Ordinary_Prices
begin

text \<open>
  One round of a worker, from the prices it fetches to the storage of the chain: the lemmas behind
  the properties of the root theory that span the worker, the calculator and the pallet.
\<close>

section \<open>The round\<close>

lemma round_brings_up_to_date:
  fixes node :: "('acc, 'pub, 'sig) ocw_env" and env :: "('acc, 'pub, 'sig) chain_env"
  assumes it: "iterates (iter_paths node)" and "finite_storage (store s)"
    and ps: "fetched_pairs node (store s) = Some ps" and new: "calculate node ps = Some (Inr new)" and wf: "bm_wf new"
    and cmp: "comparable node (store s) new" and nz: "\<forall>k p. bm_get new k = Some p \<longrightarrow> total_cost p \<noteq> 0"
    and run: "fetch_prices_and_update_best_paths node (block_number s) (store s) = Some (r, txs)" and tx: "tx \<in> set txs"
    and verify: "\<forall>payload. verify_payload env payload (sign node payload)"
    and key: "\<forall>key. local_key node = Some key \<longrightarrow> whitelisted (store s) (account_of env key) \<noteq> None"
    and fits: "unat (block_number s) + unat (max_pool_stay env) < 2 ^ 32" "unsigned_tx_nonce (store s) \<noteq> - 1"
    and logs: "log_info env \<longrightarrow> log_debug node"
  shows "\<exists>s'. chain_step env s (Executed NoOrigin tx) s' \<and>
     (\<forall>k p. bm_get new k = Some p \<longrightarrow> (\<exists>old. best_paths (store s') (source k, target k) = Some old \<and>
        breaches_tolerance (total_cost old) (total_cost p) (tolerance node) = Some False)) \<and>
     fetch_prices_and_update_best_paths node b (store s') = Some (Inr (), [])"
proof (rule fetch_submits [OF run tx])
  fix ps' new' cs k payload
  assume "fetched_pairs node (store s) = Some ps'" "calculate node ps' = Some (Inr new')"
    and cs: "best_path_changes node (store s) new' = Some cs" and k: "local_key node = Some k"
    and payload: "payload = \<lparr>changes = cs, payload_nonce = unsigned_tx_nonce (store s), payload_block = block_number s, public = k\<rparr>"
    and tx': "tx = OcwSubmitBestPathsChanges payload (sign node payload)"
  with ps new have cs: "best_path_changes node (store s) new = Some cs" by simp
  have fin: "finite (dom (best_paths (store s)))" using assms(2) by (simp add: finite_storage_def)
  have "log_info env \<longrightarrow> (\<forall>c \<in> set cs. utf8_change c)"
    using submitted_readable [OF it fin wf cmp _ cs] logs by blast
  then obtain st' where st': "ocw_submit_best_paths_changes (overflow_checks env) (log_info env) NoOrigin payload (store s) =
      Some (Inr st')" "best_paths st' = changed_paths cs (best_paths (store s))"
    using ocw_submit_accepted [of "store s" payload "log_info env" "overflow_checks env"] nonce_fits [OF fits(2)]
    by (auto simp: payload Let_def)
  have "rs_add (overflow_checks env) (block_number s) (max_pool_stay env) = Some (block_number s + max_pool_stay env)"
    "\<not> block_number s + max_pool_stay env < block_number s"
    using fits(1) by (simp_all add: rs_add_def word_less_nat_alt unat_add_fits)
  then have "valid_in_block env s tx"
    using verify key k by (simp add: valid_in_block_def validate_unsigned_def tx' payload)
  with st'(1) have step: "chain_step env s (Executed NoOrigin tx) (s\<lparr>store := st'\<rparr>)"
    by (intro chain_step.executed) (simp_all add: dispatch_def tx')
  have after: "finite (dom (best_paths st'))" "comparable node st' new" "best_path_changes node st' new = Some []"
    using comparable_after [OF it fin wf cmp nz cs st'(2)] settled [OF it fin wf cmp nz cs st'(2)] by simp_all
  have "fetch_prices_and_update_best_paths node b st' = Some (Inr (), [])"
    by (rule worker_settles [OF it fin ps new wf cmp nz run tx [unfolded tx'] st'(1)])
  with step unchanged_within_tolerance [OF it after(1) wf after(2,3)] show ?thesis
    by (intro exI [of _ "s\<lparr>store := st'\<rparr>"]) simp
qed

section \<open>The prices of a round\<close>

text \<open>A price is a function of its pair, so the fetched items have one price for each.\<close>

lemma fetched_one_price:
  assumes "fetched_pairs env st = Some ps" "iterates (iter_pairs env)" "finite (dom (monitored_pairs st))"
  shows "one_price ps"
  unfolding one_price_def
proof (intro ballI impI)
  fix x y
  assume xy: "x \<in> set ps" "y \<in> set ps" "pair_of x = pair_of y"
  have "pp_provider (fst x) = pp_provider (fst y)" by (metis (full_types) provider.exhaust)
  with xy(3) have "fst x = fst y" by (metis provider_pair.expand)
  with xy(1,2) have "(fst x, snd x) \<in> set ps" "(fst x, snd y) \<in> set ps" by (metis prod.collapse)+
  from fetched_pairs_result [OF assms this(1)] fetched_pairs_result [OF assms this(2)] show "snd x = snd y" by simp
qed

text \<open>A price that does not breach the tolerance exceeds the old one by less than a unit more than it.\<close>

lemma within_tolerance:
  assumes "breaches_tolerance old new tol = Some False" "(unat tol + 1) * unat old < 2 ^ 128"
  shows "real (unat new) \<le> real (unat old) * (1 + (real (unat tol) + 1) / 10 ^ 6)"
proof -
  have old: "old \<noteq> 0" using assms(1) by (auto simp: breaches_tolerance_unat)
  then have pos: "0 < unat old" by (simp add: unat_gt_0)
  have "min (1000000 * price_gap old new) (2 ^ 128 - 1) div unat old \<le> unat tol"
    using assms(1) old by (simp add: breaches_tolerance_unat)
  then have "min (1000000 * price_gap old new) (2 ^ 128 - 1) < (unat tol + 1) * unat old"
    using pos by (metis Suc_eq_plus1 less_Suc_eq_le div_less_iff_less_mult)
  then have "1000000 * price_gap old new < (unat tol + 1) * unat old" using assms(2) by (simp add: min_def split: if_splits)
  then have "1000000 * (unat new - unat old) \<le> (unat tol + 1) * unat old" by (simp add: price_gap_def)
  then have "1000000 * unat new \<le> (unat tol + 1) * unat old + 1000000 * unat old" by (simp add: diff_mult_distrib2)
  then have "real (1000000 * unat new) \<le> real ((unat tol + 1) * unat old + 1000000 * unat old)"
    by (simp only: of_nat_le_iff)
  then show ?thesis by (simp add: field_simps)
qed

lemma totals_bound_chains:
  assumes "accurate_log2 log2 \<delta>" "\<delta> \<le> 1 / 2 ^ 40" "length (currencies_of ps) \<le> 320"
    and "\<forall>x \<in> set ps. snd x \<noteq> 0" "one_price ps"
    and "calc_best_paths log2 Some Some ps = Some (Inr m)" "moderate_paths ps m"
    and "set xs \<subseteq> set ps" "xs \<noteq> []" "chain s (map pair_of xs) t" "length xs \<le> 320"
  shows "\<exists>pp. bm_get m (Pair s t) = Some pp \<and>
     price_product xs * 10 ^ 12 \<le> (real (unat (total_cost pp)) + 1) * (1 + 4 / 10 ^ 8)"
proof -
  obtain pp where pp: "bm_get m (Pair s t) = Some pp"
    using calc_near_best [OF assms(1,3-6,8-10)] by blast
  with assms(7) have "length (currencies_of ps) \<le> 8 \<or> length (steps pp) \<le> 320"
    "\<forall>ys. set ys \<subseteq> set ps \<and> map pair_of ys = map step_pair (steps pp) \<longrightarrow> moderate ys"
    unfolding moderate_paths_def by blast+
  with chain_below_total [OF assms(1-6) pp _ _ assms(8-11)] pp show ?thesis by blast
qed

lemma round_prices_near_best:
  fixes node :: "('acc, 'pub, 'sig) ocw_env" and env :: "('acc, 'pub, 'sig) chain_env"
  assumes node: "calculate node = calc_best_paths log2 Some Some" "accurate_log2 log2 \<delta>" "\<delta> \<le> 1 / 2 ^ 40"
      "iterates (iter_pairs node)" "iterates (iter_paths node)"
    and "finite_storage (store s)"
    and ps: "fetched_pairs node (store s) = Some ps" "\<forall>x \<in> set ps. snd x \<noteq> 0" "length (currencies_of ps) \<le> 320"
    and new: "calculate node ps = Some (Inr new)" "moderate_paths ps new \<or> ordinary_prices bits ps"
    and cmp: "comparable node (store s) new" and nz: "\<forall>k p. bm_get new k = Some p \<longrightarrow> total_cost p \<noteq> 0"
    and run: "fetch_prices_and_update_best_paths node (block_number s) (store s) = Some (r, txs)" and tx: "tx \<in> set txs"
    and verify: "\<forall>payload. verify_payload env payload (sign node payload)"
    and key: "\<forall>key. local_key node = Some key \<longrightarrow> whitelisted (store s) (account_of env key) \<noteq> None"
    and fits: "unat (block_number s) + unat (max_pool_stay env) < 2 ^ 32" "unsigned_tx_nonce (store s) \<noteq> - 1"
    and logs: "log_info env \<longrightarrow> log_debug node"
  shows "\<exists>s'. chain_step env s (Executed NoOrigin tx) s' \<and>
     (\<forall>xs a b. set xs \<subseteq> set ps \<and> xs \<noteq> [] \<and> length xs \<le> 320 \<and> chain a (map pair_of xs) b \<longrightarrow>
        (\<exists>p. best_paths (store s') (a, b) = Some p \<and>
           ((unat (tolerance node) + 1) * unat (total_cost p) < 2 ^ 128 \<longrightarrow>
              price_product xs * 10 ^ 12 \<le>
                (real (unat (total_cost p)) * (1 + (real (unat (tolerance node)) + 1) / 10 ^ 6) + 1) * (1 + 4 / 10 ^ 8))))"
proof -
  have calc: "calc_best_paths log2 Some Some ps = Some (Inr new)" using new(1) node(1) by simp
  have fin: "finite (dom (monitored_pairs (store s)))" using assms(6) by (simp add: finite_storage_def)
  have one: "one_price ps" by (rule fetched_one_price [OF ps(1) node(4) fin])
  have wf: "bm_wf new" by (rule fw.wf [OF calc])
  have moderate: "moderate_paths ps new"
    using new(2) ordinary_moderate_paths [OF node(2,3) one _ calc] by blast
  from round_brings_up_to_date [OF node(5) assms(6) ps(1) new(1) wf cmp nz run tx verify key fits logs]
  obtain s' where step: "chain_step env s (Executed NoOrigin tx) s'"
    and stored: "\<And>k p. bm_get new k = Some p \<Longrightarrow> \<exists>old. best_paths (store s') (source k, target k) = Some old \<and>
        breaches_tolerance (total_cost old) (total_cost p) (tolerance node) = Some False" by blast
  have "\<exists>p. best_paths (store s') (a, b) = Some p \<and>
       ((unat (tolerance node) + 1) * unat (total_cost p) < 2 ^ 128 \<longrightarrow>
          price_product xs * 10 ^ 12 \<le>
            (real (unat (total_cost p)) * (1 + (real (unat (tolerance node)) + 1) / 10 ^ 6) + 1) * (1 + 4 / 10 ^ 8))"
    if xs: "set xs \<subseteq> set ps" "xs \<noteq> []" "length xs \<le> 320" "chain a (map pair_of xs) b" for xs a b
  proof -
    from totals_bound_chains [OF node(2,3) ps(3,2) one calc moderate xs(1,2,4,3)] obtain pp where
      pp: "bm_get new (Pair a b) = Some pp"
        "price_product xs * 10 ^ 12 \<le> (real (unat (total_cost pp)) + 1) * (1 + 4 / 10 ^ 8)" by blast
    from stored [OF pp(1)] obtain old where
      old: "best_paths (store s') (a, b) = Some old"
        "breaches_tolerance (total_cost old) (total_cost pp) (tolerance node) = Some False" by auto
    have "price_product xs * 10 ^ 12 \<le>
        (real (unat (total_cost old)) * (1 + (real (unat (tolerance node)) + 1) / 10 ^ 6) + 1) * (1 + 4 / 10 ^ 8)"
      if "(unat (tolerance node) + 1) * unat (total_cost old) < 2 ^ 128"
    proof -
      have "(real (unat (total_cost pp)) + 1) * (1 + 4 / 10 ^ 8) \<le>
          (real (unat (total_cost old)) * (1 + (real (unat (tolerance node)) + 1) / 10 ^ 6) + 1) * (1 + 4 / 10 ^ 8)"
        using within_tolerance [OF old(2) that] by (intro mult_right_mono add_right_mono) simp_all
      with pp(2) show ?thesis by (rule order_trans)
    qed
    with old(1) show ?thesis by blast
  qed
  with step show ?thesis by blast
qed

section \<open>A sample round\<close>

lemma sample_pair_path:
  assumes "a < b" "calc_best_paths rounded_log2 Some Some (sample_pair a b) = Some (Inr m)" "bm_get m k = Some pp"
  shows "map step_pair (steps pp) = [] \<or> map step_pair (steps pp) = [Pair a b]"
proof -
  let ?ps = "sample_pair a b"
  obtain g mm i j p where e: "set g = encode Some ?ps ` set ?ps" "\<forall>e \<in> set g. e_cost e \<noteq> NaN"
    "longest_paths_mult rounded_log2 g = Some (Inr mm)" "bm_get mm (Pair i j) = Some p"
    "path_from Some ?ps p pp" "set (p_edges p) \<subseteq> set g"
    by (rule calc_entry [OF assms(2,3)]) blast
  have "length (currencies_of ?ps) \<le> 319" using assms(1) by (simp add: indexing_eval)
  from longest_paths_walk [OF encoded_small_rates [OF rounded_log2_ok e(1) this] e(3,4)]
  have walk: "walk (set g) i (p_edges p) j" by simp
  obtain ys where ys: "set ys \<subseteq> set ?ps" "p_edges p = map (encode Some ?ps) ys"
    using edges_of_inputs [of "p_edges p" Some ?ps] e(1,6) by auto
  have c: "chain (currencies_of ?ps ! i) (map pair_of ys) (currencies_of ?ps ! j)"
    using chain_of_walk [OF ys(1)] walk ys(2) by metis
  have "map pair_of ys = [] \<or> map pair_of ys = [Pair a b]"
    using ys(1) c assms(1) by (cases ys; cases "tl ys") (auto simp: sample_pair_def)
  with steps_of_edges [OF e(5) ys(2,1)] show ?thesis by simp
qed

lemma sample_pair_moderate:
  assumes "set ys \<subseteq> set (sample_pair a b)" "length ys \<le> 1"
  shows "moderate ys" "1 \<le> price_product ys"
proof -
  have y: "price_of y = 4" if "y \<in> set ys" for y using that assms(1) by (auto simp: sample_pair_def price_of_def)
  have "log 2 (4::real) = 2" using log_pow_cancel [of 2 2] by simp
  then have "\<forall>y \<in> set ys. 0 < price_of y \<and> \<bar>log 2 (price_of y)\<bar> \<le> 2" using y by simp
  moreover have "real (length ys) * 2 \<le> 80" using assms(2) by simp
  ultimately show "moderate ys" by (rule moderate_prices)
  show "1 \<le> price_product ys" using assms(2) y by (cases ys) (auto simp: price_product_def)
qed

lemma sample_pair_nonzero: "\<forall>x \<in> set (sample_pair a b). snd x \<noteq> 0"
  by (simp add: sample_pair_def)

lemma sample_pair_total:
  assumes "a < b" "calc_best_paths rounded_log2 Some Some (sample_pair a b) = Some (Inr m)" "bm_get m k = Some pp"
  shows "total_cost pp \<noteq> 0"
proof -
  from stored_total [OF sample_pair_nonzero assms(2,3)] obtain ys where
    ys: "set ys \<subseteq> set (sample_pair a b)" "map step_pair (steps pp) = map pair_of ys"
    and total: "moderate ys \<and> length ys \<le> 2 ^ 50 \<longrightarrow>
      price_product ys * 10 ^ 12 \<le> (real (unat (total_cost pp)) + 1) * 2 powr total_error (length ys)" by blast
  have len: "length ys \<le> 1" using sample_pair_path [OF assms] arg_cong [OF ys(2), of length] by auto
  note mod = sample_pair_moderate [OF ys(1) len]
  show ?thesis
  proof
    assume "total_cost pp = 0"
    then have "price_product ys * 10 ^ 12 \<le> 2 powr total_error (length ys)" using total mod(1) len by simp
    also have "\<dots> \<le> 2 powr 1" using len by (intro powr_mono) (simp_all add: total_error_def)
    finally show False using mod(2) by simp
  qed
qed

lemma sample_pair_ordinary: "a < b \<Longrightarrow> ordinary_prices 2 (sample_pair a b)"
  by (simp add: ordinary_prices_def prices_within_def indexing_eval)

lemma sample_round:
  obtains m cs where "calc_best_paths rounded_log2 Some Some (sample_pair BTC USD) = Some (Inr m)"
    "comparable sample_fw_env sample_monitored m"
    "fetch_prices_and_update_best_paths sample_fw_env 10 sample_monitored =
       Some (Inr (), [OcwSubmitBestPathsChanges (sample_payload cs) ()])"
    "fetched_pairs sample_fw_env sample_monitored = Some (sample_pair BTC USD)"
proof -
  have "BTC < USD" by (simp add: BTC_def USD_def)
  then obtain m pp where m: "calc_best_paths rounded_log2 Some Some (sample_pair BTC USD) = Some (Inr m)"
    "bm_get m (Pair BTC USD) = Some pp" by (rule sample_pair_calc)
  have "fetched_pairs sample_fw_env sample_monitored = Some (sample_pair BTC USD)"
    by (simp add: fetched_pairs_def sample_fw_env_def sample_env_def sample_monitored_def sample_pair_def)
  moreover have "comparable sample_fw_env sample_monitored m"
    by (simp add: comparable_def sample_fw_env_def sample_env_def sample_monitored_def sample_storage_def)
  moreover obtain cs where "fetch_prices_and_update_best_paths sample_fw_env 10 sample_monitored =
     Some (Inr (), [OcwSubmitBestPathsChanges (sample_payload cs) ()])" by (rule sample_fw_run)
  ultimately show thesis using m(1) that by blast
qed

end
