(* ===== verification/Board.thy ===== *)
theory Board
  imports Chain
begin

text \<open>
  What the chain promises, as an abstract specification: a board of posted paths that only trusted
  accounts write to, a set of watched pairs and the set of trusted accounts, both in root's hands,
  and a count of the posts. It knows nothing of nonces, payloads, signatures, origins, iteration
  order, deduplication or events. Every run of the chain refines a run of the board.
\<close>

section \<open>The board\<close>

record 'acc board =
  posted :: "currency \<times> currency \<rightharpoonup> best_path"
  watched :: "currency provider_pair set"
  trusted :: "'acc set"
  posts :: nat

datatype 'acc action =
    Post 'acc "change list"
  | Watch "pair_operation list"
  | Trust 'acc
  | Quote currency currency
  | Skip

text \<open>An action is refused (\<open>None\<close>) where the board does not allow it.\<close>

definition board_act :: "'acc action \<Rightarrow> 'acc board \<Rightarrow> 'acc board option" where
  "board_act act b =
     (case act of
        Post a cs \<Rightarrow>
          if a \<in> trusted b
          then Some (b\<lparr>posted := (\<lambda>k. case last_change cs k of Some np \<Rightarrow> np | None \<Rightarrow> posted b k), posts := posts b + 1\<rparr>)
          else None
      | Watch ops \<Rightarrow> Some (b\<lparr>watched := {pp. case last_operation ops pp of Some op \<Rightarrow> op = Add | None \<Rightarrow> pp \<in> watched b}\<rparr>)
      | Trust a \<Rightarrow> Some (b\<lparr>trusted := insert a (trusted b)\<rparr>)
      | Quote s t \<Rightarrow> if posted b (s, t) = None then None else Some b
      | Skip \<Rightarrow> Some b)"

primrec board_run :: "'acc action list \<Rightarrow> 'acc board \<Rightarrow> 'acc board option" where
  "board_run [] b = Some b"
| "board_run (act # acts) b = do { b' \<leftarrow> board_act act b; board_run acts b' }"

lemma board_run_append: "board_run (acts @ acts') b = do { b' \<leftarrow> board_run acts b; board_run acts' b' }"
  by (induction acts arbitrary: b) (simp_all split: Option.bind_split)

section \<open>Refinement\<close>

definition action_of :: "('acc, 'pub, 'sig) chain_env \<Rightarrow> ('acc, 'pub, 'sig) label \<Rightarrow> 'acc action" where
  "action_of env l =
     (case l of
        Executed _ (OcwSubmitBestPathsChanges payload sig) \<Rightarrow> Post (account_of env (public payload)) (changes payload)
      | Executed _ (SubmitMonitoredPairs ops) \<Rightarrow> Watch ops
      | Executed _ (AddWhitelistedOffchainAuthority a) \<Rightarrow> Trust a
      | Executed _ (Trade s t amount) \<Rightarrow> Quote s t
      | Failed _ _ \<Rightarrow> Skip
      | NextBlock \<Rightarrow> Skip)"

definition refines :: "'acc storage \<Rightarrow> 'acc board \<Rightarrow> bool" where
  "refines st b \<longleftrightarrow> best_paths st = posted b \<and> dom (monitored_pairs st) = watched b \<and>
     dom (whitelisted st) = trusted b \<and> unsigned_tx_nonce st = of_nat (posts b)"

lemma monitored_after:
  assumes "submit_monitored_pairs Root ops st = Some (Inr st')"
  shows "monitored_pairs st' = changed_pairs ops (monitored_pairs st)"
proof -
  have "fst (fold apply_operation (dedupe_operations ops) (monitored_pairs st, [])) = changed_pairs ops (monitored_pairs st)"
    by (simp add: dedupe_last_operations fold_operations distinct_last_operations
        changed_pairs_def [abs_def] last_operation_last_operations)
  with assms show ?thesis
    by (auto simp: submit_monitored_pairs_def ensure_root_def deposit_event_def Let_def case_prod_beta split: if_splits)
qed

lemma executed_refines:
  assumes "dispatch (overflow_checks env) (log_info env) origin c (store s) = Some (Inr st')"
    and "origin = NoOrigin \<longrightarrow> valid_in_block env s c" and "refines (store s) b"
  shows "\<exists>b'. board_act (action_of env (Executed origin c)) b = Some b' \<and> refines st' b'"
  using assms(1)
proof (cases rule: dispatch_cases)
  case (submit payload sig paths ev)
  then have step: "chain_step env s (Executed NoOrigin c) (s\<lparr>store := st'\<rparr>)"
    using assms(1,2) by (intro chain_step.executed) simp_all
  have "submission (Executed NoOrigin c) = [(payload, sig)]" by (simp add: submission_def submit(1))
  note sub = step_submission [OF step this]
  from sub(4) assms(3) have "account_of env (public payload) \<in> trusted b" by (auto simp: refines_def)
  moreover have "best_paths st' = changed_paths (changes payload) (posted b)"
    using sub(5) assms(3) by (simp add: refines_def)
  then have "best_paths st' = (\<lambda>k. case last_change (changes payload) k of Some np \<Rightarrow> np | None \<Rightarrow> posted b k)"
    by (simp add: changed_paths_last fun_eq_iff)
  ultimately show ?thesis using sub(2) assms(3) submit(4)
    by (simp add: board_act_def action_of_def submit(1) refines_def)
next
  case (monitor ops pairs ev)
  with assms(1) have "monitored_pairs st' = changed_pairs ops (monitored_pairs (store s))"
    by (intro monitored_after) (simp add: dispatch_def)
  then have "dom (monitored_pairs st') =
      {pp. case last_operation ops pp of Some op \<Rightarrow> op = Add | None \<Rightarrow> pp \<in> watched b}"
    using assms(3) by (auto simp: refines_def changed_pairs_def dom_def split: option.splits operation.splits) (metis operation.exhaust)+
  with assms(3) monitor(3) show ?thesis
    by (simp add: board_act_def action_of_def refines_def monitor(1))
next
  case (authorise a)
  with assms(3) show ?thesis by (simp add: board_act_def action_of_def refines_def)
next
  case (trade s' t amount a ev)
  with assms(1) have "best_paths (store s) (s', t) \<noteq> None"
    by (auto simp: dispatch_def trade_def ensure_signed_def split: option.splits)
  with assms(3) trade show ?thesis by (simp add: board_act_def action_of_def refines_def)
qed

lemma step_refines:
  assumes "chain_step env s l s'" "refines (store s) b"
  shows "\<exists>b'. board_act (action_of env l) b = Some b' \<and> refines (store s') b'"
  using assms(1)
proof cases
  case (executed origin c st')
  with executed_refines [OF executed(3,4) assms(2)] show ?thesis by simp
qed (use assms(2) in \<open>simp_all add: board_act_def action_of_def refines_def\<close>)

text \<open>C8: The chain refines the board: whatever blocks and extrinsics a run holds, the board can perform
  the corresponding actions, posts only by trusted accounts and quotes only of posted paths, and
  the storage at the end is what the board then shows. So what the chain stores is a function of
  the posts, watches and trusts in the run.\<close>

theorem chain_refines_board:
  assumes "chain_run env s trace s'" "refines (store s) b"
  shows "\<exists>b'. board_run (map (action_of env) trace) b = Some b' \<and> refines (store s') b'"
  using assms
proof (induction rule: chain_run.induct)
  case (step s trace s' l s'')
  then obtain b' where "board_run (map (action_of env) trace) b = Some b'" "refines (store s') b'" by blast
  with step_refines [OF step.hyps(2)] show ?case by (auto simp: board_run_append)
qed simp

definition sample_board :: "nat board" where
  "sample_board = \<lparr>posted = best_paths sample_storage, watched = dom (monitored_pairs sample_storage), trusted = {7}, posts = 3\<rparr>"

theorem chain_refines_board_witness:
  "\<exists>s' b'. chain_run sample_chain_env sample_chain [Executed NoOrigin sample_submit] s' \<and>
     board_run [Post 7 [(BTC, USD, Some \<lparr>total_cost = 5, steps = []\<rparr>)]] sample_board = Some b' \<and>
     refines (store s') b' \<and> posts b' = 4"
proof -
  obtain s' where run: "chain_run sample_chain_env sample_chain [Executed NoOrigin sample_submit] s'"
    by (rule sample_chain_run)
  have start: "refines (store sample_chain) sample_board"
    by (simp add: refines_def sample_board_def sample_chain_def sample_storage_def)
  have act: "map (action_of sample_chain_env) [Executed NoOrigin sample_submit] =
      [Post 7 [(BTC, USD, Some \<lparr>total_cost = 5, steps = []\<rparr>)]]"
    by (simp add: action_of_def sample_payload_def sample_chain_env_def)
  from chain_refines_board [OF run start] obtain b' where
    b': "board_run [Post 7 [(BTC, USD, Some \<lparr>total_cost = 5, steps = []\<rparr>)]] sample_board = Some b'" "refines (store s') b'"
    unfolding act by blast
  moreover from b'(1) have "posts b' = 4" by (auto simp: board_act_def sample_board_def split: if_splits)
  ultimately show ?thesis using run by blast
qed

end
