(* ===== verification/Trades.thy ===== *)
theory Trades
  imports Chain
begin

text \<open>
  Trades over a run of the chain: which trades the event log of a block holds, and at which price: the
  one posted last for the pair.
\<close>

section \<open>The price posted last\<close>

definition posted_changes :: "('acc, 'pub, 'sig) label list \<Rightarrow> change list" where
  "posted_changes trace = concat (map (\<lambda>(payload, sig). changes payload) (submissions trace))"

text \<open>The path of a pair after a run: that of the last change for the pair in the executed submissions,
  or the stored one where there is none.\<close>

definition posted_path ::
  "(currency \<times> currency \<rightharpoonup> best_path) \<Rightarrow> ('acc, 'pub, 'sig) label list \<Rightarrow> currency \<times> currency \<rightharpoonup> best_path" where
  "posted_path paths trace k =
     (case last_change (posted_changes trace) k of Some new_path \<Rightarrow> new_path | None \<Rightarrow> paths k)"

lemma changed_paths_append: "changed_paths (cs @ cs') paths = changed_paths cs' (changed_paths cs paths)"
  by (induction cs arbitrary: paths) (auto split: prod.splits)

lemma posted_path_changed: "posted_path paths trace = changed_paths (posted_changes trace) paths"
  by (simp add: posted_path_def [abs_def] changed_paths_last fun_eq_iff)

lemma run_posted_path:
  "chain_run env s trace s' \<Longrightarrow> best_paths (store s') = posted_path (best_paths (store s)) trace"
proof (induction rule: chain_run.induct)
  case (step s trace s' l s'')
  show ?case
  proof (cases l rule: submission_cases)
    case none
    with step.IH step_other [OF step.hyps(2)] show ?thesis
      by (simp add: posted_path_changed posted_changes_def)
  next
    case (one payload sig)
    with step.IH step_submission(5) [OF step.hyps(2) one] show ?thesis
      by (simp add: posted_path_changed posted_changes_def changed_paths_append)
  qed
qed (simp add: posted_path_def posted_changes_def last_change_def)

section \<open>The log of a block\<close>

text \<open>What a trade along a path of a given cost reports: the product as the build computes it.\<close>

definition trade_amount :: "bool \<Rightarrow> amount \<Rightarrow> amount \<Rightarrow> amount \<Rightarrow> bool" where
  "trade_amount checks amount cost out \<longleftrightarrow>
     unat out = unat amount * unat cost mod 2 ^ 128 \<and> (checks \<longrightarrow> unat amount * unat cost < 2 ^ 128)"

lemma trade_amount_mul: "rs_mul checks amount cost = Some out \<longleftrightarrow> trade_amount checks amount cost out"
  by (auto simp: rs_mul_def trade_amount_def word_unat_eq_iff unat_word_ariths not_le)

lemma dispatch_trades:
  assumes "dispatch checks log_on origin c st = Some (Inr st')"
  shows "TradePerformed a src tgt cost amount out \<in> set (events st') \<longleftrightarrow>
     TradePerformed a src tgt cost amount out \<in> set (events st) \<or>
     origin = Signed a \<and> c = Trade src tgt amount \<and>
       (\<exists>path. best_paths st (src, tgt) = Some path \<and> cost = total_cost path \<and> trade_amount checks amount cost out)"
proof (cases c)
  case (OcwSubmitBestPathsChanges payload sig)
  with assms have "ocw_submit_best_paths_changes checks log_on origin payload st = Some (Inr st')"
    by (simp add: dispatch_def)
  then show ?thesis by (rule ocw_submit_success) (simp add: OcwSubmitBestPathsChanges)
next
  case (SubmitMonitoredPairs ops)
  with assms show ?thesis
    by (auto simp: dispatch_def submit_monitored_pairs_def deposit_event_def Let_def case_prod_beta split: sum.splits if_splits)
next
  case (AddWhitelistedOffchainAuthority b)
  with assms show ?thesis
    by (auto simp: dispatch_def add_whitelisted_offchain_authority_def deposit_event_def Let_def split: sum.splits)
next
  case (Trade s t x)
  with assms show ?thesis
    by (auto simp: dispatch_def trade_def deposit_event_def ensure_signed_def trade_amount_mul [symmetric] Let_def
        split: origin.splits option.splits Option.bind_splits)
qed

lemma step_trades:
  assumes "chain_step env s l s'"
  shows "TradePerformed a src tgt cost amount out \<in> set (events (store s')) \<longleftrightarrow>
     l \<noteq> NextBlock \<and> TradePerformed a src tgt cost amount out \<in> set (events (store s)) \<or>
     l = Executed (Signed a) (Trade src tgt amount) \<and>
       (\<exists>path. best_paths (store s) (src, tgt) = Some path \<and> cost = total_cost path \<and>
          trade_amount (overflow_checks env) amount cost out)"
  using assms
proof cases
  case (executed origin c st')
  with dispatch_trades [OF executed(3)] show ?thesis by simp
qed simp_all

text \<open>An entry of a growing list with a property of what is before it, and no \<open>n\<close> after it.\<close>

lemma last_occurrence:
  "(\<exists>us vs path. xs @ [x] = us @ e # vs \<and> n \<notin> set vs \<and> P us path) \<longleftrightarrow>
     x \<noteq> n \<and> (\<exists>us vs path. xs = us @ e # vs \<and> n \<notin> set vs \<and> P us path) \<or> x = e \<and> (\<exists>path. P xs path)"
    (is "?l \<longleftrightarrow> ?r")
proof
  assume ?l
  then obtain us vs path where *: "xs @ [x] = us @ e # vs" "n \<notin> set vs" "P us path" by blast
  then show ?r by (cases vs rule: rev_cases) auto
next
  assume ?r
  then show ?l
  proof (elim disjE conjE exE)
    fix us vs path
    assume "x \<noteq> n" "xs = us @ e # vs" "n \<notin> set vs" "P us path"
    then have "xs @ [x] = us @ e # (vs @ [x]) \<and> n \<notin> set (vs @ [x]) \<and> P us path" by simp
    then show ?l by blast
  next
    fix path
    assume "x = e" "P xs path"
    then have "xs @ [x] = xs @ e # [] \<and> n \<notin> set [] \<and> P xs path" by simp
    then show ?l by blast
  qed
qed

text \<open>C31: The log of a block holds exactly the trades executed in it, each at the price posted last: a
  trade is in the log if and only if its owner signed it, no block has begun since, and the path
  in effect when it was executed, that of the last change for the pair in the submissions executed
  before, has the reported cost. The reported amount is the amount times that cost, unscaled, modulo
  \<open>2 ^ 128\<close>, and with overflow checks nothing wraps: a trade whose product does not fit is not
  executed.\<close>

theorem trades_at_posted_price:
  assumes "chain_run env s trace s'" "events (store s) = []"
  shows "TradePerformed a src tgt cost amount out \<in> set (events (store s')) \<longleftrightarrow>
     (\<exists>us vs path. trace = us @ Executed (Signed a) (Trade src tgt amount) # vs \<and> NextBlock \<notin> set vs \<and>
        posted_path (best_paths (store s)) us (src, tgt) = Some path \<and> cost = total_cost path \<and>
        unat out = unat amount * unat cost mod 2 ^ 128 \<and>
        (overflow_checks env \<longrightarrow> unat amount * unat cost < 2 ^ 128))"
    (is "?ev \<in> _ \<longleftrightarrow> ?traded trace")
  using assms
proof (induction rule: chain_run.induct)
  case (step s trace s' l s'')
  let ?now = "l = Executed (Signed a) (Trade src tgt amount) \<and>
    (\<exists>path. posted_path (best_paths (store s)) trace (src, tgt) = Some path \<and> cost = total_cost path \<and>
       trade_amount (overflow_checks env) amount cost out)"
  note split = last_occurrence [of trace l "Executed (Signed a) (Trade src tgt amount)" NextBlock "\<lambda>us path. posted_path (best_paths (store s)) us (src, tgt) = Some path \<and> cost = total_cost path \<and>
      unat out = unat amount * unat cost mod 2 ^ 128 \<and> (overflow_checks env \<longrightarrow> unat amount * unat cost < 2 ^ 128)"]
  have "?ev \<in> set (events (store s'')) \<longleftrightarrow> l \<noteq> NextBlock \<and> ?ev \<in> set (events (store s')) \<or> ?now"
    using step_trades [OF step.hyps(2), of a src tgt cost amount out] unfolding run_posted_path [OF step.hyps(1)] .
  then show ?case using step.IH [OF step.prems] unfolding split by (simp add: trade_amount_def)
qed simp

theorem trades_at_posted_price_witness:
  "\<exists>s'. chain_run sample_chain_env sample_chain
       ([Executed NoOrigin sample_submit] @ [Executed (Signed 3) (Trade BTC USD 4)]) s' \<and>
     TradePerformed 3 BTC USD 5 4 20 \<in> set (events (store s'))"
proof -
  obtain s where run: "chain_run sample_chain_env sample_chain [Executed NoOrigin sample_submit] s"
    "best_paths (store s) (BTC, USD) = Some \<lparr>total_cost = 5, steps = []\<rparr>" by (rule sample_chain_run)
  have "chain_step sample_chain_env s (Executed (Signed 3) (Trade BTC USD 4))
      (s\<lparr>store := deposit_event (TradePerformed 3 BTC USD 5 4 20) (store s)\<rparr>)"
    by (rule chain_step.executed)
      (simp_all add: dispatch_def trade_def ensure_signed_def run(2) rs_mul_def sample_chain_env_def)
  from chain_run.step [OF run(1) this] obtain s' where s': "chain_run sample_chain_env sample_chain
      ([Executed NoOrigin sample_submit] @ [Executed (Signed 3) (Trade BTC USD 4)]) s'" by blast
  have "posted_path (best_paths (store sample_chain)) [Executed NoOrigin sample_submit] (BTC, USD) =
      Some \<lparr>total_cost = 5, steps = []\<rparr>" using run by (simp add: run_posted_path [OF run(1), symmetric])
  then have "[Executed NoOrigin sample_submit] @ [Executed (Signed 3) (Trade BTC USD 4)] =
        [Executed NoOrigin sample_submit] @ Executed (Signed 3) (Trade BTC USD 4) # [] \<and> NextBlock \<notin> set [] \<and>
      posted_path (best_paths (store sample_chain)) [Executed NoOrigin sample_submit] (BTC, USD) =
        Some \<lparr>total_cost = 5, steps = []\<rparr> \<and>
      (5 :: u128) = total_cost \<lparr>total_cost = 5, steps = []\<rparr> \<and> unat (20 :: u128) = unat (4 :: u128) * unat (5 :: u128) mod 2 ^ 128 \<and>
      (overflow_checks sample_chain_env \<longrightarrow> unat (4 :: u128) * unat (5 :: u128) < 2 ^ 128)" by simp
  moreover have "events (store sample_chain) = []" by (simp add: sample_chain_def sample_storage_def)
  ultimately have "TradePerformed 3 BTC USD 5 4 20 \<in> set (events (store s'))"
    using trades_at_posted_price [OF s', of 3 BTC USD 5 4 20] by blast
  with s' show ?thesis by blast
qed

end
