(* ===== verification/Routes.thy ===== *)
theory Routes
  imports Near_Totals
begin

text \<open>
  Certificates for the calculator's answers. A potential gives every currency a worth such that no
  exchange gains: if every exchange loses, there is no arbitrage and the calculator succeeds
  (\<open>losing_prices\<close>); if only the exchanges of a tree towards one currency do not lose, by more than
  the calculator's rounding, then it stores exactly the routes of the tree (\<open>tree_route\<close>). The entry
  of a route follows from the prices along it (\<open>entry_of_route\<close>).
\<close>

section \<open>Potentials\<close>

text \<open>Exchanges in \<open>T\<close> keep the worth \<open>w\<close>, all others keep at most the part \<open>r\<close> of it.\<close>

definition potential :: "('c, u128) priced list \<Rightarrow> 'c pair set \<Rightarrow> real \<Rightarrow> ('c \<Rightarrow> real) \<Rightarrow> bool" where
  "potential ps T r w \<longleftrightarrow> 0 \<le> r \<and> r \<le> 1 \<and> (\<forall>c. 0 < w c) \<and>
     (\<forall>x \<in> set ps. if pair_of x \<in> T then price_of x * w (target (pair_of x)) = w (source (pair_of x))
        else price_of x * w (target (pair_of x)) \<le> r * w (source (pair_of x)))"

lemma potential_chain:
  assumes "potential ps T r w" "\<forall>x \<in> set ps. snd x \<noteq> 0"
  shows "set ys \<subseteq> set ps \<Longrightarrow> chain s (map pair_of ys) t \<Longrightarrow>
     price_product ys * w t \<le> r ^ length (filter (\<lambda>y. pair_of y \<notin> T) ys) * w s"
proof (induction ys arbitrary: s)
  case (Cons y ys)
  let ?u = "target (pair_of y)" and ?k = "length (filter (\<lambda>y. pair_of y \<notin> T) ys)"
  have y: "y \<in> set ps" "source (pair_of y) = s" using Cons.prems by simp_all
  have IH: "price_product ys * w t \<le> r ^ ?k * w ?u" using Cons by simp
  have "0 \<le> price_of y" unfolding price_of_def by (intro divide_nonneg_nonneg of_nat_0_le_iff) simp
  then have "price_product (y # ys) * w t \<le> price_of y * (r ^ ?k * w ?u)"
    using IH mult_left_mono by (fastforce simp: price_product_def mult.assoc)
  also have "\<dots> = r ^ ?k * (price_of y * w ?u)" by simp
  also have "\<dots> \<le> r ^ ?k * ((if pair_of y \<in> T then 1 else r) * w s)"
    using assms(1) y by (intro mult_left_mono) (auto simp: potential_def)
  finally show ?case by (cases "pair_of y \<in> T") (simp_all only: filter.simps if_True if_False not_not list.size power_Suc mult_1 mult_ac, simp_all add: mult_ac)
qed (simp add: price_product_def)

lemma potential_tree:
  assumes "potential ps T r w"
  shows "set ys \<subseteq> set ps \<Longrightarrow> chain s (map pair_of ys) t \<Longrightarrow> pair_of ` set ys \<subseteq> T \<Longrightarrow>
     price_product ys * w t = w s"
proof (induction ys arbitrary: s)
  case (Cons y ys)
  have "price_product ys * w t = w (target (pair_of y))" using Cons by simp
  moreover have "price_of y * w (target (pair_of y)) = w s"
    using assms Cons.prems unfolding potential_def by auto
  ultimately show ?case by (simp add: price_product_def mult.assoc)
qed (simp add: price_product_def)

section \<open>No arbitrage\<close>

lemma price_error_linear:
  assumes "\<delta> \<le> 1 / 2 ^ 40" "n \<le> 2 ^ 15"
  shows "price_error \<delta> n \<le> real n / 10 ^ 8"
proof -
  have n: "real n \<le> 2 ^ 15" using assms(2) by (metis of_nat_le_iff of_nat_numeral of_nat_power)
  have "real n * (real n - 1) \<le> real n * 2 ^ 15" using n by (intro mult_left_mono) simp_all
  then have "real n * (real n - 1) * 2 ^ 8 / 2 ^ 52 \<le> real n * 2 ^ 15 * 2 ^ 8 / 2 ^ 52"
    by (intro divide_right_mono mult_right_mono) simp_all
  then have "sum_error 8 n \<le> real n * (1 / 2 ^ 29)" by (simp add: sum_error_def)
  moreover have "real n * (\<delta> + 1 / 2 ^ 51) \<le> real n * (1 / 2 ^ 40 + 1 / 2 ^ 51)"
    using assms(1) by (intro mult_left_mono) simp_all
  ultimately have "price_error \<delta> n \<le> real n * (1 / 2 ^ 29) + real n * (1 / 2 ^ 40 + 1 / 2 ^ 51)"
    unfolding price_error_def log_error_def by linarith
  also have "\<dots> = real n * (1 / 2 ^ 29 + 1 / 2 ^ 40 + 1 / 2 ^ 51)" by (simp add: algebra_simps)
  also have "\<dots> \<le> real n * (1 / 10 ^ 8)" by (intro mult_left_mono) simp_all
  finally show ?thesis by simp
qed

lemma log_power_le:
  assumes "0 < r" "0 < x" "x \<le> r ^ n"
  shows "log 2 x \<le> real n * log 2 r"
proof -
  have "log 2 x \<le> log 2 (r ^ n)" using assms by simp
  also have "\<dots> = real n * log 2 r" using assms(1) by (intro log_nat_power) simp
  finally show ?thesis .
qed

lemma log2_below_one:
  assumes "0 < r" "r \<le> 1"
  shows "log 2 r \<le> r - 1"
proof -
  have l: "0 < ln (2::real)" "ln (2::real) \<le> 1" using ln_le_minus_one [of 2] by simp_all
  have "log 2 r = ln r / ln 2" by (simp add: log_def)
  also have "\<dots> \<le> (r - 1) / ln 2" using ln_le_minus_one [OF assms(1)] l(1) by (intro divide_right_mono) simp_all
  also have "\<dots> \<le> (r - 1) / 1" using l assms(2) by (intro divide_left_mono_neg) simp_all
  finally show ?thesis by simp
qed

lemma losing_prices:
  assumes "accurate_log2 log2 \<delta>" "\<delta> \<le> 1 / 2 ^ 40" "length (currencies_of ps) \<le> 5"
    and "\<forall>x \<in> set ps. snd x \<noteq> 0" "one_price ps" "potential ps {} r w" "0 < r" "r \<le> 1 - 1 / 10 ^ 5"
  obtains m where "calc_best_paths log2 Some Some ps = Some (Inr m)"
proof -
  obtain res where res: "calc_best_paths log2 Some Some ps = Some res"
    using calc_best_paths_total [of Some log2 Some ps] by auto
  show thesis
  proof (cases res)
    case (Inl err)
    have "length (currencies_of ps) \<le> 320" using assms(3) by simp
    from calc_near_arbitrage [OF assms(1) this assms(4,5)] res Inl obtain s xs where
      xs: "set xs \<subseteq> set ps" "xs \<noteq> []" "chain s (map pair_of xs) s" "length xs \<le> 8 ^ length (currencies_of ps)"
        "length xs \<le> 2 ^ 52 \<Longrightarrow> - price_error \<delta> (length xs) < log 2 (price_product xs)" by blast
    have "length xs \<le> 8 ^ 5" using xs(4) assms(3) power_increasing [of "length (currencies_of ps)" 5 "8::nat"] by simp
    then have len: "length xs \<le> 2 ^ 15" "length xs \<le> 2 ^ 52" by simp_all
    have pos: "0 < price_product xs" using product_of_prices [of xs ps] assms(4) xs(1) by blast
    have w: "0 < w s" using assms(6) by (simp add: potential_def)
    have "price_product xs * w s \<le> r ^ length xs * w s"
      using potential_chain [OF assms(6,4) xs(1,3)] by simp
    then have "price_product xs \<le> r ^ length xs" using w by simp
    from log_power_le [OF assms(7) pos this] have "log 2 (price_product xs) \<le> real (length xs) * log 2 r" .
    also have "\<dots> \<le> real (length xs) * (- 1 / 10 ^ 5)"
      using log2_below_one [OF assms(7)] assms(8) by (intro mult_left_mono) simp_all
    also have "\<dots> \<le> - (real (length xs) / 10 ^ 8)" by simp
    also have "\<dots> \<le> - price_error \<delta> (length xs)" using price_error_linear [OF assms(2) len(1)] by simp
    finally show thesis using xs(5) [OF len(2)] by simp
  qed (use res that in simp)
qed

section \<open>Routes of a tree\<close>

lemma tree_unique:
  assumes "\<forall>p \<in> T. \<forall>q \<in> T. source p = source q \<longrightarrow> p = q" "\<forall>p \<in> T. source p \<noteq> t"
  shows "set ks \<subseteq> T \<Longrightarrow> set ls \<subseteq> T \<Longrightarrow> chain s ks t \<Longrightarrow> chain s ls t \<Longrightarrow> ks = ls"
proof (induction ks arbitrary: s ls)
  case Nil
  then show ?case using assms(2) by (cases ls) auto
next
  case (Cons k ks)
  then obtain l ls' where ls: "ls = l # ls'" using assms(2) by (cases ls) auto
  then have "l = k" using Cons.prems assms(1) by auto
  with Cons.IH [of ls' "target k"] Cons.prems ls show ?case by simp
qed

lemma items_of_route:
  "set route \<subseteq> pair_of ` set ps \<Longrightarrow> \<exists>xs. set xs \<subseteq> set ps \<and> map pair_of xs = route"
proof (induction route)
  case (Cons k route)
  then obtain x xs where "x \<in> set ps" "pair_of x = k" "set xs \<subseteq> set ps" "map pair_of xs = route" by auto
  then show ?case by (intro exI [of _ "x # xs"]) simp
qed simp

lemma tree_route:
  assumes acc: "accurate_log2 log2 \<delta>" "\<delta> \<le> 1 / 2 ^ 40" and cur: "length (currencies_of ps) \<le> 8"
    and prices: "\<forall>x \<in> set ps. snd x \<noteq> 0" "one_price ps"
    and m: "calc_best_paths log2 Some Some ps = Some (Inr m)"
    and w: "potential ps T r w" "r \<le> 1 - 1 / 10 ^ 6"
    and T: "\<forall>p \<in> T. \<forall>q \<in> T. source p = source q \<longrightarrow> p = q" "\<forall>p \<in> T. source p \<noteq> t"
    and route: "set route \<subseteq> T" "set route \<subseteq> pair_of ` set ps" "route \<noteq> []" "length route \<le> 320" "chain s route t"
  shows "\<exists>pp. bm_get m (Pair s t) = Some pp \<and> map step_pair (steps pp) = route"
proof -
  obtain xs where xs: "set xs \<subseteq> set ps" "map pair_of xs = route" using items_of_route [OF route(2)] by blast
  have len: "length xs \<le> 320" "xs \<noteq> []" using xs(2) route(3,4) by auto
  have "length (currencies_of ps) \<le> 320" using cur by simp
  have chain: "chain s (map pair_of xs) t" using xs(2) route(5) by simp
  from calc_near_best_factor [OF acc(1) \<open>length (currencies_of ps) \<le> 320\<close> prices m xs(1) len(2) this] obtain pp ys where
    pp: "bm_get m (Pair s t) = Some pp" "set ys \<subseteq> set ps" "chain s (map pair_of ys) t"
      "map step_pair (steps pp) = map pair_of ys"
    and within: "\<delta> \<le> 1 / 2 ^ 40 \<and> length xs \<le> 320 \<and> (length (currencies_of ps) \<le> 8 \<or> length ys \<le> 320) \<longrightarrow>
        price_product xs \<le> price_product ys * (1 + 3 / 10 ^ 8)" by blast
  have near: "price_product xs \<le> price_product ys * (1 + 3 / 10 ^ 8)" using within acc(2) len(1) cur by blast
  have pos: "0 < w t" "0 < w s" "0 \<le> r" using w(1) by (simp_all add: potential_def)
  have "pair_of ` set xs \<subseteq> T" using route(1) arg_cong [OF xs(2), of set] by simp
  from potential_tree [OF w(1) xs(1) chain this] have "price_product xs * w t = w s" .
  then have "w s \<le> price_product ys * (1 + 3 / 10 ^ 8) * w t" using near pos(1) by (metis mult_right_mono order_less_imp_le)
  then have gain: "w s \<le> (price_product ys * w t) * (1 + 3 / 10 ^ 8)" by (simp only: mult_ac)
  have "pair_of ` set ys \<subseteq> T"
  proof (rule ccontr)
    assume "\<not> pair_of ` set ys \<subseteq> T"
    then have "filter (\<lambda>y. pair_of y \<notin> T) ys \<noteq> []" by (auto simp: filter_empty_conv)
    then obtain k where k: "length (filter (\<lambda>y. pair_of y \<notin> T) ys) = Suc k" by (metis length_0_conv nat.exhaust)
    have "price_product ys * w t \<le> r ^ Suc k * w s" using potential_chain [OF w(1) prices(1) pp(2,3)] k by simp
    also have "\<dots> \<le> r * w s"
    proof (rule mult_right_mono)
      have "r ^ k \<le> 1" using w(1) by (intro power_le_one) (simp_all add: potential_def)
      then show "r ^ Suc k \<le> r" using pos(3) by (simp add: mult_left_le)
    qed (use pos(2) in simp)
    also have "\<dots> \<le> (1 - 1 / 10 ^ 6) * w s" using w(2) pos(2) by (intro mult_right_mono) simp_all
    finally have "(price_product ys * w t) * (1 + 3 / 10 ^ 8) \<le> (1 - 1 / 10 ^ 6) * w s * (1 + 3 / 10 ^ 8)"
      by (rule mult_right_mono) simp
    also have "\<dots> < w s" using pos(2) by simp
    finally show False using gain by simp
  qed
  then have "map pair_of ys = route" using tree_unique [OF T _ route(1) pp(3) route(5)] by simp
  with pp(1,4) show ?thesis by simp
qed

section \<open>The entry of a route\<close>

definition price_at :: "('c, u128) priced list \<Rightarrow> 'c pair \<Rightarrow> u128" where
  "price_at ps k = the (map_of (map (\<lambda>x. (pair_of x, snd x)) ps) k)"

abbreviation rate_at :: "('c, u128) priced list \<Rightarrow> 'c pair \<Rightarrow> f64" where
  "rate_at ps k \<equiv> f64_of_u128 (price_at ps k) div PRECISION"

definition route_entry :: "('c, u128) priced list \<Rightarrow> 'c pair list \<Rightarrow> ('c, u128) price_path" where
  "route_entry ps route =
     \<lparr>total_cost = f64_to_u128 (foldl (\<lambda>acc k. acc * rate_at ps k) 1 route * PRECISION),
      steps = map (\<lambda>k. \<lparr>step_pair = k, step_provider = CRYPTOCOMPARE, step_cost = f64_to_u128 (rate_at ps k * PRECISION)\<rparr>) route\<rparr>"

lemma price_at_item: "one_price ps \<Longrightarrow> y \<in> set ps \<Longrightarrow> price_at ps (pair_of y) = snd y"
proof -
  assume one: "one_price ps" and y: "y \<in> set ps"
  have "pair_of y \<in> fst ` set (map (\<lambda>x. (pair_of x, snd x)) ps)" using y by (simp add: image_image)
  then have "map_of (map (\<lambda>x. (pair_of x, snd x)) ps) (pair_of y) \<noteq> None"
    unfolding map_of_eq_None_iff by blast
  then obtain v where v: "map_of (map (\<lambda>x. (pair_of x, snd x)) ps) (pair_of y) = Some v" by blast
  from map_of_SomeD [OF v] obtain x where "x \<in> set ps" "pair_of x = pair_of y" "snd x = v" by auto
  moreover from this have "snd x = snd y" using one y unfolding one_price_def by blast
  ultimately show ?thesis by (simp add: price_at_def v)
qed

lemma entry_of_route:
  assumes "one_price ps" "calc_best_paths log2 Some Some ps = Some (Inr m)"
    and "bm_get m k = Some pp" "map step_pair (steps pp) = route"
  shows "pp = route_entry ps route"
proof -
  obtain g mm i j p where e: "set g = encode Some ps ` set ps" "\<forall>e \<in> set g. e_cost e \<noteq> NaN"
    "longest_paths_mult log2 g = Some (Inr mm)" "bm_get mm (Pair i j) = Some p"
    "path_from Some ps p pp" "set (p_edges p) \<subseteq> set g"
    by (rule calc_entry [OF assms(2,3)]) blast
  obtain ys where ys: "set ys \<subseteq> set ps" "p_edges p = map (encode Some ps) ys"
    using edges_of_inputs [of "p_edges p" Some ps] e(1,6) by auto
  have route: "route = map pair_of ys" using steps_of_edges [OF e(5) ys(2,1)] assms(4) by simp
  have rate: "e_cost (encode Some ps y) = rate_at ps (pair_of y)" if "y \<in> set ps" for y
    using price_at_item [OF assms(1) that] by (simp add: encode_def)
  have cost: "p_cost p = foldl (\<lambda>acc e. acc * e_cost e) 1 (p_edges p)"
    using longest_product [OF e(2-4)] by (metis path.select_convs(1) product_path_def)
  have fold: "foldl (\<lambda>acc e. acc * e_cost e) a (map (encode Some ps) ys) = foldl (\<lambda>acc k. acc * rate_at ps k) a (map pair_of ys)" for a
    using ys(1) by (induction ys arbitrary: a) (simp_all add: rate)
  have "total_cost pp = f64_to_u128 (p_cost p * PRECISION)" using e(5) by (simp add: path_from_def)
  then have total: "total_cost pp = f64_to_u128 (foldl (\<lambda>acc k. acc * rate_at ps k) 1 route * PRECISION)"
    by (simp only: cost ys(2) fold route)
  have "list_all2 (step_from Some ps) (map (encode Some ps) ys) (steps pp)" using e(5) ys(2) by (simp add: path_from_def)
  then have "list_all2 (\<lambda>y st. step_from Some ps (encode Some ps y) st) ys (steps pp)" by (simp add: list_all2_map1)
  then have "steps pp = map (\<lambda>k. \<lparr>step_pair = k, step_provider = CRYPTOCOMPARE, step_cost = f64_to_u128 (rate_at ps k * PRECISION)\<rparr>) (map pair_of ys)"
    using ys(1)
  proof (induction rule: list_all2_induct)
    case (Cons y ys st sts)
    then have "step_pair st = pair_of y" "step_cost st = f64_to_u128 (rate_at ps (pair_of y) * PRECISION)"
      using decode_encode [of y ps Some] rate [of y] by (simp_all add: step_from_def)
    with Cons show ?case by (cases st) simp
  qed simp
  with total show ?thesis by (cases pp) (simp add: route_entry_def route)
qed

end
