(* ===== verification/Real_Prices.thy ===== *)
theory Real_Prices
  imports Routes Trade_Provider
begin

text \<open>
  The unit test of \<open>calculator.rs\<close>: real prices of five currencies, the twenty-five paths between them,
  and their totals to the last bit. A decimal literal of the test is the nearest double. The routes do
  not depend on the last bits of the logarithm: a potential for each currency shows that every other
  chain of exchanges is worse by a factor that no accurate logarithm can blur.
\<close>

section \<open>The test\<close>

definition MOCK_PROVIDER :: provider where
  "MOCK_PROVIDER = CRYPTOCOMPARE"

definition in_graph :: "(currency, u128) priced list" where
  "in_graph = map (\<lambda>(s, t, provider, cost). (ProviderPair (Pair (ascii s) (ascii t)) provider, f64_to_u128 (cost * PRECISION)))
     [
      (''BTC'', ''USDT'', MOCK_PROVIDER, rnd 5997.42),
      (''USDT'', ''BTC'', MOCK_PROVIDER, rnd 0.00002777),
      (''ETH'', ''USDT'', MOCK_PROVIDER, rnd 2384.99),
      (''USDT'', ''ETH'', MOCK_PROVIDER, rnd 0.0004192),
      (''BNB'', ''USDT'', MOCK_PROVIDER, rnd 364.19),
      (''USDT'', ''BNB'', MOCK_PROVIDER, rnd 0.002745),
      (''DOT'', ''USDT'', MOCK_PROVIDER, rnd 17.43),
      (''USDT'', ''DOT'', MOCK_PROVIDER, rnd 0.05737),
      (''BTC'', ''ETH'', MOCK_PROVIDER, rnd 15.09),
      (''ETH'', ''BTC'', MOCK_PROVIDER, rnd 0.06626),
      (''ETH'', ''BNB'', MOCK_PROVIDER, rnd 6.548),
      (''BNB'', ''ETH'', MOCK_PROVIDER, rnd 0.1527)]"

text \<open>Strings are their bytes; \<open>String::from_utf8(..).unwrap()\<close> panics on bytes that are not UTF-8.\<close>

definition readable_step ::
  "(currency, u128) path_step \<Rightarrow> (u8 list \<times> u8 list \<times> provider \<times> f64) run" where
  "readable_step st = do {
     s \<leftarrow> to_str (source (step_pair st));
     t \<leftarrow> to_str (target (step_pair st));
     Some (s, t, step_provider st, f64_of_u128 (step_cost st) div PRECISION)
   }"

definition readable ::
  "currency pair \<times> (currency, u128) price_path \<Rightarrow>
     (u8 list \<times> u8 list \<times> f64 \<times> (u8 list \<times> u8 list \<times> provider \<times> f64) list) run" where
  "readable = (\<lambda>(p, pp). do {
     s \<leftarrow> to_str (source p);
     t \<leftarrow> to_str (target p);
     ss \<leftarrow> run_map readable_step (steps pp);
     Some (s, t, f64_of_u128 (total_cost pp) div PRECISION, ss)
   })"

definition expected_paths :: "(u8 list \<times> u8 list \<times> f64 \<times> (u8 list \<times> u8 list \<times> provider \<times> f64) list) list" where
  "expected_paths = map (\<lambda>(s, t, total, ss). (ascii s, ascii t, total, map (\<lambda>(s, t, provider, cost). (ascii s, ascii t, provider, cost)) ss))
     [
      (''BNB'', ''BNB'', rnd 1, []),
      (''BNB'', ''BTC'', rnd 0.010117902, [(''BNB'', ''ETH'', MOCK_PROVIDER, rnd 0.1527),
         (''ETH'', ''BTC'', MOCK_PROVIDER, rnd 0.06626)]),
      (''BNB'', ''DOT'', rnd 20.8935803, [(''BNB'', ''USDT'', MOCK_PROVIDER, rnd 364.19),
         (''USDT'', ''DOT'', MOCK_PROVIDER, rnd 0.05737)]),
      (''BNB'', ''ETH'', rnd 0.1527, [(''BNB'', ''ETH'', MOCK_PROVIDER, rnd 0.1527)]),
      (''BNB'', ''USDT'', rnd 364.19, [(''BNB'', ''USDT'', MOCK_PROVIDER, rnd 364.19)]),
      (''BTC'', ''BNB'', rnd 98.80932, [(''BTC'', ''ETH'', MOCK_PROVIDER, rnd 15.09),
         (''ETH'', ''BNB'', MOCK_PROVIDER, rnd 6.548)]),
      (''BTC'', ''BTC'', rnd 1, []),
      (''BTC'', ''DOT'', rnd 2064.717563366999, [(''BTC'', ''ETH'', MOCK_PROVIDER, rnd 15.09),
         (''ETH'', ''USDT'', MOCK_PROVIDER, rnd 2384.99),
         (''USDT'', ''DOT'', MOCK_PROVIDER, rnd 0.05737)]),
      (''BTC'', ''ETH'', rnd 15.09, [(''BTC'', ''ETH'', MOCK_PROVIDER, rnd 15.09)]),
      (''BTC'', ''USDT'', rnd 35989.49909999999, [(''BTC'', ''ETH'', MOCK_PROVIDER, rnd 15.09),
         (''ETH'', ''USDT'', MOCK_PROVIDER, rnd 2384.99)]),
      (''DOT'', ''BNB'', rnd 0.04784535, [(''DOT'', ''USDT'', MOCK_PROVIDER, rnd 17.43),
         (''USDT'', ''BNB'', MOCK_PROVIDER, rnd 0.002745)]),
      (''DOT'', ''BTC'', rnd 0.000484139026, [(''DOT'', ''USDT'', MOCK_PROVIDER, rnd 17.43),
         (''USDT'', ''ETH'', MOCK_PROVIDER, rnd 0.0004192),
         (''ETH'', ''BTC'', MOCK_PROVIDER, rnd 0.06626)]),
      (''DOT'', ''DOT'', rnd 1, []),
      (''DOT'', ''ETH'', rnd 0.007306656, [(''DOT'', ''USDT'', MOCK_PROVIDER, rnd 17.43),
         (''USDT'', ''ETH'', MOCK_PROVIDER, rnd 0.0004192)]),
      (''DOT'', ''USDT'', rnd 17.43, [(''DOT'', ''USDT'', MOCK_PROVIDER, rnd 17.43)]),
      (''ETH'', ''BNB'', rnd 6.548, [(''ETH'', ''BNB'', MOCK_PROVIDER, rnd 6.548)]),
      (''ETH'', ''BTC'', rnd 0.06626, [(''ETH'', ''BTC'', MOCK_PROVIDER, rnd 0.06626)]),
      (''ETH'', ''DOT'', rnd 136.826876299999, [(''ETH'', ''USDT'', MOCK_PROVIDER, rnd 2384.99),
         (''USDT'', ''DOT'', MOCK_PROVIDER, rnd 0.05737)]),
      (''ETH'', ''ETH'', rnd 1, []),
      (''ETH'', ''USDT'', rnd 2384.99, [(''ETH'', ''USDT'', MOCK_PROVIDER, rnd 2384.99)]),
      (''USDT'', ''BNB'', rnd 0.002745, [(''USDT'', ''BNB'', MOCK_PROVIDER, rnd 0.002745)]),
      (''USDT'', ''BTC'', rnd 0.000027776192, [(''USDT'', ''ETH'', MOCK_PROVIDER, rnd 0.0004192),
         (''ETH'', ''BTC'', MOCK_PROVIDER, rnd 0.06626)]),
      (''USDT'', ''DOT'', rnd 0.05737, [(''USDT'', ''DOT'', MOCK_PROVIDER, rnd 0.05737)]),
      (''USDT'', ''ETH'', rnd 0.0004192, [(''USDT'', ''ETH'', MOCK_PROVIDER, rnd 0.0004192)]),
      (''USDT'', ''USDT'', rnd 1, [])]"

definition test_real_life_graph :: "(f64 \<Rightarrow> f64) \<Rightarrow> bool" where
  "test_real_life_graph log2 =
     (case calc_best_paths log2 Some Some in_graph of
        Some (Inr m) \<Rightarrow> run_map readable m = Some expected_paths
      | _ \<Rightarrow> False)"

section \<open>Evaluation of doubles\<close>

text \<open>A double with \<open>m\<close> as its 53-bit significand.\<close>

definition dyadic :: "int \<Rightarrow> nat \<Rightarrow> f64" where
  "dyadic m k = Fin (of_int m / 2 ^ k)"

lemma significand_bounds:
  assumes "2 ^ 52 < m" "m < 2 ^ 53"
  shows "2 ^ 52 + 1 \<le> real_of_int m" "real_of_int m \<le> 2 ^ 53 - 1"
proof -
  have "2 ^ 52 + 1 \<le> m" "m \<le> 2 ^ 53 - 1" using assms by linarith+
  then have "real_of_int (2 ^ 52 + 1) \<le> real_of_int m" "real_of_int m \<le> real_of_int (2 ^ 53 - 1)"
    by (simp_all only: of_int_le_iff)
  then show "2 ^ 52 + 1 \<le> real_of_int m" "real_of_int m \<le> 2 ^ 53 - 1" by simp_all
qed

text \<open>The nearest double of a number, given its significand and exponent.\<close>

lemma rnd_scaled:
  fixes x :: real
  assumes "\<bar>x * 2 ^ k / 2 ^ l - of_int m\<bar> < 1 / 2" "2 ^ 52 < m" "m < 2 ^ 53" "k \<le> 1000" "l \<le> 900"
  shows "rnd x = Fin (of_int m * 2 ^ l / 2 ^ k)"
proof -
  let ?e = "int l - int k"
  have e: "(2::real) powi ?e = 2 ^ l / 2 ^ k" by (simp add: power_int_diff)
  have y: "x / 2 powi ?e = x * 2 ^ k / 2 ^ l" unfolding e by simp
  have m: "(2 ^ 52 + 1 :: real) \<le> of_int m" "of_int m \<le> (2 ^ 53 - 1 :: real)"
    using significand_bounds [OF assms(2,3)] by simp_all
  then have b: "2 ^ 52 \<le> x / 2 powi ?e" "x / 2 powi ?e < 2 ^ 53"
    using assms(1) unfolding y abs_less_iff by linarith+
  have p: "(2::real) powi (?e + 52) = 2 ^ 52 * 2 powi ?e" "(2::real) powi (?e + 52 + 1) = 2 ^ 53 * 2 powi ?e"
    using power_int_add [of "2::real" ?e 52] power_int_add [of "2::real" ?e 53] by (simp_all add: add.assoc)
  have x: "2 powi (?e + 52) \<le> x" "x < 2 powi (?e + 52 + 1)"
    unfolding p using b by (simp_all add: pos_le_divide_eq pos_divide_less_eq)
  then have pos: "0 < x" using powi_pos [of "?e + 52"] by linarith
  have "expo \<bar>x\<bar> = ?e + 52" using expo_eqI [OF x] pos by simp
  then have "ulp_exp x = ?e" using assms(4) by (simp add: ulp_exp_def)
  moreover have "rne (x / 2 powi ?e) = m" by (rule rne_eqI) (use assms(1) y in simp)
  ultimately have r: "rnd_real x = of_int m * 2 powi ?e" using pos by (simp add: rnd_real_def)
  have "x < 2 powi 1000"
  proof -
    have "(2::real) powi (?e + 52 + 1) \<le> 2 powi 1000" unfolding powi_le_iff using assms(5) by simp
    with x(2) show ?thesis by linarith
  qed
  then have "\<bar>x\<bar> \<le> 2 ^ 1000" using pos by simp
  from rnd_Fin(1) [OF this] r e show ?thesis by simp
qed

lemma rnd_dyadic:
  assumes "\<bar>x * 2 ^ k - of_int m\<bar> < 1 / 2" "2 ^ 52 < m" "m < 2 ^ 53" "k \<le> 1000"
  shows "rnd x = dyadic m k"
  using rnd_scaled [of x k 0 m] assms by (simp add: dyadic_def)

lemma dyadic_mult:
  assumes "\<bar>of_int m * of_int n / 2 ^ (k + l) * 2 ^ q - of_int p :: real\<bar> < 1 / 2" "2 ^ 52 < p" "p < 2 ^ 53" "q \<le> 1000"
  shows "dyadic m k * dyadic n l = dyadic p q"
  using rnd_dyadic [of "of_int m * of_int n / 2 ^ (k + l)"] assms by (simp add: dyadic_def times_f64_def power_add)

lemma dyadic_scaled:
  assumes "\<bar>of_int m / 2 ^ k * 10 ^ 12 * 2 ^ q / 2 ^ l - of_int v :: real\<bar> < 1 / 2" "2 ^ 52 < v" "v < 2 ^ 53" "q \<le> 1000" "l \<le> 50"
  shows "f64_to_u128 (dyadic m k * PRECISION) = word_of_int (v * 2 ^ l div 2 ^ q)"
proof -
  let ?z = "of_int v * 2 ^ l / 2 ^ q :: real"
  have "rnd (of_int m / 2 ^ k * 10 ^ 12) = Fin ?z" using assms by (intro rnd_scaled) auto
  then have z: "dyadic m k * PRECISION = Fin ?z" by (simp add: dyadic_def PRECISION_def times_f64_def)
  have v: "0 < real_of_int v" "real_of_int v \<le> 2 ^ 53" using significand_bounds [OF assms(2,3)] by simp_all
  then have pos: "0 < ?z" by simp
  have "?z \<le> of_int v * 2 ^ l / 1" using v(1) by (intro divide_left_mono) simp_all
  also have "\<dots> = of_int v * 2 ^ l" by simp
  also have "\<dots> \<le> 2 ^ 53 * 2 ^ 50" using v(2) assms(5) by (intro mult_mono power_increasing) simp_all
  also have "\<dots> < 2 ^ 128" by simp
  finally have "\<not> 2 ^ 128 \<le> ?z" by simp
  moreover have "\<lfloor>?z\<rfloor> = v * 2 ^ l div 2 ^ q"
    using floor_divide_of_int_eq [of "v * 2 ^ l" "2 ^ q", where 'a = real] by simp
  ultimately show ?thesis using pos by (simp add: z)
qed

lemma dyadic_read:
  assumes "unat u < 2 ^ 53" "\<bar>real (unat u) / 10 ^ 12 * 2 ^ k - of_int m\<bar> < 1 / 2" "2 ^ 52 < m" "m < 2 ^ 53" "k \<le> 1000"
  shows "f64_of_u128 u div PRECISION = dyadic m k"
proof -
  have "\<bar>int (unat u)\<bar> < 2 ^ 53" using assms(1) by (metis abs_of_nat of_nat_less_iff of_nat_numeral of_nat_power)
  then have "f64_of_u128 u = Fin (real (unat u))"
    using rnd_of_int [of "int (unat u)"] unfolding f64_of_u128_def of_int_of_nat_eq by blast
  moreover have "rnd (real (unat u) / 10 ^ 12) = dyadic m k" using assms(2-) by (rule rnd_dyadic)
  ultimately show ?thesis by (simp add: PRECISION_def divide_f64_def)
qed

lemma one_dyadic: "2 ^ 52 < m \<Longrightarrow> m < 2 ^ 53 \<Longrightarrow> k \<le> 1000 \<Longrightarrow> 1 * dyadic m k = dyadic m k"
  using rnd_dyadic [of "of_int m / 2 ^ k" k m] by (simp add: dyadic_def one_f64_def times_f64_def)

section \<open>The numbers of the test\<close>

lemma literals:
  "rnd 5997.42 = dyadic 6594233026656338 40"
  "rnd 0.00002777 = dyadic 8196257326830628 68"
  "rnd 2384.99 = dyadic 5244648474258964 41"
  "rnd 0.0004192 = dyadic 7732875115699044 64"
  "rnd 364.19 = dyadic 6406898235515863 44"
  "rnd 0.002745 = dyadic 6329539060291590 61"
  "rnd 17.43 = dyadic 4906108844066734 48"
  "rnd 0.05737 = dyadic 8267888339911851 57"
  "rnd 15.09 = dyadic 8494914797127598 49"
  "rnd 0.06626 = dyadic 4774536180953105 56"
  "rnd 6.548 = dyadic 7372392590005502 50"
  "rnd 0.1527 = dyadic 5501597304795798 55"
  by (rule rnd_dyadic; simp)+

lemma expected_totals:
  "rnd 0.010117902 = dyadic 5832573398652313 59"
  "rnd 20.8935803 = dyadic 5881020028344721 48"
  "rnd 98.80932 = dyadic 6953087761448939 46"
  "rnd 2064.717563366999 = dyadic 4540361937990691 41"
  "rnd 35989.49909999999 = dyadic 4946359092285485 37"
  "rnd 0.04784535 = dyadic 6895241613805151 57"
  "rnd 0.000484139026 = dyadic 8930788708717015 64"
  "rnd 0.007306656 = dyadic 8424000829164646 60"
  "rnd 136.826876299999 = dyadic 4814167727491753 45"
  "rnd 0.000027776192 = dyadic 8198084882659499 68"
  by (rule rnd_dyadic; simp)+

lemma products:
  "dyadic 5501597304795798 55 * dyadic 4774536180953105 56 = dyadic 5832573398652313 59"
  "dyadic 6406898235515863 44 * dyadic 8267888339911851 57 = dyadic 5881020028344721 48"
  "dyadic 8494914797127598 49 * dyadic 7372392590005502 50 = dyadic 6953087761448939 46"
  "dyadic 8494914797127598 49 * dyadic 5244648474258964 41 = dyadic 4946359092285485 37"
  "dyadic 4946359092285485 37 * dyadic 8267888339911851 57 = dyadic 4540361937990692 41"
  "dyadic 4906108844066734 48 * dyadic 6329539060291590 61 = dyadic 6895241613805151 57"
  "dyadic 4906108844066734 48 * dyadic 7732875115699044 64 = dyadic 8424000829164646 60"
  "dyadic 8424000829164646 60 * dyadic 4774536180953105 56 = dyadic 8930788719047191 64"
  "dyadic 5244648474258964 41 * dyadic 8267888339911851 57 = dyadic 4814167727491788 45"
  "dyadic 7732875115699044 64 * dyadic 4774536180953105 56 = dyadic 8198084882659498 68"
  by (rule dyadic_mult; simp)+

lemma scaled:
  "f64_to_u128 (dyadic 6594233026656338 40 * PRECISION) = 5997420000000000"
  "f64_to_u128 (dyadic 8196257326830628 68 * PRECISION) = 27770000"
  "f64_to_u128 (dyadic 5244648474258964 41 * PRECISION) = 2384990000000000"
  "f64_to_u128 (dyadic 7732875115699044 64 * PRECISION) = 419200000"
  "f64_to_u128 (dyadic 6406898235515863 44 * PRECISION) = 364190000000000"
  "f64_to_u128 (dyadic 6329539060291590 61 * PRECISION) = 2745000000"
  "f64_to_u128 (dyadic 4906108844066734 48 * PRECISION) = 17430000000000"
  "f64_to_u128 (dyadic 8267888339911851 57 * PRECISION) = 57370000000"
  "f64_to_u128 (dyadic 8494914797127598 49 * PRECISION) = 15090000000000"
  "f64_to_u128 (dyadic 4774536180953105 56 * PRECISION) = 66260000000"
  "f64_to_u128 (dyadic 7372392590005502 50 * PRECISION) = 6548000000000"
  "f64_to_u128 (dyadic 5501597304795798 55 * PRECISION) = 152700000000"
  "f64_to_u128 (dyadic 5832573398652313 59 * PRECISION) = 10117902000"
  "f64_to_u128 (dyadic 5881020028344721 48 * PRECISION) = 20893580300000"
  "f64_to_u128 (dyadic 6953087761448939 46 * PRECISION) = 98809320000000"
  "f64_to_u128 (dyadic 4540361937990692 41 * PRECISION) = 2064717563366999"
  "f64_to_u128 (dyadic 6895241613805151 57 * PRECISION) = 47845350000"
  "f64_to_u128 (dyadic 8930788719047191 64 * PRECISION) = 484139026"
  "f64_to_u128 (dyadic 8424000829164646 60 * PRECISION) = 7306656000"
  "f64_to_u128 (dyadic 4814167727491788 45 * PRECISION) = 136826876299999"
  "f64_to_u128 (dyadic 8198084882659498 68 * PRECISION) = 27776192"
  "f64_to_u128 (dyadic 4946359092285485 37 * PRECISION) = 35989499099999992"
  using
    dyadic_scaled [of 6594233026656338 40 0 0 5997420000000000]
    dyadic_scaled [of 8196257326830628 68 28 0 7454452613120000]
    dyadic_scaled [of 5244648474258964 41 1 0 4769980000000000]
    dyadic_scaled [of 7732875115699044 64 24 0 7033008947200000]
    dyadic_scaled [of 6406898235515863 44 4 0 5827040000000000]
    dyadic_scaled [of 6329539060291590 61 21 0 5756682240000000]
    dyadic_scaled [of 4906108844066734 48 9 0 8924160000000000]
    dyadic_scaled [of 8267888339911851 57 17 0 7519600640000000]
    dyadic_scaled [of 8494914797127598 49 9 0 7726080000000000]
    dyadic_scaled [of 4774536180953105 56 17 0 8684830720000000]
    dyadic_scaled [of 7372392590005502 50 10 0 6705152000000000]
    dyadic_scaled [of 5501597304795798 55 15 0 5003673600000000]
    dyadic_scaled [of 5832573398652313 59 19 0 5304694603776000]
    dyadic_scaled [of 5881020028344721 48 8 0 5348756556800000]
    dyadic_scaled [of 6953087761448939 46 6 0 6323796480000000]
    dyadic_scaled [of 4540361937990692 41 2 0 8258870253467998]
    dyadic_scaled [of 6895241613805151 57 17 0 6271185715200000]
    dyadic_scaled [of 8930788719047191 64 24 0 8122505022626857]
    dyadic_scaled [of 8424000829164646 60 20 0 7661584121856000]
    dyadic_scaled [of 4814167727491788 45 6 0 8756920083199999]
    dyadic_scaled [of 8198084882659498 68 28 0 7456114765463552]
    dyadic_scaled [of 4946359092285485 37 0 2 8997374774999998]
  by simp_all

lemma quotients:
  "f64_of_u128 5997420000000000 div PRECISION = dyadic 6594233026656338 40"
  "f64_of_u128 27770000 div PRECISION = dyadic 8196257326830628 68"
  "f64_of_u128 2384990000000000 div PRECISION = dyadic 5244648474258964 41"
  "f64_of_u128 419200000 div PRECISION = dyadic 7732875115699044 64"
  "f64_of_u128 364190000000000 div PRECISION = dyadic 6406898235515863 44"
  "f64_of_u128 2745000000 div PRECISION = dyadic 6329539060291590 61"
  "f64_of_u128 17430000000000 div PRECISION = dyadic 4906108844066734 48"
  "f64_of_u128 57370000000 div PRECISION = dyadic 8267888339911851 57"
  "f64_of_u128 15090000000000 div PRECISION = dyadic 8494914797127598 49"
  "f64_of_u128 66260000000 div PRECISION = dyadic 4774536180953105 56"
  "f64_of_u128 6548000000000 div PRECISION = dyadic 7372392590005502 50"
  "f64_of_u128 152700000000 div PRECISION = dyadic 5501597304795798 55"
  "f64_of_u128 10117902000 div PRECISION = dyadic 5832573398652313 59"
  "f64_of_u128 20893580300000 div PRECISION = dyadic 5881020028344721 48"
  "f64_of_u128 98809320000000 div PRECISION = dyadic 6953087761448939 46"
  "f64_of_u128 2064717563366999 div PRECISION = dyadic 4540361937990691 41"
  "f64_of_u128 47845350000 div PRECISION = dyadic 6895241613805151 57"
  "f64_of_u128 484139026 div PRECISION = dyadic 8930788708717015 64"
  "f64_of_u128 7306656000 div PRECISION = dyadic 8424000829164646 60"
  "f64_of_u128 136826876299999 div PRECISION = dyadic 4814167727491753 45"
  "f64_of_u128 27776192 div PRECISION = dyadic 8198084882659499 68"
  by (rule dyadic_read; simp)+

text \<open>The one total above \<open>2 ^ 53\<close> is a multiple of four; and the total of the empty path.\<close>

lemma large_quotient: "f64_of_u128 35989499099999992 div PRECISION = dyadic 4946359092285485 37"
proof -
  have "rnd 35989499099999992 = Fin 35989499099999992"
    using rnd_scaled [of 35989499099999992 0 2 8997374774999998] by simp
  moreover have "rnd (35989499099999992 / 10 ^ 12) = dyadic 4946359092285485 37" by (rule rnd_dyadic) simp_all
  ultimately show ?thesis by (simp add: f64_of_u128_def PRECISION_def divide_f64_def)
qed

lemma unit_total: "f64_to_u128 (1 * PRECISION) = 1000000000000" "f64_of_u128 1000000000000 div PRECISION = rnd 1"
  using rnd_of_int [of 1000000000000] rnd_of_int [of 1]
  by (simp_all add: f64_of_u128_def PRECISION_def f64_ops)

section \<open>The currencies and the prices\<close>

definition bnb :: currency where "bnb = ascii ''BNB''"
definition btc :: currency where "btc = ascii ''BTC''"
definition dot :: currency where "dot = ascii ''DOT''"
definition eth :: currency where "eth = ascii ''ETH''"
definition usdt :: currency where "usdt = ascii ''USDT''"

lemmas currency_defs = bnb_def btc_def dot_def eth_def usdt_def

lemma currencies_differ [simp]:
  "bnb \<noteq> btc" "bnb \<noteq> dot" "bnb \<noteq> eth" "bnb \<noteq> usdt"
  "btc \<noteq> bnb" "btc \<noteq> dot" "btc \<noteq> eth" "btc \<noteq> usdt"
  "dot \<noteq> bnb" "dot \<noteq> btc" "dot \<noteq> eth" "dot \<noteq> usdt"
  "eth \<noteq> bnb" "eth \<noteq> btc" "eth \<noteq> dot" "eth \<noteq> usdt"
  "usdt \<noteq> bnb" "usdt \<noteq> btc" "usdt \<noteq> dot" "usdt \<noteq> eth"
  by (simp_all add: currency_defs ascii_def)

lemma currencies_ordered:
  "bnb < btc" "bnb < dot" "bnb < eth" "bnb < usdt"
  "btc < dot" "btc < eth" "btc < usdt"
  "dot < eth" "dot < usdt"
  "eth < usdt"
  by (simp_all add: currency_defs ascii_def)

lemmas currencies_sorted = currencies_ordered currencies_ordered [THEN order_less_imp_le]
  currencies_ordered [THEN order_less_imp_le, THEN leD] currencies_ordered [unfolded less_le_not_le, THEN conjunct2]

lemma currencies_readable: "to_str bnb = Some bnb" "to_str btc = Some btc" "to_str dot = Some dot" "to_str eth = Some eth" "to_str usdt = Some usdt"
  by (simp_all add: currency_defs ascii_def to_str_def)

lemma in_graph_eq:
  "in_graph =
     [
      (ProviderPair (Pair btc usdt) CRYPTOCOMPARE, 5997420000000000),
      (ProviderPair (Pair usdt btc) CRYPTOCOMPARE, 27770000),
      (ProviderPair (Pair eth usdt) CRYPTOCOMPARE, 2384990000000000),
      (ProviderPair (Pair usdt eth) CRYPTOCOMPARE, 419200000),
      (ProviderPair (Pair bnb usdt) CRYPTOCOMPARE, 364190000000000),
      (ProviderPair (Pair usdt bnb) CRYPTOCOMPARE, 2745000000),
      (ProviderPair (Pair dot usdt) CRYPTOCOMPARE, 17430000000000),
      (ProviderPair (Pair usdt dot) CRYPTOCOMPARE, 57370000000),
      (ProviderPair (Pair btc eth) CRYPTOCOMPARE, 15090000000000),
      (ProviderPair (Pair eth btc) CRYPTOCOMPARE, 66260000000),
      (ProviderPair (Pair eth bnb) CRYPTOCOMPARE, 6548000000000),
      (ProviderPair (Pair bnb eth) CRYPTOCOMPARE, 152700000000)]"
  by (simp add: in_graph_def currency_defs MOCK_PROVIDER_def literals [simplified] scaled)

lemma in_graph_ok:
  "currencies_of in_graph = [bnb, btc, dot, eth, usdt]" "\<forall>x \<in> set in_graph. snd x \<noteq> 0" "one_price in_graph"
  "length (currencies_of in_graph) \<le> 8"
proof -
  show c: "currencies_of in_graph = [bnb, btc, dot, eth, usdt]"
    unfolding in_graph_eq by (simp add: currencies_of_def bs_collect_def insort_insert_key_def currencies_sorted)
  then show "length (currencies_of in_graph) \<le> 8" by simp
  show "\<forall>x \<in> set in_graph. snd x \<noteq> 0" unfolding in_graph_eq by simp
  show "one_price in_graph" unfolding in_graph_eq one_price_def by simp
qed

lemma real_pairs: "pair_of ` set in_graph =
   {Pair btc usdt, Pair usdt btc, Pair eth usdt, Pair usdt eth, Pair bnb usdt, Pair usdt bnb, Pair dot usdt,
   Pair usdt dot, Pair btc eth, Pair eth btc, Pair eth bnb, Pair bnb eth}"
  unfolding in_graph_eq by simp

lemmas real_prices = in_graph_eq price_of_def

lemma losing: "potential in_graph {} (1 - 1 / 10 ^ 5)
    (\<lambda>c. if c = bnb then 364.20138 else if c = btc then 35990.824 else if c = dot then 17.43032 else if c = eth then 2385.0339 else 1)"
  by (simp add: potential_def real_prices)

section \<open>Towards each currency\<close>

lemma towards_bnb:
  "potential in_graph {Pair btc eth, Pair dot usdt, Pair eth bnb, Pair usdt bnb} (1 - 1 / 10 ^ 6)
     (\<lambda>c. if c = btc then 98.80932 else if c = dot then 0.04784535 else if c = eth then 6.548 else if c = usdt then 0.002745 else 1)"
  by (simp add: potential_def real_prices)

lemma towards_btc:
  "potential in_graph {Pair bnb eth, Pair dot usdt, Pair eth btc, Pair usdt eth} (1 - 1 / 10 ^ 6)
     (\<lambda>c. if c = bnb then 0.010117902 else if c = dot then 0.00048413902656 else if c = eth then 0.06626 else if c = usdt then 0.000027776192 else 1)"
  by (simp add: potential_def real_prices)

lemma towards_dot:
  "potential in_graph {Pair bnb usdt, Pair btc eth, Pair eth usdt, Pair usdt dot} (1 - 1 / 10 ^ 6)
     (\<lambda>c. if c = bnb then 20.8935803 else if c = btc then 2064.717563367 else if c = eth then 136.8268763 else if c = usdt then 0.05737 else 1)"
  by (simp add: potential_def real_prices)

lemma towards_eth:
  "potential in_graph {Pair bnb eth, Pair btc eth, Pair dot usdt, Pair usdt eth} (1 - 1 / 10 ^ 6)
     (\<lambda>c. if c = bnb then 0.1527 else if c = btc then 15.09 else if c = dot then 0.007306656 else if c = usdt then 0.0004192 else 1)"
  by (simp add: potential_def real_prices)

lemma towards_usdt:
  "potential in_graph {Pair bnb usdt, Pair btc eth, Pair dot usdt, Pair eth usdt} (1 - 1 / 10 ^ 6)
     (\<lambda>c. if c = bnb then 364.19 else if c = btc then 35989.4991 else if c = dot then 17.43 else if c = eth then 2384.99 else 1)"
  by (simp add: potential_def real_prices)

section \<open>The stored paths\<close>

lemma stored_bnb:
  assumes "accurate_log2 log2 \<delta>" "\<delta> \<le> 1 / 2 ^ 40" "calc_best_paths log2 Some Some in_graph = Some (Inr m)"
  shows "\<exists>pp. bm_get m (Pair btc bnb) = Some pp \<and> map step_pair (steps pp) = [Pair btc eth, Pair eth bnb]"
    "\<exists>pp. bm_get m (Pair dot bnb) = Some pp \<and> map step_pair (steps pp) = [Pair dot usdt, Pair usdt bnb]"
    "\<exists>pp. bm_get m (Pair eth bnb) = Some pp \<and> map step_pair (steps pp) = [Pair eth bnb]"
    "\<exists>pp. bm_get m (Pair usdt bnb) = Some pp \<and> map step_pair (steps pp) = [Pair usdt bnb]"
  using tree_route [OF assms(1,2) in_graph_ok(4,2,3) assms(3) towards_bnb order_refl, of bnb]
  by (simp_all add: real_pairs)

lemma stored_btc:
  assumes "accurate_log2 log2 \<delta>" "\<delta> \<le> 1 / 2 ^ 40" "calc_best_paths log2 Some Some in_graph = Some (Inr m)"
  shows "\<exists>pp. bm_get m (Pair bnb btc) = Some pp \<and> map step_pair (steps pp) = [Pair bnb eth, Pair eth btc]"
    "\<exists>pp. bm_get m (Pair dot btc) = Some pp \<and> map step_pair (steps pp) = [Pair dot usdt, Pair usdt eth, Pair eth btc]"
    "\<exists>pp. bm_get m (Pair eth btc) = Some pp \<and> map step_pair (steps pp) = [Pair eth btc]"
    "\<exists>pp. bm_get m (Pair usdt btc) = Some pp \<and> map step_pair (steps pp) = [Pair usdt eth, Pair eth btc]"
  using tree_route [OF assms(1,2) in_graph_ok(4,2,3) assms(3) towards_btc order_refl, of btc]
  by (simp_all add: real_pairs)

lemma stored_dot:
  assumes "accurate_log2 log2 \<delta>" "\<delta> \<le> 1 / 2 ^ 40" "calc_best_paths log2 Some Some in_graph = Some (Inr m)"
  shows "\<exists>pp. bm_get m (Pair bnb dot) = Some pp \<and> map step_pair (steps pp) = [Pair bnb usdt, Pair usdt dot]"
    "\<exists>pp. bm_get m (Pair btc dot) = Some pp \<and> map step_pair (steps pp) = [Pair btc eth, Pair eth usdt, Pair usdt dot]"
    "\<exists>pp. bm_get m (Pair eth dot) = Some pp \<and> map step_pair (steps pp) = [Pair eth usdt, Pair usdt dot]"
    "\<exists>pp. bm_get m (Pair usdt dot) = Some pp \<and> map step_pair (steps pp) = [Pair usdt dot]"
  using tree_route [OF assms(1,2) in_graph_ok(4,2,3) assms(3) towards_dot order_refl, of dot]
  by (simp_all add: real_pairs)

lemma stored_eth:
  assumes "accurate_log2 log2 \<delta>" "\<delta> \<le> 1 / 2 ^ 40" "calc_best_paths log2 Some Some in_graph = Some (Inr m)"
  shows "\<exists>pp. bm_get m (Pair bnb eth) = Some pp \<and> map step_pair (steps pp) = [Pair bnb eth]"
    "\<exists>pp. bm_get m (Pair btc eth) = Some pp \<and> map step_pair (steps pp) = [Pair btc eth]"
    "\<exists>pp. bm_get m (Pair dot eth) = Some pp \<and> map step_pair (steps pp) = [Pair dot usdt, Pair usdt eth]"
    "\<exists>pp. bm_get m (Pair usdt eth) = Some pp \<and> map step_pair (steps pp) = [Pair usdt eth]"
  using tree_route [OF assms(1,2) in_graph_ok(4,2,3) assms(3) towards_eth order_refl, of eth]
  by (simp_all add: real_pairs)

lemma stored_usdt:
  assumes "accurate_log2 log2 \<delta>" "\<delta> \<le> 1 / 2 ^ 40" "calc_best_paths log2 Some Some in_graph = Some (Inr m)"
  shows "\<exists>pp. bm_get m (Pair bnb usdt) = Some pp \<and> map step_pair (steps pp) = [Pair bnb usdt]"
    "\<exists>pp. bm_get m (Pair btc usdt) = Some pp \<and> map step_pair (steps pp) = [Pair btc eth, Pair eth usdt]"
    "\<exists>pp. bm_get m (Pair dot usdt) = Some pp \<and> map step_pair (steps pp) = [Pair dot usdt]"
    "\<exists>pp. bm_get m (Pair eth usdt) = Some pp \<and> map step_pair (steps pp) = [Pair eth usdt]"
  using tree_route [OF assms(1,2) in_graph_ok(4,2,3) assms(3) towards_usdt order_refl, of usdt]
  by (simp_all add: real_pairs)

definition real_routes :: "(currency pair \<times> currency pair list) list" where
  "real_routes =
     [
      (Pair bnb bnb, []),
      (Pair bnb btc, [Pair bnb eth, Pair eth btc]),
      (Pair bnb dot, [Pair bnb usdt, Pair usdt dot]),
      (Pair bnb eth, [Pair bnb eth]),
      (Pair bnb usdt, [Pair bnb usdt]),
      (Pair btc bnb, [Pair btc eth, Pair eth bnb]),
      (Pair btc btc, []),
      (Pair btc dot, [Pair btc eth, Pair eth usdt, Pair usdt dot]),
      (Pair btc eth, [Pair btc eth]),
      (Pair btc usdt, [Pair btc eth, Pair eth usdt]),
      (Pair dot bnb, [Pair dot usdt, Pair usdt bnb]),
      (Pair dot btc, [Pair dot usdt, Pair usdt eth, Pair eth btc]),
      (Pair dot dot, []),
      (Pair dot eth, [Pair dot usdt, Pair usdt eth]),
      (Pair dot usdt, [Pair dot usdt]),
      (Pair eth bnb, [Pair eth bnb]),
      (Pair eth btc, [Pair eth btc]),
      (Pair eth dot, [Pair eth usdt, Pair usdt dot]),
      (Pair eth eth, []),
      (Pair eth usdt, [Pair eth usdt]),
      (Pair usdt bnb, [Pair usdt bnb]),
      (Pair usdt btc, [Pair usdt eth, Pair eth btc]),
      (Pair usdt dot, [Pair usdt dot]),
      (Pair usdt eth, [Pair usdt eth]),
      (Pair usdt usdt, [])]"

lemma price_at_real:
  "price_at in_graph (Pair btc usdt) = 5997420000000000"
  "price_at in_graph (Pair usdt btc) = 27770000"
  "price_at in_graph (Pair eth usdt) = 2384990000000000"
  "price_at in_graph (Pair usdt eth) = 419200000"
  "price_at in_graph (Pair bnb usdt) = 364190000000000"
  "price_at in_graph (Pair usdt bnb) = 2745000000"
  "price_at in_graph (Pair dot usdt) = 17430000000000"
  "price_at in_graph (Pair usdt dot) = 57370000000"
  "price_at in_graph (Pair btc eth) = 15090000000000"
  "price_at in_graph (Pair eth btc) = 66260000000"
  "price_at in_graph (Pair eth bnb) = 6548000000000"
  "price_at in_graph (Pair bnb eth) = 152700000000"
  by (simp_all add: price_at_def in_graph_eq)

lemma stored_real_routes:
  assumes "accurate_log2 log2 \<delta>" "\<delta> \<le> 1 / 2 ^ 40" and m: "calc_best_paths log2 Some Some in_graph = Some (Inr m)"
  shows "\<forall>(k, route) \<in> set real_routes. bm_get m k = Some (route_entry in_graph route)"
proof -
  have self: "\<exists>pp. bm_get m (Pair c c) = Some pp \<and> map step_pair (steps pp) = []"
    if "c \<in> set (currencies_of in_graph)" for c
  proof -
    have "Pair c c \<notin> pair_of ` set in_graph" unfolding real_pairs by auto
    from calc_best_paths_identity [OF m that this] show ?thesis by auto
  qed
  have "\<exists>pp. bm_get m (Pair c c) = Some pp \<and> map step_pair (steps pp) = []" if "c \<in> {bnb, btc, dot, eth, usdt}" for c
    using that self in_graph_ok(1) by simp
  note stored = this [of bnb, simplified] this [of btc, simplified] this [of dot, simplified] this [of eth, simplified]
    this [of usdt, simplified] stored_bnb [OF assms] stored_btc [OF assms] stored_dot [OF assms]
    stored_eth [OF assms] stored_usdt [OF assms]
  have "\<forall>e \<in> set real_routes. \<exists>pp. bm_get m (fst e) = Some pp \<and> map step_pair (steps pp) = snd e"
    unfolding real_routes_def list.set ball_simps fst_conv snd_conv
    by (intro conjI) (use stored in \<open>simp_all\<close>)
  then show ?thesis using entry_of_route [OF in_graph_ok(3) m] by fastforce
qed

lemma real_keys:
  "map fst real_routes = concat (map (\<lambda>c. map (Pair c) (currencies_of in_graph)) (currencies_of in_graph))"
  by (simp add: real_routes_def in_graph_ok(1))

lemma pairs_of_list: "k \<in> set (concat (map (\<lambda>c. map (Pair c) cs) cs)) \<longleftrightarrow> source k \<in> set cs \<and> target k \<in> set cs"
  by (cases k) auto

lemma real_life_paths:
  assumes "accurate_log2 log2 \<delta>" "\<delta> \<le> 1 / 2 ^ 40"
  shows "calc_best_paths log2 Some Some in_graph =
     Some (Inr (map (\<lambda>(k, route). (k, route_entry in_graph route)) real_routes))"
proof -
  have "length (currencies_of in_graph) \<le> 5" by (simp add: in_graph_ok(1))
  from losing_prices [OF assms this in_graph_ok(2,3) losing] obtain m where
    m: "calc_best_paths log2 Some Some in_graph = Some (Inr m)" by auto
  let ?kvs = "map (\<lambda>(k, route). (k, route_entry in_graph route)) real_routes"
  have "m = ?kvs"
  proof (rule bm_eqI)
    show "bm_wf m" by (rule fw.wf [OF m])
    have keys: "map fst ?kvs = map fst real_routes" by (simp add: comp_def case_prod_beta)
    show "sorted_wrt (<) (map fst ?kvs)"
      unfolding keys real_keys in_graph_ok(1) by (simp add: less_pair_def currencies_sorted)
    show "fst ` set m \<subseteq> fst ` set ?kvs"
    proof
      fix k
      assume "k \<in> fst ` set m"
      then obtain pp where "(k, pp) \<in> set m" by force
      from fw.entries(1,2) [OF m this] have "k \<in> set (map fst ?kvs)"
        unfolding keys real_keys pairs_of_list by blast
      then show "k \<in> fst ` set ?kvs" by (simp only: set_map)
    qed
    show "\<forall>(k, v) \<in> set ?kvs. bm_get m k = Some v" using stored_real_routes [OF assms m] by auto
  qed
  with m show ?thesis by simp
qed

lemma test_real_life_graph:
  assumes "accurate_log2 log2 \<delta>" "\<delta> \<le> 1 / 2 ^ 40"
  shows "test_real_life_graph log2"
  unfolding test_real_life_graph_def real_life_paths [OF assms] expected_paths_def
  by (simp add: real_routes_def route_entry_def price_at_real quotients large_quotient unit_total scaled products
      one_dyadic literals [simplified] expected_totals [simplified] readable_def readable_step_def
      currencies_readable MOCK_PROVIDER_def currency_defs [symmetric])

section \<open>The quoted prices\<close>

text \<open>The comment of the test quotes other prices than the test uses. They allow arbitrage (a round trip from
  ETH to USDT and back gains more than two parts in ten thousand), so the calculator refuses them.\<close>

definition quoted_graph :: "(currency, u128) priced list" where
  "quoted_graph =
     [
      (ProviderPair (Pair btc usdt) CRYPTOCOMPARE, 35997420000000000),
      (ProviderPair (Pair usdt btc) CRYPTOCOMPARE, 27780000),
      (ProviderPair (Pair eth usdt) CRYPTOCOMPARE, 2384990000000000),
      (ProviderPair (Pair usdt eth) CRYPTOCOMPARE, 419400000),
      (ProviderPair (Pair bnb usdt) CRYPTOCOMPARE, 364190000000000),
      (ProviderPair (Pair usdt bnb) CRYPTOCOMPARE, 2746000000),
      (ProviderPair (Pair dot usdt) CRYPTOCOMPARE, 17430000000000),
      (ProviderPair (Pair usdt dot) CRYPTOCOMPARE, 57370000000),
      (ProviderPair (Pair btc eth) CRYPTOCOMPARE, 15090000000000),
      (ProviderPair (Pair eth btc) CRYPTOCOMPARE, 66270000000),
      (ProviderPair (Pair eth bnb) CRYPTOCOMPARE, 6548000000000),
      (ProviderPair (Pair bnb eth) CRYPTOCOMPARE, 152700000000)]"

lemma quoted_prices_arbitrage:
  assumes "accurate_log2 log2 \<delta>" "\<delta> \<le> 1 / 2 ^ 40"
  shows "calc_best_paths log2 Some Some quoted_graph = Some (Inl NegativeCyclesError)"
proof -
  let ?xs = "[quoted_graph ! 2, quoted_graph ! 3]"
  have c: "currencies_of quoted_graph = [bnb, btc, dot, eth, usdt]"
    by (simp add: quoted_graph_def currencies_of_def bs_collect_def insort_insert_key_def currencies_sorted)
  have ok: "length (currencies_of quoted_graph) \<le> 320" "\<forall>x \<in> set quoted_graph. snd x \<noteq> 0" "one_price quoted_graph"
    unfolding c by (simp_all add: quoted_graph_def one_price_def)
  have xs: "set ?xs \<subseteq> set quoted_graph" "?xs \<noteq> []" "chain eth (map pair_of ?xs) eth" "length ?xs = 2"
    by (simp_all add: quoted_graph_def)
  have gain: "price_product ?xs = 1000264806 / 10 ^ 9" by (simp add: quoted_graph_def price_product_def price_of_def)
  have log: "1 / 5000 < log 2 (1000264806 / 10 ^ 9 :: real)"
  proof -
    have "ln (10 ^ 9 / 1000264806 :: real) \<le> 10 ^ 9 / 1000264806 - 1" by (intro ln_le_minus_one) simp
    then have "1 / 5000 < ln (1000264806 / 10 ^ 9 :: real)" by (simp add: ln_div)
    moreover have "ln (2::real) \<le> 1" "0 < ln (2::real)" using ln_le_minus_one [of 2] by simp_all
    then have "1 / 5000 * ln 2 \<le> (1 / 5000 :: real)" by simp
    ultimately show ?thesis using \<open>0 < ln 2\<close> by (simp add: log_def pos_less_divide_eq)
  qed
  have "price_error \<delta> 2 \<le> 1 / 10 ^ 8" by (rule price_error_small [OF assms(2)]) simp
  also have "\<dots> \<le> 1 / 5000" by simp
  also note log
  finally have "price_error \<delta> 2 < log 2 (1000264806 / 10 ^ 9)" .
  then have "price_error \<delta> (length ?xs) < log 2 (price_product ?xs)" by (simp only: gain xs(4))
  with conjunct1 [OF calc_near_arbitrage [OF assms(1) ok, of ?xs eth]] xs(1-3) show ?thesis by blast
qed

end
