(* ===== verification/Unit_Tests.thy ===== *)
theory Unit_Tests
  imports Ocw_Runs Template_Pallet Real_Prices
begin

text \<open>
  The repository's own unit tests, run on the model: the test modules of \<open>algo.rs\<close> and \<open>utils.rs\<close>,
  \<open>trade_provider/crypto_compare_tests.rs\<close>, \<open>tests.rs\<close> over the mock runtime of \<open>mock.rs\<close>, and the
  tests of the template pallet. Each
  test is a Boolean definition that follows its assertions, and a lemma that it holds. All costs
  in the tests are finite, where Rust's equality of floats and of edges is equality.
\<close>

section \<open>Evaluation with integer costs\<close>

lemma Fin_add_Ints:
  assumes "x \<in> \<int>" "y \<in> \<int>" "\<bar>x + y\<bar> < 2 ^ 53"
  shows "Fin x + Fin y = Fin (x + y)"
proof -
  from assms(1,2) obtain i j where i: "x = of_int i" "y = of_int j" by (auto elim!: Ints_cases)
  with assms(3) have "real_of_int \<bar>i + j\<bar> < of_int (2 ^ 53)" by simp
  then have "\<bar>i + j\<bar> < 2 ^ 53" by (simp only: of_int_less_iff)
  with i Fin_add_of_int show ?thesis by simp
qed

lemma Fin_add_zero: "x \<in> \<int> \<Longrightarrow> \<bar>x\<bar> < 2 ^ 53 \<Longrightarrow> Fin x + 0 = Fin x" "x \<in> \<int> \<Longrightarrow> \<bar>x\<bar> < 2 ^ 53 \<Longrightarrow> 0 + Fin x = Fin x"
  using Fin_add_Ints [of x 0] Fin_add_Ints [of 0 x] by (simp_all add: zero_f64_def)

lemma f64_MAX_absorbs_left: "\<bar>r\<bar> \<le> 2 ^ 969 \<Longrightarrow> Fin r + f64_MAX = f64_MAX"
  using f64_MAX_absorbs [of r] by (simp add: f64_add_commute)

lemmas int_costs_eval = graph_eval Fin_add_Ints Fin_add_zero f64_MAX_absorbs f64_MAX_absorbs_left Ints_minus

section \<open>\<open>algo.rs\<close>\<close>

definition test_unique_edges :: bool where
  "test_unique_edges =
     (case unique_cheapest_edges
        [\<lparr>e_pair = Pair 1 2, e_provider = 3, e_cost = Fin 1\<rparr>,
         \<lparr>e_pair = Pair 1 2, e_provider = 33, e_cost = Fin 10\<rparr>,
         \<lparr>e_pair = Pair 1 2, e_provider = 333, e_cost = Fin 5\<rparr>] Less of
      Some es \<Rightarrow> length es = 1 \<and> e_cost (hd es) = Fin 10 | None \<Rightarrow> False)"

lemma test_unique_edges: test_unique_edges
  by (simp add: test_unique_edges_def graph_eval)

definition simple_edges :: "edge list" where
  "simple_edges =
     [\<lparr>e_pair = Pair 0 1, e_provider = 1, e_cost = Fin 2\<rparr>,
      \<lparr>e_pair = Pair 1 0, e_provider = 1, e_cost = Fin (1 / 2)\<rparr>,
      \<lparr>e_pair = Pair 1 2, e_provider = 1, e_cost = Fin 4\<rparr>,
      \<lparr>e_pair = Pair 2 1, e_provider = 1, e_cost = Fin (1 / 4)\<rparr>]"

definition test_simple :: "(f64 \<Rightarrow> f64) \<Rightarrow> bool" where
  "test_simple log2 =
     (longest_paths_mult log2 simple_edges = Some (Inr
       [(Pair 0 0, \<lparr>p_cost = Fin 1, p_edges = []\<rparr>),
        (Pair 0 1, \<lparr>p_cost = Fin 2, p_edges = [\<lparr>e_pair = Pair 0 1, e_provider = 1, e_cost = Fin 2\<rparr>]\<rparr>),
        (Pair 0 2, \<lparr>p_cost = Fin 8, p_edges = [\<lparr>e_pair = Pair 0 1, e_provider = 1, e_cost = Fin 2\<rparr>,
           \<lparr>e_pair = Pair 1 2, e_provider = 1, e_cost = Fin 4\<rparr>]\<rparr>),
        (Pair 1 0, \<lparr>p_cost = Fin (1 / 2), p_edges = [\<lparr>e_pair = Pair 1 0, e_provider = 1, e_cost = Fin (1 / 2)\<rparr>]\<rparr>),
        (Pair 1 1, \<lparr>p_cost = Fin 1, p_edges = []\<rparr>),
        (Pair 1 2, \<lparr>p_cost = Fin 4, p_edges = [\<lparr>e_pair = Pair 1 2, e_provider = 1, e_cost = Fin 4\<rparr>]\<rparr>),
        (Pair 2 0, \<lparr>p_cost = Fin (1 / 8), p_edges = [\<lparr>e_pair = Pair 2 1, e_provider = 1, e_cost = Fin (1 / 4)\<rparr>,
           \<lparr>e_pair = Pair 1 0, e_provider = 1, e_cost = Fin (1 / 2)\<rparr>]\<rparr>),
        (Pair 2 1, \<lparr>p_cost = Fin (1 / 4), p_edges = [\<lparr>e_pair = Pair 2 1, e_provider = 1, e_cost = Fin (1 / 4)\<rparr>]\<rparr>),
        (Pair 2 2, \<lparr>p_cost = Fin 1, p_edges = []\<rparr>)]))"

text \<open>Products of powers of two are exact; \<open>log2\<close> has to be on them.\<close>

lemma Fin_mult_pow2:
  "Fin (2 ^ k) * Fin (2 ^ l) = Fin (2 ^ (k + l))" if "k + l < 1024"
  using that rnd_Fin(1) [of "2 ^ (k + l)" "k + l"] rnd_real_pow2 [of "k + l"] by (simp add: times_f64_def power_add)

lemma Fin_mult_simple:
  "Fin 1 * Fin 2 = Fin 2" "Fin 1 * Fin 4 = Fin 4" "Fin 2 * Fin 4 = Fin 8"
  using Fin_mult_pow2 [of 0 1] Fin_mult_pow2 [of 0 2] Fin_mult_pow2 [of 1 2] by simp_all

lemma rnd_powi: "- 1074 \<le> k \<Longrightarrow> k \<le> 0 \<Longrightarrow> rnd (2 powi k) = Fin (2 powi k)"
proof -
  assume k: "- 1074 \<le> k" "k \<le> 0"
  have "(2::real) powi k \<le> 2 powi 0" unfolding powi_le_iff by (rule k(2))
  then have "\<bar>(2::real) powi k\<bar> \<le> 2 ^ 0" by simp
  from rnd_Fin(1) [OF this] rnd_real_powi [OF k(1)] show ?thesis by simp
qed

lemma Fin_mult_fractions:
  "Fin 1 * Fin (1 / 2) = Fin (1 / 2)" "Fin 1 * Fin (1 / 4) = Fin (1 / 4)" "Fin (1 / 4) * Fin (1 / 2) = Fin (1 / 8)"
  using rnd_powi [of "- 1"] rnd_powi [of "- 2"] rnd_powi [of "- 3"] by (simp_all add: times_f64_def)

lemma test_simple:
  assumes "log2 (Fin 2) = Fin 1" "log2 (Fin (1 / 2)) = Fin (- 1)" "log2 (Fin 4) = Fin 2" "log2 (Fin (1 / 4)) = Fin (- 2)"
  shows "test_simple log2"
proof -
  have logs: "map (\<lambda>e. e\<lparr>e_cost := - log2 (e_cost e)\<rparr>) simple_edges =
     [\<lparr>e_pair = Pair 0 1, e_provider = 1, e_cost = Fin (- 1)\<rparr>, \<lparr>e_pair = Pair 1 0, e_provider = 1, e_cost = Fin 1\<rparr>,
      \<lparr>e_pair = Pair 1 2, e_provider = 1, e_cost = Fin (- 2)\<rparr>, \<lparr>e_pair = Pair 2 1, e_provider = 1, e_cost = Fin 2\<rparr>]"
    by (simp add: simple_edges_def assms uminus_f64_def)
  have selected: "unique_cheapest_edges simple_edges Greater = Some simple_edges"
    by (simp add: simple_edges_def graph_eval)
  have paths: "shortest_paths (map (\<lambda>e. e\<lparr>e_cost := - log2 (e_cost e)\<rparr>) simple_edges) = Some (Inr
       [(Pair 0 0, \<lparr>p_cost = 0, p_edges = []\<rparr>),
        (Pair 0 1, \<lparr>p_cost = Fin (- 1), p_edges = [\<lparr>e_pair = Pair 0 1, e_provider = 1, e_cost = Fin (- 1)\<rparr>]\<rparr>),
        (Pair 0 2, \<lparr>p_cost = Fin (- 3), p_edges = [\<lparr>e_pair = Pair 0 1, e_provider = 1, e_cost = Fin (- 1)\<rparr>,
           \<lparr>e_pair = Pair 1 2, e_provider = 1, e_cost = Fin (- 2)\<rparr>]\<rparr>),
        (Pair 1 0, \<lparr>p_cost = Fin 1, p_edges = [\<lparr>e_pair = Pair 1 0, e_provider = 1, e_cost = Fin 1\<rparr>]\<rparr>),
        (Pair 1 1, \<lparr>p_cost = 0, p_edges = []\<rparr>),
        (Pair 1 2, \<lparr>p_cost = Fin (- 2), p_edges = [\<lparr>e_pair = Pair 1 2, e_provider = 1, e_cost = Fin (- 2)\<rparr>]\<rparr>),
        (Pair 2 0, \<lparr>p_cost = Fin 3, p_edges = [\<lparr>e_pair = Pair 2 1, e_provider = 1, e_cost = Fin 2\<rparr>,
           \<lparr>e_pair = Pair 1 0, e_provider = 1, e_cost = Fin 1\<rparr>]\<rparr>),
        (Pair 2 1, \<lparr>p_cost = Fin 2, p_edges = [\<lparr>e_pair = Pair 2 1, e_provider = 1, e_cost = Fin 2\<rparr>]\<rparr>),
        (Pair 2 2, \<lparr>p_cost = 0, p_edges = []\<rparr>)])"
    unfolding logs by (simp add: shortest_paths_def int_costs_eval)
  show ?thesis
    by (simp add: test_simple_def longest_paths_mult_def selected paths restore_weights_def)
      (simp add: simple_edges_def bm_collect_def graph_eval one_f64_def Fin_mult_simple Fin_mult_fractions)
qed

definition youtube_edges :: "f64 \<Rightarrow> f64 \<Rightarrow> edge list" where
  "youtube_edges other_provider two_zero =
     [\<lparr>e_pair = Pair 0 1, e_provider = 1, e_cost = Fin 3\<rparr>,
      \<lparr>e_pair = Pair 0 3, e_provider = 1, e_cost = Fin 7\<rparr>,
      \<lparr>e_pair = Pair 0 3, e_provider = 10, e_cost = other_provider\<rparr>,
      \<lparr>e_pair = Pair 1 0, e_provider = 1, e_cost = Fin 8\<rparr>,
      \<lparr>e_pair = Pair 1 2, e_provider = 1, e_cost = Fin 2\<rparr>,
      \<lparr>e_pair = Pair 2 0, e_provider = 1, e_cost = two_zero\<rparr>,
      \<lparr>e_pair = Pair 2 3, e_provider = 1, e_cost = Fin 1\<rparr>,
      \<lparr>e_pair = Pair 3 0, e_provider = 1, e_cost = Fin 2\<rparr>]"

definition test_youtube :: bool where
  "test_youtube =
     (case shortest_paths (youtube_edges (Fin (13 / 2)) (Fin 5)) of
        Some (Inr res) \<Rightarrow>
          map (\<lambda>s. map (\<lambda>t. map_option p_cost (bm_get res (Pair s t))) [0, 1, 2, 3]) [0, 1, 2, 3] =
            [[Some (Fin 0), Some (Fin 3), Some (Fin 5), Some (Fin 6)],
             [Some (Fin 5), Some (Fin 0), Some (Fin 2), Some (Fin 3)],
             [Some (Fin 3), Some (Fin 6), Some (Fin 0), Some (Fin 1)],
             [Some (Fin 2), Some (Fin 5), Some (Fin 7), Some (Fin 0)]] \<and>
          map_option p_edges (bm_get res (Pair 0 3)) =
            Some [\<lparr>e_pair = Pair 0 1, e_provider = 1, e_cost = Fin 3\<rparr>,
                  \<lparr>e_pair = Pair 1 2, e_provider = 1, e_cost = Fin 2\<rparr>,
                  \<lparr>e_pair = Pair 2 3, e_provider = 1, e_cost = Fin 1\<rparr>] \<and>
          map_option p_edges (bm_get res (Pair 3 0)) = Some [\<lparr>e_pair = Pair 3 0, e_provider = 1, e_cost = Fin 2\<rparr>]
      | _ \<Rightarrow> False)"

lemma test_youtube: test_youtube
  by (simp add: test_youtube_def youtube_edges_def shortest_paths_def int_costs_eval)

definition test_youtube_negative_cycle :: bool where
  "test_youtube_negative_cycle =
     (case shortest_paths (youtube_edges (Fin 6) (Fin (- 6))) of Some (Inl _) \<Rightarrow> True | _ \<Rightarrow> False)"

text \<open>The costs are integers, and the cycle through 0, 1 and 2 costs \<open>- 1\<close>.\<close>

lemma test_youtube_negative_cycle: test_youtube_negative_cycle
proof -
  let ?es = "[\<lparr>e_pair = Pair 0 1, e_provider = 1, e_cost = Fin 3\<rparr>,
      \<lparr>e_pair = Pair 0 3, e_provider = 1, e_cost = Fin 7\<rparr>,
      \<lparr>e_pair = Pair 1 0, e_provider = 1, e_cost = Fin 8\<rparr>,
      \<lparr>e_pair = Pair 1 2, e_provider = 1, e_cost = Fin 2\<rparr>,
      \<lparr>e_pair = Pair 2 0, e_provider = 1, e_cost = Fin (- 6)\<rparr>,
      \<lparr>e_pair = Pair 2 3, e_provider = 1, e_cost = Fin 1\<rparr>,
      \<lparr>e_pair = Pair 3 0, e_provider = 1, e_cost = Fin 2\<rparr>] :: edge list"
  have sel: "unique_cheapest_edges (youtube_edges (Fin 6) (Fin (- 6))) Less = Some ?es"
    by (simp add: youtube_edges_def graph_eval)
  have d: "distinct (map e_pair ?es)" by simp
  have ints: "int_graph 4 ?es"
    by (simp add: int_graph_def int_cost_def vertices_of_def card_insert_if)
  let ?cycle = "[\<lparr>e_pair = Pair 0 1, e_provider = 1, e_cost = Fin 3\<rparr>,
      \<lparr>e_pair = Pair 1 2, e_provider = 1, e_cost = Fin 2\<rparr>,
      \<lparr>e_pair = Pair 2 0, e_provider = 1, e_cost = Fin (- 6)\<rparr>] :: edge list"
  have "walk (set ?es) 0 ?cycle 0" "int_sum ?cycle < 0" by (simp_all add: int_cost_def)
  with fw_matrix_negative [OF d ints] have "\<exists>i \<in> vertices_of ?es. cost_at (fw_matrix ?es) i i < 0" by blast
  with fw_matrix_result [OF d] have "floyd_warshall_shortest_paths ?es = Some (Inl NegativeCycles)" by (simp only: if_True)
  with sel show ?thesis by (simp only: test_youtube_negative_cycle_def shortest_paths_def) simp
qed

definition test_f64 :: bool where
  "test_f64 =
     (Fin 1 < f64_MAX \<and> - f64_MAX < Fin 1 \<and>
      \<not> f64_MAX + Fin 1 < f64_MAX \<and> \<not> f64_MAX < f64_MAX + Fin 1 \<and>
      f64_eq f64_MAX (f64_MAX + Fin 1) \<and> f64_eq f64_MAX (f64_MAX + - Fin 1) \<and>
      \<not> f64_eq f64_MAX (Fin 8 + Fin 7) \<and> Fin 8 + Fin 7 < f64_MAX \<and> \<not> f64_MAX \<le> Fin 8 + Fin 7 \<and>
      f64_to_u128 (f64_of_u128 (- 1) * Fin 10 + Fin 10) = - 1)"

lemma f64_max_u128: "\<exists>x. f64_of_u128 (- 1) = Fin x \<and> 2 ^ 127 \<le> x \<and> x \<le> 2 ^ 128"
proof -
  have u: "real (unat (- 1 :: u128)) = 2 ^ 128 - 1" by (simp add: unsigned_minus_1_eq_mask mask_eq_exp_minus_1)
  have "\<bar>2 ^ 128 - 1 :: real\<bar> \<le> 2 ^ 128" by simp
  from rnd_Fin [OF this] have "rnd (2 ^ 128 - 1) = Fin (rnd_real (2 ^ 128 - 1))" "rnd_real (2 ^ 128 - 1) \<le> 2 ^ 128"
    by simp_all
  moreover have "rnd_real (2 ^ 127) \<le> rnd_real (2 ^ 128 - 1)" by (rule rnd_real_mono) simp
  ultimately show ?thesis by (simp only: f64_of_u128_def u rnd_real_pow2) blast
qed

lemma test_f64: test_f64
proof -
  obtain x where x: "f64_of_u128 (- 1) = Fin x" "2 ^ 127 \<le> x" "x \<le> 2 ^ 128" using f64_max_u128 by blast
  then have "\<bar>x * 10\<bar> \<le> 2 ^ 132" by simp
  from rnd_Fin [OF this] have y: "Fin x * Fin 10 = Fin (rnd_real (x * 10))" "\<bar>rnd_real (x * 10)\<bar> \<le> 2 ^ 132"
    by (simp_all add: times_f64_def)
  have "rnd_real (2 ^ 128) \<le> rnd_real (x * 10)" using x(2) by (intro rnd_real_mono) simp
  then have "2 ^ 128 \<le> rnd_real (x * 10)" by (simp only: rnd_real_pow2)
  then have "rnd_real (2 ^ 128) \<le> rnd_real (rnd_real (x * 10) + 10)" by (intro rnd_real_mono) simp
  then have "2 ^ 128 \<le> rnd_real (rnd_real (x * 10) + 10)" by (simp only: rnd_real_pow2)
  moreover have "\<bar>rnd_real (x * 10) + 10\<bar> \<le> 2 ^ 133" using y(2) by simp
  from rnd_Fin(1) [OF this] have "Fin x * Fin 10 + Fin 10 = Fin (rnd_real (rnd_real (x * 10) + 10))"
    by (simp add: y(1) plus_f64_def)
  ultimately have "f64_to_u128 (f64_of_u128 (- 1) * Fin 10 + Fin 10) = - 1" by (simp add: x(1))
  moreover have "Fin 8 + Fin 7 = Fin 15" by (simp add: Fin_add_Ints)
  moreover have "f64_MAX + Fin 1 = f64_MAX" "f64_MAX + - Fin 1 = f64_MAX"
    using f64_MAX_absorbs [of 1] f64_MAX_absorbs [of "- 1"] by (simp_all add: uminus_f64_def)
  ultimately show ?thesis
    by (simp add: test_f64_def) (simp add: f64_MAX_def uminus_f64_def f64_eq_def)
qed

section \<open>\<open>utils.rs\<close> and \<open>crypto_compare_tests.rs\<close>\<close>

definition test_concat4 :: bool where
  "test_concat4 =
     (concat4 [] [] [] [] = [] \<and>
      concat4 (ascii ''1'') (ascii ''2'') (ascii ''3'') (ascii ''4'') = ascii ''1234'' \<and>
      concat4 (ascii ''1'') [] [] (ascii ''4'') = ascii ''14'')"

lemma test_concat4: test_concat4
  by (simp add: test_concat4_def concat4_def ascii_def)

text \<open>The payloads of the test, and what a JSON parser makes of them.\<close>

definition prices_payload :: "u8 list" where
  "prices_payload = ascii ''{\"BTC\": 45, \"USDT\": 12.789, \"ETH\": 89.000001, \"SHIBZELDA\": 0.00000007978}''"

definition parsed_prices :: "json_value" where
  "parsed_prices = Object
     [(map unat (ascii ''BTC''), Number \<lparr>integer = 45, fraction = 0, fraction_length = 0\<rparr>),
      (map unat (ascii ''USDT''), Number \<lparr>integer = 12, fraction = 789, fraction_length = 3\<rparr>),
      (map unat (ascii ''ETH''), Number \<lparr>integer = 89, fraction = 1, fraction_length = 6\<rparr>),
      (map unat (ascii ''SHIBZELDA''), Number \<lparr>integer = 0, fraction = 7978, fraction_length = 11\<rparr>)]"

definition test_parse_price :: "(u8 list \<Rightarrow> json_value option) \<Rightarrow> bool" where
  "test_parse_price parse_json =
     (parse_price True parse_json prices_payload (ascii ''USDT'') 12 = Some (Some 12789000000000) \<and>
      parse_price True parse_json prices_payload (ascii ''ETH'') 12 = Some (Some 89000001000000) \<and>
      parse_price True parse_json prices_payload (ascii ''BTC'') 12 = Some (Some 45000000000000) \<and>
      parse_price True parse_json prices_payload (ascii ''SHIBZELDA'') 12 = Some (Some 79780) \<and>
      parse_price True parse_json (ascii ''{\"USDT\": abc}'') (ascii ''USDT'') 12 = Some None \<and>
      parse_price True parse_json (ascii ''\"USDT\": 12'') (ascii ''USDT'') 12 = Some None)"

lemma number_price_is:
  assumes "0 \<le> sint (integer n)" "unat (fraction_length n) \<le> 40" "v < 2 ^ 128"
    and "nat (sint (integer n)) * 10 ^ 12 + unat (fraction n) * 10 ^ 10 div 10 ^ (unat (fraction_length n) - 2) = v"
  shows "number_price chk n 12 = Some (of_nat v)"
proof -
  obtain p where "number_price chk n 12 = Some p" "unat p = v"
    using number_price_value [OF assms(1,2), of chk] assms(4) by auto
  moreover have "p = of_nat (unat p)" by simp
  ultimately show ?thesis by simp
qed

lemma test_parse_price:
  assumes "parse_json prices_payload = Some parsed_prices"
    and "parse_json (ascii ''{\"USDT\": abc}'') = None"
    and "\<forall>obj. parse_json (ascii ''\"USDT\": 12'') \<noteq> Some (Object obj)"
  shows "test_parse_price parse_json"
proof -
  have n: "number_price True \<lparr>integer = 12, fraction = 789, fraction_length = 3\<rparr> 12 = Some (of_nat 12789000000000)"
    "number_price True \<lparr>integer = 89, fraction = 1, fraction_length = 6\<rparr> 12 = Some (of_nat 89000001000000)"
    "number_price True \<lparr>integer = 45, fraction = 0, fraction_length = 0\<rparr> 12 = Some (of_nat 45000000000000)"
    "number_price True \<lparr>integer = 0, fraction = 7978, fraction_length = 11\<rparr> 12 = Some (of_nat 79780)"
    by (rule number_price_is; simp)+
  have "parse_price True parse_json (ascii ''\"USDT\": 12'') (ascii ''USDT'') 12 = Some None"
    using assms(3) by (auto simp: parse_price_def split: option.split json_value.split)
  then show ?thesis
    using n by (simp add: test_parse_price_def parse_price_def assms(1,2)) (simp add: parsed_prices_def ascii_def)
qed

definition test_breaches_tolerance :: bool where
  "test_breaches_tolerance =
     (breaches_tolerance 1000000 1000001 1 = Some False \<and>
      breaches_tolerance 1000005 1000001 4 = Some False \<and>
      breaches_tolerance 1002 1000 1000 = Some True \<and>
      breaches_tolerance 1002 1008 5000 = Some True)"

lemma test_breaches_tolerance: test_breaches_tolerance
  by (simp add: test_breaches_tolerance_def breaches_tolerance_unat price_gap_def)

text \<open>The test host answers the three expected requests, whatever the deadline.\<close>

definition quotes_host :: "u8 list \<Rightarrow> u64 \<Rightarrow> http_outcome" where
  "quotes_host url deadline =
     (if url = ascii ''https://min-api.cryptocompare.com/data/price?fsym=BTC&tsyms=USD'' then Response 200 (ascii ''{\"USD\": 50000}'')
      else if url = ascii ''https://min-api.cryptocompare.com/data/price?fsym=ETH&tsyms=USD'' then Response 200 (ascii ''{\"USD\": 4000}'')
      else if url = ascii ''https://min-api.cryptocompare.com/data/price?fsym=BTC&tsyms=ETH'' then Response 200 (ascii ''{\"ETH\": 12500}'')
      else SendFailed)"

definition test_get_price :: "(u8 list \<Rightarrow> json_value option) \<Rightarrow> u64 \<Rightarrow> bool" where
  "test_get_price parse_json now =
     (get_price True parse_json quotes_host now (ascii ''BTC'') (ascii ''USD'') 12 = Some (Inr 50000000000000000) \<and>
      get_price True parse_json quotes_host now (ascii ''ETH'') (ascii ''USD'') 12 = Some (Inr 4000000000000000) \<and>
      get_price True parse_json quotes_host now (ascii ''BTC'') (ascii ''ETH'') 12 = Some (Inr 12500000000000000))"

lemma test_get_price:
  assumes "parse_json (ascii ''{\"USD\": 50000}'') =
       Some (Object [(map unat (ascii ''USD''), Number \<lparr>integer = 50000, fraction = 0, fraction_length = 0\<rparr>)])"
    and "parse_json (ascii ''{\"USD\": 4000}'') =
       Some (Object [(map unat (ascii ''USD''), Number \<lparr>integer = 4000, fraction = 0, fraction_length = 0\<rparr>)])"
    and "parse_json (ascii ''{\"ETH\": 12500}'') =
       Some (Object [(map unat (ascii ''ETH''), Number \<lparr>integer = 12500, fraction = 0, fraction_length = 0\<rparr>)])"
  shows "test_get_price parse_json now"
proof -
  have n: "number_price True \<lparr>integer = 50000, fraction = 0, fraction_length = 0\<rparr> 12 = Some (of_nat 50000000000000000)"
    "number_price True \<lparr>integer = 4000, fraction = 0, fraction_length = 0\<rparr> 12 = Some (of_nat 4000000000000000)"
    "number_price True \<lparr>integer = 12500, fraction = 0, fraction_length = 0\<rparr> 12 = Some (of_nat 12500000000000000)"
    by (rule number_price_is; simp)+
  have urls: "price_url (ascii ''BTC'') (ascii ''USD'') =
      ascii ''https://min-api.cryptocompare.com/data/price?fsym=BTC&tsyms=USD''"
    "price_url (ascii ''ETH'') (ascii ''USD'') = ascii ''https://min-api.cryptocompare.com/data/price?fsym=ETH&tsyms=USD''"
    "price_url (ascii ''BTC'') (ascii ''ETH'') = ascii ''https://min-api.cryptocompare.com/data/price?fsym=BTC&tsyms=ETH''"
    by (simp_all add: price_url_def concat4_def ascii_def)
  have utf8: "utf8_valid (ascii ''https://min-api.cryptocompare.com/data/price?fsym=BTC&tsyms=USD'')"
    "utf8_valid (ascii ''https://min-api.cryptocompare.com/data/price?fsym=ETH&tsyms=USD'')"
    "utf8_valid (ascii ''https://min-api.cryptocompare.com/data/price?fsym=BTC&tsyms=ETH'')"
    "utf8_valid (ascii ''{\"USD\": 50000}'')" "utf8_valid (ascii ''{\"USD\": 4000}'')" "utf8_valid (ascii ''{\"ETH\": 12500}'')"
    by (rule utf8_valid_ascii; simp add: ascii_def)+
  have host: "quotes_host (price_url (ascii ''BTC'') (ascii ''USD'')) d = Response 200 (ascii ''{\"USD\": 50000}'')"
    "quotes_host (price_url (ascii ''ETH'') (ascii ''USD'')) d = Response 200 (ascii ''{\"USD\": 4000}'')"
    "quotes_host (price_url (ascii ''BTC'') (ascii ''ETH'')) d = Response 200 (ascii ''{\"ETH\": 12500}'')" for d
    unfolding urls quotes_host_def by (simp_all add: ascii_def)
  have valid: "utf8_valid (price_url (ascii ''BTC'') (ascii ''USD''))" "utf8_valid (price_url (ascii ''ETH'') (ascii ''USD''))"
    "utf8_valid (price_url (ascii ''BTC'') (ascii ''ETH''))" by (simp_all only: urls utf8)
  show ?thesis using n
    by (simp add: test_get_price_def get_price_def host valid utf8 parse_price_def assms)
qed

section \<open>The mock runtime of \<open>mock.rs\<close>\<close>

text \<open>The mock runtime's amounts and block numbers have 64 bits; all values in the tests fit the model's
  types. \<open>db\<close> are the database weights, \<open>()\<close> in the mock.\<close>

abbreviation MOCK_PROVIDER :: provider where "MOCK_PROVIDER \<equiv> CRYPTOCOMPARE"

definition BTC_CURRENCY :: currency where "BTC_CURRENCY = ascii ''BTC''"
definition ETH_CURRENCY :: currency where "ETH_CURRENCY = ascii ''ETH''"
definition USDT_CURRENCY :: currency where "USDT_CURRENCY = ascii ''USDT''"
definition BOGUS_CURRENCY :: currency where "BOGUS_CURRENCY = ascii ''__BOGUS_CURRENCY__''"

lemma mock_currencies [simp]:
  "utf8_valid BTC_CURRENCY" "utf8_valid ETH_CURRENCY" "utf8_valid USDT_CURRENCY"
  "distinct [BTC_CURRENCY, ETH_CURRENCY, USDT_CURRENCY, BOGUS_CURRENCY]"
  by (simp_all add: BTC_CURRENCY_def ETH_CURRENCY_def USDT_CURRENCY_def BOGUS_CURRENCY_def ascii_def)

definition mock_get_price :: "provider \<Rightarrow> currency \<Rightarrow> currency \<Rightarrow> (trade_provider_err, u128) result run" where
  "mock_get_price provider src tgt = Some (Inr 50000)"

definition mock_config :: "db_weight \<Rightarrow> config" where
  "mock_config db = \<lparr>calculate = noop_calc_best_paths, fetch_price = mock_get_price, call_weights = UnitWeight db,
     trigger_delay = 1, max_tx_pool_stay_time = 1, unsigned_tx_priority = push_bit 20 1, tolerance = 1\<rparr>"

definition new_test_ext :: "nat storage" where
  "new_test_ext = \<lparr>best_paths = Map.empty, monitored_pairs = Map.empty, whitelisted = Map.empty,
     unsigned_tx_nonce = 0, events = []\<rparr>"

definition last_event :: "'acc storage \<Rightarrow> 'acc event option" where
  "last_event st = (if events st = [] then None else Some (last (events st)))"

section \<open>\<open>tests.rs\<close>\<close>

definition assert_ok :: "'acc dispatched \<Rightarrow> ('acc storage \<Rightarrow> bool) \<Rightarrow> bool" where
  "assert_ok res continue = (case res of Some (Inr st) \<Rightarrow> continue st | _ \<Rightarrow> False)"

text \<open>A failing call has no storage to return: it leaves the old one.\<close>

definition assert_noop :: "'acc dispatched \<Rightarrow> dispatch_error \<Rightarrow> bool" where
  "assert_noop res err = (res = Some (Inl err))"

abbreviation mock_pair :: "currency \<Rightarrow> currency \<Rightarrow> currency provider_pair" where
  "mock_pair s t \<equiv> ProviderPair (Pair s t) MOCK_PROVIDER"

abbreviation mock_operation :: "currency \<Rightarrow> currency \<Rightarrow> operation \<Rightarrow> pair_operation" where
  "mock_operation s t op \<equiv> \<lparr>provider_pair = mock_pair s t, operation = op\<rparr>"

definition test_submit_monitored_pairs_ok :: bool where
  "test_submit_monitored_pairs_ok =
     assert_ok (submit_monitored_pairs Root [mock_operation BTC_CURRENCY BOGUS_CURRENCY Del] new_test_ext) (\<lambda>st.
       last_event st = None \<and> dom (monitored_pairs st) = {} \<and>
     assert_ok (submit_monitored_pairs Root
        [mock_operation BTC_CURRENCY USDT_CURRENCY Add, mock_operation BTC_CURRENCY ETH_CURRENCY Del,
         mock_operation BTC_CURRENCY ETH_CURRENCY Add, mock_operation ETH_CURRENCY USDT_CURRENCY Add] st) (\<lambda>st.
       dom (monitored_pairs st) =
         {mock_pair BTC_CURRENCY USDT_CURRENCY, mock_pair BTC_CURRENCY ETH_CURRENCY, mock_pair ETH_CURRENCY USDT_CURRENCY} \<and>
       last_event st = Some (MonitoredPairsSubmitted
         [(BTC_CURRENCY, USDT_CURRENCY, MOCK_PROVIDER, Add), (BTC_CURRENCY, ETH_CURRENCY, MOCK_PROVIDER, Add),
          (ETH_CURRENCY, USDT_CURRENCY, MOCK_PROVIDER, Add)]) \<and>
     assert_ok (submit_monitored_pairs Root
        [mock_operation BTC_CURRENCY USDT_CURRENCY Del, mock_operation BTC_CURRENCY ETH_CURRENCY Add,
         mock_operation BTC_CURRENCY ETH_CURRENCY Del, mock_operation ETH_CURRENCY BOGUS_CURRENCY Del] st) (\<lambda>st.
       dom (monitored_pairs st) = {mock_pair ETH_CURRENCY USDT_CURRENCY} \<and>
       last_event st = Some (MonitoredPairsSubmitted
         [(BTC_CURRENCY, USDT_CURRENCY, MOCK_PROVIDER, Del), (BTC_CURRENCY, ETH_CURRENCY, MOCK_PROVIDER, Del)]) \<and>
     assert_ok (submit_monitored_pairs Root
        [mock_operation ETH_CURRENCY USDT_CURRENCY Del, mock_operation BOGUS_CURRENCY ETH_CURRENCY Del,
         mock_operation USDT_CURRENCY ETH_CURRENCY Add] st) (\<lambda>st.
       dom (monitored_pairs st) = {mock_pair USDT_CURRENCY ETH_CURRENCY} \<and>
       last_event st = Some (MonitoredPairsSubmitted
         [(ETH_CURRENCY, USDT_CURRENCY, MOCK_PROVIDER, Del), (USDT_CURRENCY, ETH_CURRENCY, MOCK_PROVIDER, Add)])))))"

text \<open>One call: the storage it leaves.\<close>

lemma assert_submit_monitored_pairs:
  "assert_ok (submit_monitored_pairs Root ops st) P = P
     (let evs = map operation_item (filter (effective (monitored_pairs st)) (last_operations ops)) in
      st\<lparr>monitored_pairs := changed_pairs ops (monitored_pairs st),
         events := events st @ (if evs = [] then [] else [MonitoredPairsSubmitted evs])\<rparr>)"
proof -
  have "fold apply_operation (dedupe_operations ops) (monitored_pairs st, []) =
      (changed_pairs ops (monitored_pairs st),
       map operation_item (filter (effective (monitored_pairs st)) (last_operations ops)))"
    by (simp add: dedupe_last_operations fold_operations distinct_last_operations
        changed_pairs_def [abs_def] last_operation_last_operations)
  then show ?thesis
    by (simp add: assert_ok_def submit_monitored_pairs_def ensure_root_def deposit_event_def Let_def)
qed

lemma changed_pairs_steps [simp]:
  "changed_pairs [] pairs = pairs"
  "changed_pairs (op # ops) pairs =
     changed_pairs ops (pairs(provider_pair op := (if operation op = Add then Some () else None)))"
  by (auto simp: changed_pairs_def last_operation_Cons last_operation_def fun_eq_iff
      split: option.split operation.split)

lemma test_submit_monitored_pairs_ok: test_submit_monitored_pairs_ok
  using mock_currencies(4)
  by (simp add: test_submit_monitored_pairs_ok_def assert_submit_monitored_pairs new_test_ext_def last_event_def
      operation_item_def effective_def) auto

definition test_submit_monitored_pairs_errors :: bool where
  "test_submit_monitored_pairs_errors =
     (assert_noop (submit_monitored_pairs (Signed 0) [mock_operation BTC_CURRENCY USDT_CURRENCY Add] new_test_ext) BadOrigin \<and>
      dom (monitored_pairs new_test_ext) = {} \<and>
      assert_noop (submit_monitored_pairs NoOrigin [mock_operation BTC_CURRENCY USDT_CURRENCY Add] new_test_ext) BadOrigin)"

lemma test_submit_monitored_pairs_errors: test_submit_monitored_pairs_errors
  by (simp add: test_submit_monitored_pairs_errors_def assert_noop_def submit_monitored_pairs_def ensure_root_def
      new_test_ext_def)

definition mock_payload :: "'pub \<Rightarrow> 'pub payload" where
  "mock_payload key = \<lparr>changes = [(BTC_CURRENCY, USDT_CURRENCY, Some \<lparr>total_cost = 50000, steps = []\<rparr>)],
     payload_nonce = 0, payload_block = 1, public = key\<rparr>"

definition test_ocw_submit_best_paths_changes :: "'pub \<Rightarrow> bool" where
  "test_ocw_submit_best_paths_changes key =
     (assert_ok (ocw_submit_best_paths_changes True True NoOrigin (mock_payload key) new_test_ext) (\<lambda>st.
        assert_noop (ocw_submit_best_paths_changes True True NoOrigin (mock_payload key) st) StaleUnsignedTxError) \<and>
      assert_noop (ocw_submit_best_paths_changes True True Root (mock_payload key) new_test_ext) BadOrigin)"

lemma test_ocw_submit_best_paths_changes: "test_ocw_submit_best_paths_changes key"
  by (simp add: test_ocw_submit_best_paths_changes_def assert_ok_def assert_noop_def ocw_submit_best_paths_changes_def
      ensure_none_def mock_payload_def new_test_ext_def apply_change_def rs_add_def deposit_event_def)

text \<open>The node of the test: its key store holds one key, its pool takes every transaction.\<close>

definition mock_env :: "db_weight \<Rightarrow> 'pub \<Rightarrow> ('pub payload \<Rightarrow> 'sig) \<Rightarrow> (nat, 'pub, 'sig) ocw_env" where
  "mock_env db key signer = config.extend (mock_config db)
     \<lparr>checks = True, log_debug = True, iter_pairs = sorted_list_of_set, iter_paths = sorted_list_of_set,
      local_key = Some key, sign = signer, submit_ok = (\<lambda>_. True)\<rparr>"

definition test_fetch_prices_and_update_best_paths ::
  "db_weight \<Rightarrow> 'pub \<Rightarrow> ('pub payload \<Rightarrow> 'sig) \<Rightarrow> ('pub payload \<Rightarrow> 'sig \<Rightarrow> bool) \<Rightarrow> bool" where
  "test_fetch_prices_and_update_best_paths db key signer verify =
     (case fetch_prices_and_update_best_paths (mock_env db key signer) 1
        (new_test_ext\<lparr>monitored_pairs := [mock_pair BTC_CURRENCY USDT_CURRENCY \<mapsto> ()]\<rparr>) of
        Some (Inr _, [OcwSubmitBestPathsChanges body signature]) \<Rightarrow>
          body = mock_payload key \<and> verify (mock_payload key) signature
      | _ \<Rightarrow> False)"

lemma test_fetch_prices_and_update_best_paths:
  assumes "\<forall>payload. verify payload (signer payload)"
  shows "test_fetch_prices_and_update_best_paths db key signer verify"
  using assms
  by (simp add: test_fetch_prices_and_update_best_paths_def fetch_prices_and_update_best_paths_def fetched_pairs_def
      mock_env_def config.defs mock_config_def mock_get_price_def new_test_ext_def noop_calc_best_paths_def
      bm_collect_def best_path_changes_def stored_entries_def submit_changes_def)
    (simp add: mock_payload_def Let_def)

definition test_should_trigger_offchain :: bool where
  "test_should_trigger_offchain =
     (\<not> should_trigger_offchain (Stored 10) 9 \<and> should_trigger_offchain (Stored 10) 10 \<and>
      should_trigger_offchain (Stored 10) 11)"

lemma test_should_trigger_offchain: test_should_trigger_offchain
  by (simp add: test_should_trigger_offchain_def should_trigger_offchain_def)

section \<open>The tests of the template pallet\<close>

definition template_test_ext :: "nat template_storage" where
  "template_test_ext = \<lparr>something = None, template_events = []\<rparr>"

definition it_works_for_default_value :: bool where
  "it_works_for_default_value =
     (case do_something (Signed 1) 42 template_test_ext of Inr st \<Rightarrow> something st = Some 42 | Inl _ \<Rightarrow> False)"

definition correct_error_for_none_value :: bool where
  "correct_error_for_none_value = (cause_error (Signed 1) template_test_ext = Inl NoneValue)"

lemma template_tests: it_works_for_default_value correct_error_for_none_value
  by (simp_all add: it_works_for_default_value_def correct_error_for_none_value_def template_test_ext_def
      do_something_def cause_error_def template_signed_def ensure_signed_def)

section \<open>All tests\<close>

lemma algo_tests_hold:
  assumes "log2 (Fin 2) = Fin 1" "log2 (Fin (1 / 2)) = Fin (- 1)" "log2 (Fin 4) = Fin 2" "log2 (Fin (1 / 4)) = Fin (- 2)"
  shows "test_unique_edges \<and> test_simple log2 \<and> test_youtube \<and> test_youtube_negative_cycle \<and> test_f64"
  using test_unique_edges test_simple [OF assms] test_youtube test_youtube_negative_cycle test_f64 by blast

lemma utils_tests_hold:
  assumes "parse_json prices_payload = Some parsed_prices"
    and "parse_json (ascii ''{\"USDT\": abc}'') = None"
    and "\<forall>obj. parse_json (ascii ''\"USDT\": 12'') \<noteq> Some (Object obj)"
  shows "test_concat4 \<and> test_parse_price parse_json \<and> test_breaches_tolerance"
  using test_concat4 test_parse_price [OF assms] test_breaches_tolerance by blast

lemma pallet_tests_hold:
  assumes "\<forall>payload. verify payload (signer payload)"
  shows "test_submit_monitored_pairs_ok \<and> test_submit_monitored_pairs_errors \<and>
     test_ocw_submit_best_paths_changes key \<and> test_fetch_prices_and_update_best_paths db key signer verify \<and>
     test_should_trigger_offchain"
  using test_submit_monitored_pairs_ok test_submit_monitored_pairs_errors test_ocw_submit_best_paths_changes [of key]
    test_fetch_prices_and_update_best_paths [of verify signer db key] assms test_should_trigger_offchain by blast

text \<open>The tests of the graph algorithm hold with any \<open>log2\<close> that is exact on the four powers of two they
  use, that of the calculator on real prices with any \<open>log2\<close> accurate to \<open>2 ^ -40\<close>, those of the helpers
  and of the provider with any parser that reads their payloads, those of the pallets over their mock
  runtimes. So all tests of the repository hold of the model.\<close>

lemma repository_tests_hold:
  assumes "log2 (Fin 2) = Fin 1" "log2 (Fin (1 / 2)) = Fin (- 1)" "log2 (Fin 4) = Fin 2" "log2 (Fin (1 / 4)) = Fin (- 2)"
    and "parse_json prices_payload = Some parsed_prices" "parse_json (ascii ''{\"USDT\": abc}'') = None"
      "\<forall>obj. parse_json (ascii ''\"USDT\": 12'') \<noteq> Some (Object obj)"
    and "parse_json (ascii ''{\"USD\": 50000}'') =
         Some (Object [(map unat (ascii ''USD''), Number \<lparr>integer = 50000, fraction = 0, fraction_length = 0\<rparr>)])"
      "parse_json (ascii ''{\"USD\": 4000}'') =
         Some (Object [(map unat (ascii ''USD''), Number \<lparr>integer = 4000, fraction = 0, fraction_length = 0\<rparr>)])"
      "parse_json (ascii ''{\"ETH\": 12500}'') =
         Some (Object [(map unat (ascii ''ETH''), Number \<lparr>integer = 12500, fraction = 0, fraction_length = 0\<rparr>)])"
    and "\<forall>payload. verify payload (signer payload)" "accurate_log2 log2 \<delta>" "\<delta> \<le> 1 / 2 ^ 40"
  shows "test_unique_edges \<and> test_simple log2 \<and> test_youtube \<and> test_youtube_negative_cycle \<and> test_f64 \<and>
     test_real_life_graph log2 \<and> test_concat4 \<and> test_parse_price parse_json \<and> test_breaches_tolerance \<and>
     test_get_price parse_json now \<and>
     test_submit_monitored_pairs_ok \<and> test_submit_monitored_pairs_errors \<and>
     test_ocw_submit_best_paths_changes key \<and> test_fetch_prices_and_update_best_paths db key signer verify \<and>
     test_should_trigger_offchain \<and> it_works_for_default_value \<and> correct_error_for_none_value"
  using algo_tests_hold [OF assms(1-4)] utils_tests_hold [OF assms(5-7)] test_get_price [OF assms(8-10)]
    pallet_tests_hold [of verify signer key db] assms(11) template_tests test_real_life_graph [OF assms(12,13)] by blast

end
