(* ===== verification/Spec2Isabelle.thy ===== *)
theory Spec2Isabelle
  imports Btree_Heap Node Template_Pallet Rounds Board Trades Unit_Tests Runtime_Api
begin

text \<open>
  \<^bold>\<open>A Substrate price aggregator.\<close> The aggregator pallet keeps, for pairs of currencies, the best path
  of exchanges between them. Root says which pairs are monitored. On every node an offchain
  worker fetches the prices of the monitored pairs, computes the best paths (Floyd-Warshall over
  negated logarithms of the rates), compares them with the paths on chain and submits what is new
  or has moved, as an unsigned transaction with a signed payload. The chain accepts it if its
  signer is whitelisted by root and its nonce is the stored one.

  \<^bold>\<open>Theories and code\<close> (paths under \<open>src/\<close>; \<open>P\<close> is \<open>pallets/aggregator/src\<close>):

  \<^item> \<open>Prelude\<close>: machine integers with Rust's checked and unchecked arithmetic, panics as options,
    results as sums, \<open>BTreeMap\<close> and \<open>BTreeSet\<close> as sorted lists under the contract \<open>ordered_map\<close>.
  \<^item> \<open>F64\<close>: IEEE binary64 over the reals, round to nearest even; no bit patterns, one zero.
  \<^item> \<open>Agg_Types\<close>: \<open>P/types.rs\<close>. \<open>Agg_Utils\<close>: \<open>P/utils.rs\<close>. \<open>Btree_Heap\<close>: \<open>P/heap.rs\<close>, locale \<open>heap\<close>.
  \<^item> \<open>Algo\<close>: \<open>P/best_path_calculator/floyd_warshall/algo.rs\<close>. \<open>FW_Correct\<close> proves the rounds of the
    algorithm, \<open>Path_Lengths\<close> how long its paths get, \<open>Shortest_Paths\<close> and \<open>Path_Results\<close> the results of
    \<open>shortest_paths\<close>, \<open>Best_Rates\<close> those of \<open>longest_paths_mult\<close>, \<open>Near_Best\<close> how far rounding takes it
    from the best rate.
  \<^item> \<open>Calculator\<close>: \<open>calculator.rs\<close> beside it and \<open>noop_calculator.rs\<close>; the trait
    \<open>BestPathCalculator\<close> is the locale \<open>best_path_calculator\<close>, interpreted on both. \<open>Near_Prices\<close>
    carries \<open>Near_Best\<close> over to currencies and prices, \<open>Near_Totals\<close> bounds the stored totals, and
    \<open>Ordinary_Prices\<close> says for which inputs; \<open>Routes\<close> has certificates for its exact answers.
  \<^item> \<open>Trade_Provider\<close>: \<open>P/trade_provider/mod.rs\<close> and \<open>crypto_compare.rs\<close>.
  \<^item> \<open>Pallet\<close>: storage, calls and \<open>validate_unsigned\<close> of \<open>P/lib.rs\<close>; \<open>Pallet_Results\<close> what they do.
  \<^item> \<open>Ocw\<close>: the offchain worker of \<open>P/lib.rs\<close>; \<open>Ocw_Results\<close> its comparison, \<open>Worker_Results\<close> its
    interplay with the pallet, in the locale \<open>worker\<close> that extends \<open>best_path_calculator\<close>; \<open>Ocw_Lock\<close>
    the interleaved runs of one node, as a step relation over the lock, the clock and the trigger in
    which checking, locking, submitting, setting the trigger and releasing are separate steps;
    \<open>Ocw_Runs\<close> what these runs guarantee and what they do not.
  \<^item> \<open>Rounds\<close>: one round from the fetched prices to the storage of the chain.
  \<^item> \<open>Chain\<close>: a step relation over blocks and extrinsics, and the invariants of all runs. \<open>Board\<close>: what
    the chain promises, as an abstract machine that every run refines. \<open>Trades\<close>: the trades in the log
    of a block.
  \<^item> \<open>Weights\<close>: \<open>P/weights.rs\<close>. \<open>Template_Pallet\<close>: \<open>pallets/template/src/lib.rs\<close>
    with its benchmark.
  \<^item> \<open>Runtime\<close> and \<open>Runtime_Api\<close>: \<open>runtime/src/lib.rs\<close>. \<open>Chain_Spec\<close>: \<open>node/src/chain_spec.rs\<close>.
    \<open>Node\<close>: \<open>node/src/service.rs\<close>, \<open>command.rs\<close>, \<open>cli.rs\<close>, \<open>rpc.rs\<close>.
  \<^item> \<open>Unit_Tests\<close>: the unit tests of both pallets, of the algorithm and of the helpers, with \<open>mock.rs\<close>.
    \<open>Real_Prices\<close>: the test of \<open>calculator.rs\<close>, with its decimal literals as doubles.

  \<^bold>\<open>What is shown.\<close> The algorithm never panics without a NaN cost; on arbitrary doubles its paths are
  walks with their own costs, no worse (in rounded cost) than any simple path over the kept edges;
  on integer costs it computes true distances and reports an error exactly for negative cycles;
  the rate search finds the best product when the rates are powers of two, and errs exactly on
  arbitrage; for any prices the path found has the best product of prices up to rounding, three
  parts in a hundred million at most, its total is that product, and an error means a cycle that
  gains, up to rounding. The
  calculator's paths are chains of input pairs whose total is the product of their rates. A
  submission does what its payload says, executes at most once, and every stored path came from an
  account root whitelisted; the chain as a whole refines a board of posted paths. The worker submits
  exactly the new and the moved paths, settles, and is accepted, and after its round no chain of
  exchanges beats the price on chain by more than the tolerance and rounding; a trade is at the price
  posted last. The trigger limits the rate of a node's runs after the one that set it last; runs no
  longer than the lock exclude each other, and if no check is outdated when the lock is taken their
  submissions are the delay apart; the lock never stays for good. The repository's tests hold of the
  model. The theorems also record where the code does something else than it seems to mean:
  the selection keeps the worst rate of a pair, one-digit fractions are misread, a path of cost zero
  stops the worker, stale paths are never removed, executed submissions stay valid, the lock is
  shorter than a single price request may take, so that runs overlap, and the trigger is not read
  again under the lock, so that runs with the same check both act.

  \<^bold>\<open>Bounds.\<close> No fuel is used: all recursion is structural or over finite lists. \<open>small_graph b\<close> and
  \<open>small_rates\<close> say that costs are below \<open>2 ^ b\<close> and \<open>b + 3 * n \<le> 969\<close> for \<open>n\<close> vertices, which keeps every
  sum, which grows at most eightfold per round, away from \<open>f64::MAX\<close>, the code's stand-in for infinity; prices give
  \<open>b = 11\<close> with any logarithm of the right magnitude, hence the 319 currencies, and \<open>b = 8\<close> with an
  accurate one, hence the 320. \<open>int_graph\<close> and \<open>int_rates\<close> ask for \<open>b + 3 * n \<le> 51\<close>, so that all sums are
  exact integers. The error of a sum of \<open>n\<close> logarithms is quadratic in \<open>n\<close> and stated for chains of
  up to \<open>2 ^ 52\<close> steps. A stored path of \<open>n\<close> currencies has at most \<open>2 ^ n\<close> steps, since without a negative
  cycle a round at most doubles a path (eightfold otherwise): with up to eight currencies it is short
  enough for the bound of three parts in a hundred million. Products stay in range when up to eight
  currencies have \<open>ordinary_prices\<close>: all within \<open>2 ^ -b\<close> and \<open>2 ^ b\<close>, with \<open>(n - 1) * b \<le> 79\<close>. Block numbers are assumed away from the end of their 32
  bits where sums occur.

  \<^bold>\<open>Parameters.\<close> The base-two logarithm (\<open>log2\<close>, platform dependent; \<open>log2_ok\<close> states its range,
  \<open>accurate_log2\<close> its accuracy), the JSON parser and the HTTP exchange, the order of storage iteration
  (\<open>iterates\<close>: every key once), the storage lock (\<open>lock_contract\<close>), the key store, signing and
  verification, the transaction pool's answer, key derivation, database weights, the constructors of
  the Substrate node and the FRAME code behind the runtime APIs. Log levels and overflow checks are
  arguments, since they decide whether the code panics.

  \<^bold>\<open>Not modelled.\<close> Fees; SCALE encoding and hashing of storage keys; what Substrate's constructors
  build in \<open>node/src/service.rs\<close>; \<open>main.rs\<close>, which only calls \<open>run\<close>; the aggregator's benchmarks, which call
  functions the pallet does not have; type aliases, trait plumbing and the pallet macros.
\<close>

section \<open>From genesis\<close>

text \<open>C22: A chain that starts at genesis trusts nobody but root: until root has put an account on the
  whitelist no submission executes and no best path is stored; at any time the whitelist is
  exactly what root put there, and the nonce counts the executed submissions.\<close>

theorem genesis_trusts_root:
  fixes s :: "'acc chain"
  assumes "chain_run env genesis_chain trace s"
  shows "(authorised trace = {} \<longrightarrow> submissions trace = [] \<and> best_paths (store s) = Map.empty) \<and>
     dom (whitelisted (store s)) = authorised trace \<and>
     unsigned_tx_nonce (store s) = of_nat (length (submissions trace))"
proof -
  have empty: "whitelisted (store (genesis_chain :: 'acc chain)) = Map.empty"
    "best_paths (store (genesis_chain :: 'acc chain)) = Map.empty"
    "unsigned_tx_nonce (store (genesis_chain :: 'acc chain)) = 0"
    by (simp_all add: genesis_chain_def genesis_storage_def)
  have "submissions trace = []" if "authorised trace = {}"
  proof (rule ccontr)
    assume "submissions trace \<noteq> []"
    then obtain payload sig where "(payload, sig) \<in> set (submissions trace)"
      by (metis list.set_intros(1) neq_Nil_conv surj_pair)
    from run_submitters [OF assms this] that empty(1) show False by simp
  qed
  moreover have "best_paths (store s) = Map.empty" if "submissions trace = []"
  proof
    show "best_paths (store s) k = None" for k
      using stored_path_submitted [OF assms, of k] that empty(2) by (cases "best_paths (store s) k") auto
  qed
  ultimately show ?thesis using run_whitelist [OF assms] run_nonces [OF assms] empty by auto
qed

theorem genesis_trusts_root_witness:
  "\<exists>s. chain_run sample_chain_env genesis_chain [Executed Root (AddWhitelistedOffchainAuthority 7)] s \<and>
     dom (whitelisted (store s)) = {7}"
proof -
  have "dispatch (overflow_checks sample_chain_env) (log_info sample_chain_env) Root
      (AddWhitelistedOffchainAuthority 7 :: (nat, nat, unit) call) (store genesis_chain) =
    Some (Inr (deposit_event (WhitelistedOffchainAuthorityAdded 7) (store genesis_chain)\<lparr>whitelisted := [7 \<mapsto> ()]\<rparr>))"
    by (simp add: dispatch_def add_whitelisted_offchain_authority_def ensure_root_def deposit_event_def Let_def
        genesis_chain_def genesis_storage_def)
  from chain_run.step [OF chain_run.start chain_step.executed [OF this]]
  obtain s where "chain_run sample_chain_env genesis_chain [Executed Root (AddWhitelistedOffchainAuthority 7)] s"
    by auto
  with genesis_trusts_root [OF this] show ?thesis by (auto simp: authorised_def)
qed

section \<open>Workers and the chain\<close>

lemma worker_never_removes:
  assumes "calculate env = calc_best_paths log2 Some Some" "iterates (iter_paths env)" "finite (dom (best_paths st))"
    and "fetch_prices_and_update_best_paths env b st = Some (r, txs)"
    and "OcwSubmitBestPathsChanges payload sig \<in> set txs" "(s, t, np) \<in> set (changes payload)"
  shows "np \<noteq> None"
proof (rule fetch_submits [OF assms(4,5)])
  fix ps new cs key payload'
  assume new: "calculate env ps = Some (Inr new)" and cs: "best_path_changes env st new = Some cs"
    and payload': "payload' = \<lparr>changes = cs, payload_nonce = unsigned_tx_nonce st, payload_block = b, public = key\<rparr>"
    "OcwSubmitBestPathsChanges payload sig = OcwSubmitBestPathsChanges payload' (sign env payload')"
  from new assms(1) fw.wf have "bm_wf new" by metis
  from best_path_changes_iff [OF assms(2,3) this cs, of s t np] payload' assms(6) show ?thesis by auto
qed

text \<open>C23: Stale prices stay: along a run in which every executed payload comes from a worker, no best path
  is ever removed, whatever root does to the monitored pairs in the meantime.\<close>

theorem stale_paths_stay:
  fixes env :: "('acc, 'pub, 'sig) chain_env"
  assumes "chain_run env s trace s'"
    and "\<forall>(payload, sig) \<in> set (submissions trace).
       \<exists>(worker_env :: ('acc, 'pub, 'sig) ocw_env) log2 st b r txs.
         calculate worker_env = calc_best_paths log2 Some Some \<and> iterates (iter_paths worker_env) \<and>
         finite (dom (best_paths st)) \<and> fetch_prices_and_update_best_paths worker_env b st = Some (r, txs) \<and>
         OcwSubmitBestPathsChanges payload sig \<in> set txs"
  shows "dom (best_paths (store s)) \<subseteq> dom (best_paths (store s'))"
  using assms
proof (induction rule: chain_run.induct)
  case (step s trace s' l s'')
  then have IH: "dom (best_paths (store s)) \<subseteq> dom (best_paths (store s'))" by simp
  show ?case
  proof (cases l rule: submission_cases)
    case none
    with IH step_other [OF step.hyps(2)] show ?thesis by simp
  next
    case (one payload sig)
    with step.prems have "\<forall>(s, t, np) \<in> set (changes payload). np \<noteq> None"
      using worker_never_removes by fastforce
    then have "dom (best_paths (store s')) \<subseteq> dom (changed_paths (changes payload) (best_paths (store s')))"
      by (rule changed_paths_grow)
    with IH step_submission(5) [OF step.hyps(2) one] show ?thesis by auto
  qed
qed simp

theorem stale_paths_stay_witness:
  "\<exists>cs s'. cs \<noteq> [] \<and> chain_run (sample_chain_env\<lparr>log_info := False\<rparr>) (sample_chain\<lparr>store := sample_monitored\<rparr>)
       [Executed NoOrigin (OcwSubmitBestPathsChanges (sample_payload cs) ())] s' \<and>
     dom (best_paths sample_monitored) \<subseteq> dom (best_paths (store s'))"
proof -
  let ?env = "sample_chain_env\<lparr>log_info := False\<rparr>" and ?s = "sample_chain\<lparr>store := sample_monitored\<rparr>"
  obtain cs where cs: "cs \<noteq> []" "fetch_prices_and_update_best_paths sample_fw_env 10 sample_monitored =
      Some (Inr (), [OcwSubmitBestPathsChanges (sample_payload cs) ()])"
    by (rule sample_fw_run)
  let ?tx = "OcwSubmitBestPathsChanges (sample_payload cs) () :: (nat, nat, unit) call"
  have "valid_in_block ?env ?s ?tx"
    by (simp add: valid_in_block_def validate_unsigned_def sample_chain_env_def sample_chain_def sample_monitored_def
        sample_storage_def sample_payload_def rs_add_def)
  moreover obtain st' where "dispatch (overflow_checks ?env) (log_info ?env) NoOrigin ?tx (store ?s) = Some (Inr st')"
    using ocw_submit_accepted [of sample_monitored "sample_payload cs" False True 4]
    by (auto simp: dispatch_def Let_def sample_chain_env_def sample_payload_def sample_monitored_def sample_storage_def
        rs_add_def)
  ultimately have run: "chain_run ?env ?s ([] @ [Executed NoOrigin ?tx]) (?s\<lparr>store := st'\<rparr>)"
    by (intro chain_run.step [OF chain_run.start] chain_step.executed) simp_all
  have "\<exists>(worker_env :: (nat, nat, unit) ocw_env) log2 st b r txs.
      calculate worker_env = calc_best_paths log2 Some Some \<and> iterates (iter_paths worker_env) \<and>
      finite (dom (best_paths st)) \<and> fetch_prices_and_update_best_paths worker_env b st = Some (r, txs) \<and>
      OcwSubmitBestPathsChanges (sample_payload cs) () \<in> set txs"
    by (rule exI [of _ sample_fw_env], rule exI [of _ rounded_log2], rule exI [of _ sample_monitored])
      (use cs(2) in \<open>force simp: sample_fw_env_def sample_env_def sample_monitored_def sample_storage_def\<close>)
  with stale_paths_stay [OF run] have "dom (best_paths (store ?s)) \<subseteq> dom (best_paths (store (?s\<lparr>store := st'\<rparr>)))"
    by (simp add: submissions_def submission_def)
  with run cs(1) show ?thesis by (intro exI [of _ cs] exI [of _ "?s\<lparr>store := st'\<rparr>"]) simp
qed

text \<open>C12: One round brings the chain up to date: when a whitelisted worker submits at the current block and
  the block includes its transaction, every new best path is stored at a cost within the
  tolerance, and a further run at the same prices submits nothing.\<close>

theorem worker_round:
  fixes node :: "('acc, 'pub, 'sig) ocw_env" and env :: "('acc, 'pub, 'sig) chain_env"
  assumes it: "iterates (iter_paths node)" and "finite_storage (store s)"
    and ps: "fetched_pairs node (store s) = Some ps" and new: "calculate node ps = Some (Inr new)" and wf: "bm_wf new"
    and cmp: "comparable node (store s) new" and nz: "\<forall>k p. bm_get new k = Some p \<longrightarrow> total_cost p \<noteq> 0"
    and run: "fetch_prices_and_update_best_paths node (block_number s) (store s) = Some (r, txs)" and tx: "tx \<in> set txs"
    and verify: "\<forall>payload. verify_payload env payload (sign node payload)"
    and key: "\<forall>key. local_key node = Some key \<longrightarrow> whitelisted (store s) (account_of env key) \<noteq> None"
    and fits: "unat (block_number s) + unat (max_pool_stay env) < 2 ^ 32" "unsigned_tx_nonce (store s) \<noteq> - 1"
    and logs: "log_info env \<longrightarrow> log_debug node"
  shows "\<exists>s'. chain_step env s (Executed NoOrigin tx) s' \<and>
     (\<forall>k p. bm_get new k = Some p \<longrightarrow> (\<exists>old. best_paths (store s') (source k, target k) = Some old \<and>
        breaches_tolerance (total_cost old) (total_cost p) (tolerance node) = Some False)) \<and>
     fetch_prices_and_update_best_paths node b (store s') = Some (Inr (), [])"
  by (rule round_brings_up_to_date [OF assms])

theorem worker_round_witness:
  "\<exists>s'. chain_step sample_chain_env (sample_chain\<lparr>block_number := 10, store := sample_monitored\<rparr>)
       (Executed NoOrigin (OcwSubmitBestPathsChanges (sample_payload sample_changes) ())) s' \<and>
     fetch_prices_and_update_best_paths sample_env 11 (store s') = Some (Inr (), [])"
proof -
  let ?s = "sample_chain\<lparr>block_number := 10, store := sample_monitored\<rparr>"
  have run: "fetch_prices_and_update_best_paths sample_env (block_number ?s) (store ?s) =
      Some (Inr (), [OcwSubmitBestPathsChanges (sample_payload sample_changes) ()])"
    "fetched_pairs sample_env (store ?s) = Some [(ProviderPair (Pair BTC USD) CRYPTOCOMPARE, 7)]"
    "comparable sample_env (store ?s) [(Pair BTC USD, sample_path)]"
    by (simp_all add: sample_run sample_fetched sample_comparable)
  have sample: "finite_storage (store ?s)" "bm_wf [(Pair BTC USD, sample_path)]"
    "\<forall>k p. bm_get [(Pair BTC USD, sample_path)] k = Some p \<longrightarrow> total_cost p \<noteq> 0"
    "OcwSubmitBestPathsChanges (sample_payload sample_changes) () \<in>
       set [OcwSubmitBestPathsChanges (sample_payload sample_changes) () :: (nat, nat, unit) call]"
    "\<forall>payload. verify_payload sample_chain_env payload (sign sample_env payload)"
    "\<forall>key. local_key sample_env = Some key \<longrightarrow> whitelisted (store ?s) (account_of sample_chain_env key) \<noteq> None"
    "unat (block_number ?s) + unat (max_pool_stay sample_chain_env) < 2 ^ 32" "unsigned_tx_nonce (store ?s) \<noteq> - 1"
    "log_info sample_chain_env \<longrightarrow> log_debug sample_env"
    by (simp_all add: sample_chain_env_def sample_env_def sample_monitored_def sample_storage_def finite_storage_def
        bm_wf_def bm_get_def sample_path_def)
  show ?thesis
    using worker_round [OF sample_env_iterates(1) sample(1) run(2) sample_fetched(2) sample(2) run(3) sample(3) run(1)
        sample(4-9), of 11] by blast
qed

text \<open>C1: The price on chain is the best there is: when a worker with the Floyd-Warshall calculator submits
  at the current block and the block includes its transaction, then for every chain of exchanges
  over the fetched pairs a path is stored between its two ends, and the exact product of the fetched
  prices along the chain is at most the stored total, the tolerance of the comparison, one unit and
  four parts in a hundred million more. The stored paths have to be moderate, as they are for up to
  eight currencies and ordinary prices. (The bound on the stored total excludes the saturation of the
  tolerance check.)\<close>

theorem chain_price_near_best:
  fixes node :: "('acc, 'pub, 'sig) ocw_env" and env :: "('acc, 'pub, 'sig) chain_env"
  assumes node: "calculate node = calc_best_paths log2 Some Some" "accurate_log2 log2 \<delta>" "\<delta> \<le> 1 / 2 ^ 40"
      "iterates (iter_pairs node)" "iterates (iter_paths node)"
    and "finite_storage (store s)"
    and ps: "fetched_pairs node (store s) = Some ps" "\<forall>x \<in> set ps. snd x \<noteq> 0" "length (currencies_of ps) \<le> 320"
    and new: "calculate node ps = Some (Inr new)" "moderate_paths ps new \<or> ordinary_prices bits ps"
    and cmp: "comparable node (store s) new" and nz: "\<forall>k p. bm_get new k = Some p \<longrightarrow> total_cost p \<noteq> 0"
    and run: "fetch_prices_and_update_best_paths node (block_number s) (store s) = Some (r, txs)" and tx: "tx \<in> set txs"
    and verify: "\<forall>payload. verify_payload env payload (sign node payload)"
    and key: "\<forall>key. local_key node = Some key \<longrightarrow> whitelisted (store s) (account_of env key) \<noteq> None"
    and fits: "unat (block_number s) + unat (max_pool_stay env) < 2 ^ 32" "unsigned_tx_nonce (store s) \<noteq> - 1"
    and logs: "log_info env \<longrightarrow> log_debug node"
  shows "\<exists>s'. chain_step env s (Executed NoOrigin tx) s' \<and>
     (\<forall>xs a b. set xs \<subseteq> set ps \<and> xs \<noteq> [] \<and> length xs \<le> 320 \<and> chain a (map pair_of xs) b \<longrightarrow>
        (\<exists>p. best_paths (store s') (a, b) = Some p \<and>
           ((unat (tolerance node) + 1) * unat (total_cost p) < 2 ^ 128 \<longrightarrow>
              price_product xs * 10 ^ 12 \<le>
                (real (unat (total_cost p)) * (1 + (real (unat (tolerance node)) + 1) / 10 ^ 6) + 1) * (1 + 4 / 10 ^ 8))))"
  by (rule round_prices_near_best [OF assms])

theorem chain_price_near_best_witness:
  "\<exists>cs s' p. chain_step (sample_chain_env\<lparr>log_info := False\<rparr>) (sample_chain\<lparr>block_number := 10, store := sample_monitored\<rparr>)
       (Executed NoOrigin (OcwSubmitBestPathsChanges (sample_payload cs) ())) s' \<and>
     best_paths (store s') (BTC, USD) = Some p \<and>
     ((unat (tolerance sample_fw_env) + 1) * unat (total_cost p) < 2 ^ 128 \<longrightarrow>
        4 * 10 ^ 12 \<le> (real (unat (total_cost p)) * (1 + (real (unat (tolerance sample_fw_env)) + 1) / 10 ^ 6) + 1) * (1 + 4 / 10 ^ 8))"
proof -
  let ?env = "sample_chain_env\<lparr>log_info := False\<rparr>" and ?s = "sample_chain\<lparr>block_number := 10, store := sample_monitored\<rparr>"
  let ?ps = "sample_pair BTC USD"
  have less: "BTC < USD" by (simp add: BTC_def USD_def)
  obtain m cs where m: "calc_best_paths rounded_log2 Some Some ?ps = Some (Inr m)" "comparable sample_fw_env (store ?s) m"
    and run: "fetch_prices_and_update_best_paths sample_fw_env (block_number ?s) (store ?s) =
       Some (Inr (), [OcwSubmitBestPathsChanges (sample_payload cs) ()])"
    and ps: "fetched_pairs sample_fw_env (store ?s) = Some ?ps"
    by (rule sample_round) simp
  have node: "calculate sample_fw_env = calc_best_paths rounded_log2 Some Some" "(1::real) / 2 ^ 46 \<le> 1 / 2 ^ 40"
    "iterates (iter_pairs sample_fw_env)" "iterates (iter_paths sample_fw_env)" "finite_storage (store ?s)"
    using sample_env_iterates
    by (simp_all add: sample_fw_env_def finite_storage_def sample_monitored_def sample_storage_def)
  have calc: "calculate sample_fw_env ?ps = Some (Inr m)" using m(1) node(1) by simp
  have len: "length (currencies_of ?ps) \<le> 320" using less by (simp add: indexing_eval)
  have nz: "\<forall>k p. bm_get m k = Some p \<longrightarrow> total_cost p \<noteq> 0" using sample_pair_total [OF less m(1)] by blast
  have rest: "OcwSubmitBestPathsChanges (sample_payload cs) () \<in>
       set [OcwSubmitBestPathsChanges (sample_payload cs) () :: (nat, nat, unit) call]"
    "\<forall>payload. verify_payload ?env payload (sign sample_fw_env payload)"
    "\<forall>key. local_key sample_fw_env = Some key \<longrightarrow> whitelisted (store ?s) (account_of ?env key) \<noteq> None"
    "unat (block_number ?s) + unat (max_pool_stay ?env) < 2 ^ 32" "unsigned_tx_nonce (store ?s) \<noteq> - 1"
    "log_info ?env \<longrightarrow> log_debug sample_fw_env"
    by (simp_all add: sample_chain_env_def sample_fw_env_def sample_env_def sample_monitored_def sample_storage_def)
  have "set ?ps \<subseteq> set ?ps \<and> ?ps \<noteq> [] \<and> length ?ps \<le> 320 \<and> chain BTC (map pair_of ?ps) USD" "price_product ?ps = 4"
    by (simp_all add: sample_pair_def price_product_def price_of_def)
  then show ?thesis
    using chain_price_near_best [OF node(1) rounded_log2_accurate_prices node(2-5) ps sample_pair_nonzero len calc
        disjI2 [OF sample_pair_ordinary [OF less]] m(2) nz run rest] by metis
qed

end
